(* ===== verification/Cell_Prelude.thy ===== *)
theory Cell_Prelude
  imports Main "HOL-Library.Word"
begin

text \<open>
  Shared vocabulary of the development: the machine integer types of the sources, Rust panics
  as values, byte-list slices (\<open>slice_at\<close>, \<open>splice_at\<close>) for arrays, buffers and disks, the
  little- and big-endian byte images of machine integers, and decimal rendering.
  The collections \<open>slice_simps\<close> and \<open>res_simps\<close> carry the component proofs.
\<close>

unbundle bit_operations_syntax

named_theorems slice_simps \<open>rewrite rules for slices and splices of lists\<close>
named_theorems res_simps \<open>rewrite rules for results that may panic\<close>

type_synonym u8 = "8 word"
type_synonym u16 = "16 word"
type_synonym u32 = "32 word"
type_synonym u64 = "64 word"
type_synonym usize = "64 word"

section \<open>Panics\<close>

text \<open>
  A Rust computation that may panic returns \<open>Inl\<close> of the reason or \<open>Inr\<close> of its value.
  The reasons are the checks that the compiler or the source inserts: arithmetic overflow
  (the repository only ever builds the debug profile, which checks it), an index out of
  range, and a failed \<open>assert!\<close>. \<open>UninitRead\<close> is not a panic but undefined behaviour: unsafe code
  reads a slot that was never written; the queue theorems show that it does not arise.
\<close>

datatype panic = ArithmeticOverflow | IndexOutOfBounds | AssertFailed | UninitRead

type_synonym 'a res = "panic + 'a"

definition res_bind :: "'a res \<Rightarrow> ('a \<Rightarrow> 'b res) \<Rightarrow> 'b res" where
  "res_bind m f = (case m of Inl e \<Rightarrow> Inl e | Inr x \<Rightarrow> f x)"

lemma res_bind_Inr [simp, res_simps]: "res_bind (Inr x) f = f x"
  by (simp add: res_bind_def)

lemma res_bind_Inl [simp, res_simps]: "res_bind (Inl e) f = Inl e"
  by (simp add: res_bind_def)

lemma res_bind_eq_Inr: "res_bind m f = Inr y \<longleftrightarrow> (\<exists>x. m = Inr x \<and> f x = Inr y)"
  by (cases m) auto

definition idx :: "'a list \<Rightarrow> nat \<Rightarrow> 'a res" where
  "idx xs i = (if i < length xs then Inr (xs ! i) else Inl IndexOutOfBounds)"

definition upd :: "'a list \<Rightarrow> nat \<Rightarrow> 'a \<Rightarrow> 'a list res" where
  "upd xs i v = (if i < length xs then Inr (xs[i := v]) else Inl IndexOutOfBounds)"

lemma idx_Inr [simp, res_simps]: "i < length xs \<Longrightarrow> idx xs i = Inr (xs ! i)"
  by (simp add: idx_def)

lemma upd_Inr [simp, res_simps]: "i < length xs \<Longrightarrow> upd xs i v = Inr (xs[i := v])"
  by (simp add: upd_def)

text \<open>Checked machine arithmetic, as the debug profile and the \<open>checked_\<close> methods do it.\<close>

definition checked_add :: "'a::len word \<Rightarrow> 'a word \<Rightarrow> 'a word option" where
  "checked_add a b = (if unat a + unat b < 2 ^ LENGTH('a) then Some (a + b) else None)"

definition checked_mul :: "'a::len word \<Rightarrow> 'a word \<Rightarrow> 'a word option" where
  "checked_mul a b = (if unat a * unat b < 2 ^ LENGTH('a) then Some (a * b) else None)"

definition saturating_mul :: "'a::len word \<Rightarrow> 'a word \<Rightarrow> 'a word" where
  "saturating_mul a b = (if unat a * unat b < 2 ^ LENGTH('a) then a * b else - 1)"

lemma unat_of_nat_lt: "n < 2 ^ LENGTH('a) \<Longrightarrow> unat (of_nat n :: 'a::len word) = n"
  by (simp add: unsigned_of_nat take_bit_nat_eq_self)

lemma unat_of_nat_id: "of_nat (unat w) = (w :: 'a::len word)"
  by simp

lemma unat_add_no_wrap:
  "unat (a :: 'a::len word) + unat b < 2 ^ LENGTH('a) \<Longrightarrow> unat (a + b) = unat a + unat b"
  by (simp add: unat_word_ariths)

lemma unat_mult_no_wrap:
  "unat (a :: 'a::len word) * unat b < 2 ^ LENGTH('a) \<Longrightarrow> unat (a * b) = unat a * unat b"
  by (simp add: unat_word_ariths)

lemma checked_add_Some:
  "checked_add a b = Some c \<longleftrightarrow> unat a + unat b < 2 ^ LENGTH('a) \<and> c = a + b"
  for a b c :: "'a::len word"
  by (auto simp: checked_add_def)

lemma checked_add_unat: "checked_add a b = Some c \<Longrightarrow> unat c = unat a + unat b"
  for a b c :: "'a::len word"
  by (auto simp: checked_add_def unat_add_no_wrap split: if_splits)

lemma checked_mul_unat: "checked_mul a b = Some c \<Longrightarrow> unat c = unat a * unat b"
  for a b c :: "'a::len word"
  by (auto simp: checked_mul_def unat_mult_no_wrap split: if_splits)

lemma unat_max_word: "unat (- 1 :: 'a::len word) = 2 ^ LENGTH('a) - 1"
  by (simp add: unsigned_minus_1_eq_mask mask_eq_exp_minus_1)

lemma unat_saturating_mul:
  "unat (saturating_mul a b) = min (unat a * unat b) (2 ^ LENGTH('a) - 1)"
  for a b :: "'a::len word"
proof (cases "unat a * unat b < 2 ^ LENGTH('a)")
  case True
  then have "unat a * unat b \<le> 2 ^ LENGTH('a) - 1" by linarith
  with True show ?thesis by (simp only: saturating_mul_def unat_mult_no_wrap if_True min_absorb1)
next
  case False
  then have "2 ^ LENGTH('a) - 1 \<le> unat a * unat b" by linarith
  with False show ?thesis
    by (simp only: saturating_mul_def unat_max_word if_False min_absorb2)
qed

section \<open>Slices and splices\<close>

definition slice_at :: "'a list \<Rightarrow> nat \<Rightarrow> nat \<Rightarrow> 'a list" where
  "slice_at xs i n = take n (drop i xs)"

definition splice_at :: "'a list \<Rightarrow> nat \<Rightarrow> 'a list \<Rightarrow> 'a list" where
  "splice_at xs i ys = take i xs @ ys @ drop (i + length ys) xs"

lemma length_slice [simp, slice_simps]: "i + n \<le> length xs \<Longrightarrow> length (slice_at xs i n) = n"
  by (simp add: slice_at_def)

lemma length_splice [simp, slice_simps]:
  "i + length ys \<le> length xs \<Longrightarrow> length (splice_at xs i ys) = length xs"
  by (simp add: splice_at_def)

lemma nth_slice [slice_simps]: "i + n \<le> length xs \<Longrightarrow> k < n \<Longrightarrow> slice_at xs i n ! k = xs ! (i + k)"
  by (simp add: slice_at_def)

lemma nth_splice [slice_simps]:
  "i + length ys \<le> length xs \<Longrightarrow> k < length xs \<Longrightarrow>
   splice_at xs i ys ! k = (if i \<le> k \<and> k < i + length ys then ys ! (k - i) else xs ! k)"
  by (auto simp: splice_at_def nth_append min_def)

lemma slice_splice_same [simp, slice_simps]:
  "i + length ys \<le> length xs \<Longrightarrow> n = length ys \<Longrightarrow> slice_at (splice_at xs i ys) i n = ys"
  by (simp add: slice_at_def splice_at_def)

lemma splice_slice_id [simp, slice_simps]:
  "i + n \<le> length xs \<Longrightarrow> splice_at xs i (slice_at xs i n) = xs"
  by (rule nth_equalityI) (auto simp: nth_splice nth_slice)

lemma slice_splice_other [slice_simps]:
  "i + length ys \<le> length xs \<Longrightarrow> j + n \<le> length xs \<Longrightarrow> j + n \<le> i \<or> i + length ys \<le> j \<Longrightarrow>
   slice_at (splice_at xs i ys) j n = slice_at xs j n"
  by (rule nth_equalityI) (auto simp: nth_slice nth_splice)

lemma splice_splice_undo:
  "i + n \<le> length xs \<Longrightarrow> length ys = n \<Longrightarrow> splice_at (splice_at xs i ys) i (slice_at xs i n) = xs"
  by (rule nth_equalityI) (auto simp: nth_splice nth_slice)

lemma splice_splice_over:
  "i + length ys \<le> length xs \<Longrightarrow> length zs = length ys \<Longrightarrow>
   splice_at (splice_at xs i ys) i zs = splice_at xs i zs"
  by (rule nth_equalityI) (auto simp: nth_splice)

lemma slice_append_slice:
  "i + m + n \<le> length xs \<Longrightarrow> slice_at xs i m @ slice_at xs (i + m) n = slice_at xs i (m + n)"
  by (rule nth_equalityI) (auto simp: nth_slice nth_append)

lemma splice_append:
  "i + length ys + length zs \<le> length xs \<Longrightarrow>
   splice_at (splice_at xs i ys) (i + length ys) zs = splice_at xs i (ys @ zs)"
  by (rule nth_equalityI) (auto simp: nth_splice nth_append)

lemma slice_zero [simp, slice_simps]: "slice_at xs i 0 = []"
  by (simp add: slice_at_def)

lemma splice_Nil [simp, slice_simps]: "splice_at xs i [] = xs"
  by (simp add: splice_at_def)

lemma slice_slice:
  "j + m \<le> n \<Longrightarrow> i + n \<le> length xs \<Longrightarrow> slice_at (slice_at xs i n) j m = slice_at xs (i + j) m"
  by (rule nth_equalityI) (auto simp: nth_slice add.assoc)

lemma splice_slice_inner:
  "i + n \<le> length xs \<Longrightarrow> j + length ys \<le> n \<Longrightarrow>
   splice_at xs i (splice_at (slice_at xs i n) j ys) = splice_at xs (i + j) ys"
  by (rule nth_equalityI) (auto simp: nth_splice nth_slice)

lemma slice_splice_inner:
  "i + length ys \<le> length xs \<Longrightarrow> i \<le> j \<Longrightarrow> j + n \<le> i + length ys \<Longrightarrow>
   slice_at (splice_at xs i ys) j n = slice_at ys (j - i) n"
  by (rule nth_equalityI) (auto simp: nth_slice nth_splice)

lemma drop_splice: "i + length ys \<le> j \<Longrightarrow> i + length ys \<le> length xs \<Longrightarrow> drop j (splice_at xs i ys) = drop j xs"
  by (rule nth_equalityI) (auto simp: nth_splice)

lemma replicate_neq_Cons: "x \<noteq> y \<Longrightarrow> 0 < n \<Longrightarrow> replicate n y \<noteq> x # xs"
  by (cases n) auto

lemma take_take_append: "take n (take n xs @ ys) = take n (xs @ ys)"
  by (cases "length xs \<le> n") auto

lemma map_filter_Cons:
  "List.map_filter f (x # xs) = (case f x of None \<Rightarrow> [] | Some y \<Rightarrow> [y]) @ List.map_filter f xs"
  by (simp add: List.map_filter_def split: option.split)

section \<open>Decimal rendering\<close>

text \<open>The text that \<open>core::fmt\<close> prints for an unsigned integer under a plain \<open>{}\<close>.\<close>

fun show_dec :: "nat \<Rightarrow> string" where
  "show_dec n = (if n < 10 then [char_of (48 + n)] else show_dec (n div 10) @ [char_of (48 + n mod 10)])"

declare show_dec.simps [simp del]

definition read_dec :: "string \<Rightarrow> nat" where
  "read_dec s = foldl (\<lambda>a c. 10 * a + (of_char c - 48)) 0 s"

lemma read_dec_snoc: "read_dec (s @ [c]) = 10 * read_dec s + (of_char c - 48)"
  by (simp add: read_dec_def)

lemma of_char_digit: "d < 10 \<Longrightarrow> of_char (char_of (48 + d :: nat)) = (48 + d :: nat)"
  by (simp add: of_char_of)

lemma read_show_dec: "read_dec (show_dec n) = n"
proof (induction n rule: show_dec.induct)
  case (1 n)
  show ?case
  proof (cases "n < 10")
    case True
    then show ?thesis
      by (simp add: show_dec.simps [of n] read_dec_def of_char_digit)
  next
    case False
    with 1 show ?thesis
      by (simp add: show_dec.simps [of n] read_dec_snoc of_char_digit)
  qed
qed

lemma show_dec_inject [simp]: "show_dec m = show_dec n \<longleftrightarrow> m = n"
  by (metis read_show_dec)

lemma show_dec_digits: "c \<in> set (show_dec n) \<Longrightarrow> 48 \<le> (of_char c :: nat) \<and> of_char c < (58 :: nat)"
proof (induction n rule: show_dec.induct)
  case (1 n)
  show ?case
  proof (cases "n < 10")
    case True
    with 1 show ?thesis
      by (auto simp: show_dec.simps [of n] of_char_digit)
  next
    case False
    with 1 show ?thesis
      by (auto simp: show_dec.simps [of n] of_char_digit)
  qed
qed

lemma show_dec_no_space: "CHR '' '' \<notin> set (show_dec n)" "CHR '':'' \<notin> set (show_dec n)"
  using show_dec_digits [of "CHR '' ''" n] show_dec_digits [of "CHR '':''" n] by auto

lemma append_sep_inject:
  "x \<notin> set as \<Longrightarrow> x \<notin> set bs \<Longrightarrow> as @ x # cs = bs @ x # ds \<longleftrightarrow> as = bs \<and> cs = ds"
  by (induction as arbitrary: bs) (case_tac bs; auto)+

section \<open>Byte images of integers\<close>

fun le_bytes :: "nat \<Rightarrow> nat \<Rightarrow> u8 list" where
  "le_bytes 0 n = []"
| "le_bytes (Suc k) n = of_nat n # le_bytes k (n div 256)"

fun le_nat :: "u8 list \<Rightarrow> nat" where
  "le_nat [] = 0"
| "le_nat (b # bs) = unat b + 256 * le_nat bs"

lemma length_le_bytes [simp]: "length (le_bytes k n) = k"
  by (induction k arbitrary: n) auto

lemma le_bytes_numeral: "le_bytes (numeral k) n = of_nat n # le_bytes (pred_numeral k) (n div 256)"
  by (simp only: numeral_eq_Suc [of k] le_bytes.simps)

lemma unat_of_nat_u8: "unat (of_nat n :: u8) = n mod 256"
  by (simp add: unsigned_of_nat take_bit_eq_mod)

lemma le_nat_le_bytes: "le_nat (le_bytes k n) = n mod 256 ^ k"
  by (induction k arbitrary: n) (auto simp: unat_of_nat_u8 mod_mult2_eq)

lemma le_nat_bound: "le_nat bs < 256 ^ length bs"
proof (induction bs)
  case Nil
  then show ?case by simp
next
  case (Cons b bs)
  have "unat b < 256" using unsigned_less [of b, where 'a = nat] by simp
  with Cons show ?case by simp
qed

lemma le_bytes_le_nat: "k = length bs \<Longrightarrow> le_bytes k (le_nat bs) = bs"
proof (induction bs arbitrary: k)
  case Nil
  then show ?case by simp
next
  case (Cons b bs)
  have b: "unat b < 256" using unsigned_less [of b, where 'a = nat] by simp
  have "(of_nat (unat b + 256 * le_nat bs) :: u8) = b"
    by (rule word_unat_eq_iff [THEN iffD2]) (simp only: unat_of_nat_u8 mod_mult_self2 mod_less [OF b])
  with Cons b show ?case by simp
qed

text \<open>An integer of the host in memory: \<open>be\<close> tells a big-endian host from a little-endian one.\<close>

definition load_host :: "bool \<Rightarrow> u8 list \<Rightarrow> 'a::len word" where
  "load_host be bs = of_nat (le_nat (if be then rev bs else bs))"

definition store_host :: "bool \<Rightarrow> nat \<Rightarrow> 'a::len word \<Rightarrow> u8 list" where
  "store_host be k w = (if be then rev (le_bytes k (unat w)) else le_bytes k (unat w))"

lemma length_store_host [simp]: "length (store_host be k w) = k"
  by (simp add: store_host_def)

lemma pow_256: "256 ^ k = (2 :: nat) ^ (8 * k)"
  by (simp add: power_mult)

lemma load_store_host: "LENGTH('a) = 8 * k \<Longrightarrow> load_host be (store_host be k w) = (w :: 'a::len word)"
proof -
  assume len: "LENGTH('a) = 8 * k"
  then have "unat w < 256 ^ k" using unsigned_less [of w, where 'a = nat] by (simp add: pow_256)
  then show ?thesis by (simp add: load_host_def store_host_def le_nat_le_bytes)
qed

lemma store_load_host:
  "LENGTH('a) = 8 * k \<Longrightarrow> length bs = k \<Longrightarrow> store_host be k (load_host be bs :: 'a::len word) = bs"
proof -
  assume len: "LENGTH('a) = 8 * k" and k: "length bs = k"
  let ?bs = "if be then rev bs else bs"
  have "le_nat ?bs < 2 ^ LENGTH('a)"
    using le_nat_bound [of ?bs] k by (simp add: len pow_256 split: if_splits)
  then have "unat (load_host be bs :: 'a word) = le_nat ?bs"
    unfolding load_host_def by (rule unat_of_nat_lt)
  then show ?thesis
    using k by (auto simp: store_host_def le_bytes_le_nat)
qed

end
