(* ===== verification/Cell_Core.thy ===== *)
theory Cell_Core
  imports Cell_Prelude
begin

text \<open>
  The crate \<open>cell-core\<close> (\<open>crates/cell-core/src/lib.rs\<close>): trace contexts, the typestate pair
  \<open>RawPayload\<close> / \<open>ValidatedPayload\<close>, capabilities, work results with their \<open>Display\<close> text, and
  the \<open>KernelModule\<close> trait as a record of its two methods. A slice argument \<open>&[u8]\<close> is a byte
  list; \<open>usize\<close> is 64 bits wide, as on the kernel's only target. Private fields are reachable
  through the modelled functions only, so \<open>payload_ok\<close> holds of every payload that exists.
\<close>

section \<open>Data\<close>

record trace_context =
  trace_id :: u64
  timestamp :: u64
  origin_node :: u16

definition trace_context_new :: "u64 \<Rightarrow> u64 \<Rightarrow> u16 \<Rightarrow> trace_context" where
  "trace_context_new tid ts node = \<lparr>trace_id = tid, timestamp = ts, origin_node = node\<rparr>"

record raw_payload =
  rp_context :: trace_context
  rp_data :: "u8 list"
  rp_len :: usize

record validated_payload =
  vp_context :: trace_context
  vp_data :: "u8 list"
  vp_len :: usize
  vp_token :: u32

record validator_capability =
  vc_token :: u32

definition validator_capability_new :: "u32 \<Rightarrow> validator_capability" where
  "validator_capability_new t = \<lparr>vc_token = t\<rparr>"

datatype work_result =
  Completed trace_context
| Failed trace_context u16 string

section \<open>Operations\<close>

text \<open>\<open>Inl\<close> is Rust's \<open>Err\<close> and \<open>Inr\<close> its \<open>Ok\<close>. A slice is never longer than \<open>isize::MAX\<close>.\<close>

definition raw_payload_new :: "trace_context \<Rightarrow> u8 list \<Rightarrow> work_result + raw_payload" where
  "raw_payload_new context input =
     (if length input > 512 then Inl (Failed context 0 ''payload exceeds 512 bytes'')
      else (let data = replicate 512 0;
                data = splice_at data 0 input
            in Inr \<lparr>rp_context = context, rp_data = data, rp_len = of_nat (length input)\<rparr>))"

definition raw_payload_is_empty :: "raw_payload \<Rightarrow> bool" where
  "raw_payload_is_empty p = (rp_len p = 0)"

definition raw_payload_validate :: "raw_payload \<Rightarrow> validator_capability \<Rightarrow> validated_payload" where
  "raw_payload_validate p verifier =
     \<lparr>vp_context = rp_context p, vp_data = rp_data p, vp_len = rp_len p, vp_token = vc_token verifier\<rparr>"

text \<open>\<open>&self.data[..self.len]\<close> panics when the end lies behind the array.\<close>

definition validated_payload_as_bytes :: "validated_payload \<Rightarrow> u8 list res" where
  "validated_payload_as_bytes p =
     (if unat (vp_len p) \<le> length (vp_data p) then Inr (take (unat (vp_len p)) (vp_data p))
      else Inl IndexOutOfBounds)"

fun work_result_context :: "work_result \<Rightarrow> trace_context" where
  "work_result_context (Completed context) = context"
| "work_result_context (Failed context _ _) = context"

fun work_result_display :: "work_result \<Rightarrow> string" where
  "work_result_display (Completed context) =
     ''trace '' @ show_dec (unat (trace_id context)) @ '' completed''"
| "work_result_display (Failed context node_id reason) =
     ''trace '' @ show_dec (unat (trace_id context)) @ '' failed at node '' @
     show_dec (unat node_id) @ '': '' @ reason"

text \<open>
  The trait \<open>KernelModule\<close>: both methods take \<open>&mut self\<close>, so they return the new module state, and
  an implementation may panic.
\<close>

record ('m, 'i, 'o) kernel_module =
  km_process :: "'m \<Rightarrow> 'i \<Rightarrow> ('m \<times> (work_result + 'o)) res"
  km_reset_state :: "'m \<Rightarrow> 'm res"

section \<open>Well-formed payloads\<close>

definition payload_ok :: "raw_payload \<Rightarrow> bool" where
  "payload_ok p \<longleftrightarrow> length (rp_data p) = 512 \<and> unat (rp_len p) \<le> 512 \<and>
     drop (unat (rp_len p)) (rp_data p) = replicate (512 - unat (rp_len p)) 0"

lemma unat_of_nat_small: "n \<le> 512 \<Longrightarrow> unat (of_nat n :: usize) = n"
  by (rule unat_of_nat_lt) simp

lemma raw_payload_new_Inl:
  "raw_payload_new c input = Inl e \<longleftrightarrow>
     512 < length input \<and> e = Failed c 0 ''payload exceeds 512 bytes''"
  by (auto simp: raw_payload_new_def Let_def)

lemma raw_payload_new_Inr:
  "raw_payload_new c input = Inr p \<longleftrightarrow>
     length input \<le> 512 \<and>
     p = \<lparr>rp_context = c, rp_data = input @ replicate (512 - length input) 0,
          rp_len = of_nat (length input)\<rparr>"
  by (auto simp: raw_payload_new_def Let_def splice_at_def)

lemma raw_payload_new_ok: "raw_payload_new c input = Inr p \<Longrightarrow> payload_ok p"
  by (auto simp: raw_payload_new_Inr payload_ok_def unat_of_nat_small)

lemma validate_as_bytes:
  "payload_ok p \<Longrightarrow>
   validated_payload_as_bytes (raw_payload_validate p v) = Inr (take (unat (rp_len p)) (rp_data p))"
  by (simp add: payload_ok_def validated_payload_as_bytes_def raw_payload_validate_def)

lemma raw_payload_is_empty_new:
  "raw_payload_new c input = Inr p \<Longrightarrow> raw_payload_is_empty p \<longleftrightarrow> input = []"
proof -
  assume "raw_payload_new c input = Inr p"
  then have "unat (rp_len p) = length input"
    by (auto simp: raw_payload_new_Inr unat_of_nat_small)
  then show ?thesis
    by (auto simp: raw_payload_is_empty_def unat_eq_zero)
qed

section \<open>Properties\<close>

text \<open>\<open>RawPayload::new\<close> is total: it rejects exactly the inputs over 512 bytes, with a
  failure that carries the caller's context and node 0, and otherwise builds a payload with the
  caller's context whose buffer is 512 bytes long, zero beyond \<open>len\<close>.\<close>

lemma raw_payload_new_spec:
  "(case raw_payload_new c input of
      Inl e \<Rightarrow> length input > 512 \<and> e = Failed c 0 ''payload exceeds 512 bytes''
    | Inr p \<Rightarrow> length input \<le> 512 \<and> payload_ok p \<and> rp_context p = c \<and>
               unat (rp_len p) = length input)"
proof (cases "raw_payload_new c input")
  case (Inl e)
  with raw_payload_new_Inl [of c input e] show ?thesis by simp
next
  case (Inr p)
  with raw_payload_new_ok [OF Inr] raw_payload_new_Inr [of c input p] show ?thesis
    by (simp add: unat_of_nat_small)
qed

text \<open>Round trip through the typestate: bytes accepted by \<open>RawPayload::new\<close> come back
  unchanged from \<open>validate\<close> followed by \<open>as_bytes\<close>, without a panic, and the validated payload
  carries the same context and length and the verifier's token.\<close>

lemma payload_roundtrip:
  assumes "raw_payload_new c input = Inr p"
  shows "validated_payload_as_bytes (raw_payload_validate p v) = Inr input \<and>
         vp_context (raw_payload_validate p v) = c \<and>
         unat (vp_len (raw_payload_validate p v)) = length input \<and>
         vp_token (raw_payload_validate p v) = vc_token v"
  using assms validate_as_bytes [OF raw_payload_new_ok [OF assms]]
  by (auto simp: raw_payload_new_Inr raw_payload_validate_def unat_of_nat_small)

lemma payload_roundtrip_witness:
  "validated_payload_as_bytes
     (raw_payload_validate
        \<lparr>rp_context = trace_context_new 1 1 0, rp_data = [67, 69] @ replicate 510 0, rp_len = 2\<rparr>
        (validator_capability_new 7)) = Inr [67, 69]"
  using payload_roundtrip [of "trace_context_new 1 1 0" "[67, 69]"
      "\<lparr>rp_context = trace_context_new 1 1 0, rp_data = [67, 69] @ replicate 510 0, rp_len = 2\<rparr>"
      "validator_capability_new 7"]
  by (simp add: raw_payload_new_Inr)

text \<open>The \<open>Display\<close> text of a work result determines what it reports: two results with
  the same text agree on success or failure, on the trace id, and for failures on the node and
  the reason.\<close>

lemma work_result_display_inject:
  "work_result_display r = work_result_display r' \<longleftrightarrow>
     trace_id (work_result_context r) = trace_id (work_result_context r') \<and>
     (case (r, r') of
        (Completed _, Completed _) \<Rightarrow> True
      | (Failed _ n s, Failed _ n' s') \<Rightarrow> n = n' \<and> s = s'
      | _ \<Rightarrow> False)"
  by (cases r; cases r')
     (auto simp: append_sep_inject show_dec_no_space word_unat_eq_iff)

end
