(* ===== verification/Cell_Tensor.thy ===== *)
theory Cell_Tensor
  imports Cell_Core
begin

text \<open>
  The zero-copy tensor descriptors of \<open>cell-core\<close> (\<open>crates/cell-core/src/tensor.rs\<close>): element
  types, shapes with saturating element counts, and \<open>TensorChunk\<close> with its typestate. The marker
  types \<open>MutableState\<close> and \<open>Ready\<close> are the two wrapper datatypes, so that each operation exists
  for its state only. Memory behind a raw pointer is a byte-addressed function; the slices the
  code forms over it are reads and writes of the range they cover.
\<close>

section \<open>Element types and shapes\<close>

datatype dtype = F32 | F16 | BF16 | I8 | U8

fun dtype_size_in_bytes :: "dtype \<Rightarrow> usize" where
  "dtype_size_in_bytes F32 = 4"
| "dtype_size_in_bytes F16 = 2"
| "dtype_size_in_bytes BF16 = 2"
| "dtype_size_in_bytes I8 = 1"
| "dtype_size_in_bytes U8 = 1"

record tensor_shape =
  dims :: "usize list"
  rank :: u8

definition new_1d :: "usize \<Rightarrow> tensor_shape" where
  "new_1d len = \<lparr>dims = [len, 0, 0, 0], rank = 1\<rparr>"

definition new_2d :: "usize \<Rightarrow> usize \<Rightarrow> tensor_shape" where
  "new_2d rows cols = \<lparr>dims = [rows, cols, 0, 0], rank = 2\<rparr>"

definition new_3d :: "usize \<Rightarrow> usize \<Rightarrow> usize \<Rightarrow> tensor_shape" where
  "new_3d batch sequence depth = \<lparr>dims = [batch, sequence, depth, 0], rank = 3\<rparr>"

definition new_4d :: "usize \<Rightarrow> usize \<Rightarrow> usize \<Rightarrow> usize \<Rightarrow> tensor_shape" where
  "new_4d batch channels height width = \<lparr>dims = [batch, channels, height, width], rank = 4\<rparr>"

text \<open>The loop of \<open>total_elements\<close>; \<open>self.dims[index]\<close> panics when \<open>rank\<close> exceeds the array.\<close>

function total_elements_loop :: "usize list \<Rightarrow> nat \<Rightarrow> nat \<Rightarrow> usize \<Rightarrow> usize res" where
  "total_elements_loop ds rk index tot =
     (if index < rk
      then res_bind (idx ds index) (\<lambda>d. total_elements_loop ds rk (Suc index) (saturating_mul tot d))
      else Inr tot)"
  by pat_completeness auto
termination
  by (relation "measure (\<lambda>(ds, rk, index, tot). rk - index)") auto

declare total_elements_loop.simps [simp del]

definition total_elements :: "tensor_shape \<Rightarrow> usize res" where
  "total_elements s = total_elements_loop (dims s) (unat (rank s)) 0 1"

section \<open>Chunks\<close>

record tensor_chunk =
  tc_context :: trace_context
  tc_shape :: tensor_shape
  tc_dtype :: dtype
  tc_phys_addr :: usize
  tc_virt_ptr :: usize
  tc_byte_len :: usize

datatype mutable_chunk = MutableChunk tensor_chunk
datatype ready_chunk = ReadyChunk tensor_chunk

text \<open>The product \<open>total_elements() * size_in_bytes()\<close> panics on overflow in the debug profile.\<close>

definition tensor_chunk_new ::
    "trace_context \<Rightarrow> usize \<Rightarrow> usize \<Rightarrow> tensor_shape \<Rightarrow> dtype \<Rightarrow> mutable_chunk res" where
  "tensor_chunk_new context phys_addr virt_ptr shape dtype =
     res_bind (total_elements shape) (\<lambda>tot.
       case checked_mul tot (dtype_size_in_bytes dtype) of
         None \<Rightarrow> Inl ArithmeticOverflow
       | Some byte_len \<Rightarrow>
           Inr (MutableChunk \<lparr>tc_context = context, tc_shape = shape, tc_dtype = dtype,
                 tc_phys_addr = phys_addr, tc_virt_ptr = virt_ptr, tc_byte_len = byte_len\<rparr>))"

type_synonym memory = "usize \<Rightarrow> u8"

definition mem_read :: "memory \<Rightarrow> usize \<Rightarrow> nat \<Rightarrow> u8 list" where
  "mem_read m p n = map (\<lambda>i. m (p + of_nat i)) [0..<n]"

definition mem_write :: "memory \<Rightarrow> usize \<Rightarrow> u8 list \<Rightarrow> memory" where
  "mem_write m p bs = (\<lambda>a. if unat (a - p) < length bs then bs ! unat (a - p) else m a)"

text \<open>
  \<open>as_mut_slice\<close> gives a view of \<open>byte_len\<close> bytes at \<open>virt_ptr\<close>; filling the view with
  \<open>copy_from_slice\<close> panics unless the lengths agree.
\<close>

fun as_mut_slice :: "mutable_chunk \<Rightarrow> usize \<times> nat" where
  "as_mut_slice (MutableChunk c) = (tc_virt_ptr c, unat (tc_byte_len c))"

definition copy_from_slice :: "memory \<Rightarrow> usize \<times> nat \<Rightarrow> u8 list \<Rightarrow> memory res" where
  "copy_from_slice m view bs =
     (if length bs = snd view then Inr (mem_write m (fst view) bs) else Inl AssertFailed)"

fun freeze :: "mutable_chunk \<Rightarrow> ready_chunk" where
  "freeze (MutableChunk c) =
     ReadyChunk \<lparr>tc_context = tc_context c, tc_shape = tc_shape c, tc_dtype = tc_dtype c,
       tc_phys_addr = tc_phys_addr c, tc_virt_ptr = tc_virt_ptr c, tc_byte_len = tc_byte_len c\<rparr>"

text \<open>
  \<open>as_slice::<T>\<close> for a type of \<open>sz\<close> bytes and alignment \<open>align\<close>: three assertions, then
  \<open>byte_len / sz\<close> elements, each given here by its bytes.
\<close>

fun as_slice :: "memory \<Rightarrow> usize \<Rightarrow> usize \<Rightarrow> ready_chunk \<Rightarrow> u8 list list res" where
  "as_slice m sz align (ReadyChunk c) =
     (if sz \<noteq> dtype_size_in_bytes (tc_dtype c) then Inl AssertFailed
      else if tc_byte_len c mod sz \<noteq> 0 then Inl AssertFailed
      else if tc_virt_ptr c mod align \<noteq> 0 then Inl AssertFailed
      else Inr (map (\<lambda>i. mem_read m (tc_virt_ptr c + of_nat (i * unat sz)) (unat sz))
                  [0..<unat (tc_byte_len c div sz)]))"

fun deconstruct :: "ready_chunk \<Rightarrow> trace_context \<times> usize" where
  "deconstruct (ReadyChunk c) = (tc_context c, tc_phys_addr c)"

section \<open>Element counts\<close>

lemma min_mult_saturate: "min (min a (M - 1) * b) (M - 1) = min (a * b) (M - 1)"
  if "0 < (M :: nat)" for a b M
proof (cases "a \<le> M - 1 \<or> b = 0")
  case False
  then have "M - 1 \<le> (M - 1) * b" "M - 1 \<le> a * b"
    using mult_le_mono [of "M - 1" a 1 b] by auto
  moreover from False have "min a (M - 1) = M - 1" by simp
  ultimately show ?thesis by (simp only: min_absorb2)
qed (auto simp: min_def)

lemma total_elements_loop_spec:
  "rk \<le> length ds \<Longrightarrow> index \<le> rk \<Longrightarrow>
   \<exists>t. total_elements_loop ds rk index tot = Inr t \<and>
       unat t = min (unat tot * prod_list (map unat (slice_at ds index (rk - index)))) (2 ^ 64 - 1)"
proof (induction ds rk index tot rule: total_elements_loop.induct)
  case (1 ds rk index tot)
  show ?case
  proof (cases "index < rk")
    case True
    let ?d = "ds ! index"
    from True "1.prems" have nth: "idx ds index = Inr ?d" by simp
    from True "1.prems" have sl: "slice_at ds index (rk - index) = ?d # slice_at ds (Suc index) (rk - Suc index)"
      by (simp add: slice_at_def Cons_nth_drop_Suc [symmetric] take_Cons' Suc_diff_Suc)
    obtain t where t: "total_elements_loop ds rk (Suc index) (saturating_mul tot ?d) = Inr t"
      "unat t = min (unat (saturating_mul tot ?d) *
         prod_list (map unat (slice_at ds (Suc index) (rk - Suc index)))) (2 ^ 64 - 1)"
      using "1.IH" [OF True, of ?d] True "1.prems" by auto
    have "unat t = min (unat tot * unat ?d *
         prod_list (map unat (slice_at ds (Suc index) (rk - Suc index)))) (2 ^ 64 - 1)"
      using t(2) min_mult_saturate [of "2 ^ 64"] by (simp add: unat_saturating_mul)
    with t(1) True nth show ?thesis
      by (subst total_elements_loop.simps) (simp add: sl mult.assoc)
  next
    case False
    with "1.prems" show ?thesis
      using unsigned_less [of tot, where 'a = nat] by (subst total_elements_loop.simps) (auto simp: min_def)
  qed
qed

lemma total_elements_spec:
  assumes "unat (rank s) \<le> length (dims s)"
  obtains t where "total_elements s = Inr t"
    "unat t = min (prod_list (map unat (take (unat (rank s)) (dims s)))) (2 ^ 64 - 1)"
  using total_elements_loop_spec [of "unat (rank s)" "dims s" 0 1] assms
  by (auto simp: total_elements_def slice_at_def)

lemma total_elements_loop_panic:
  "length ds < rk \<Longrightarrow> index \<le> length ds \<Longrightarrow>
   total_elements_loop ds rk index tot = Inl IndexOutOfBounds"
proof (induction ds rk index tot rule: total_elements_loop.induct)
  case (1 ds rk index tot)
  then show ?case
    by (subst total_elements_loop.simps, cases "index < length ds") (auto simp: idx_def)
qed

section \<open>Memory\<close>

lemma length_mem_read [simp]: "length (mem_read m p n) = n"
  by (simp add: mem_read_def)

lemma mem_read_add: "mem_read m p (a + b) = mem_read m p a @ mem_read m (p + of_nat a) b"
  by (rule nth_equalityI) (auto simp: mem_read_def nth_append algebra_simps)

lemma concat_mem_reads:
  "concat (map (\<lambda>i. mem_read m (p + of_nat (i * k)) k) [0..<n]) = mem_read m p (n * k)"
proof (induction n)
  case 0
  then show ?case by (simp add: mem_read_def)
next
  case (Suc n)
  then show ?case
    by (simp add: mem_read_add [of m p "n * k" k] add.commute [of k])
qed

lemma mem_read_write_same: "length bs \<le> 2 ^ 64 \<Longrightarrow> mem_read (mem_write m p bs) p (length bs) = bs"
  by (rule nth_equalityI) (auto simp: mem_read_def mem_write_def unat_of_nat_lt)

lemma mem_write_frame:
  "(\<And>i. i < length bs \<Longrightarrow> a \<noteq> p + of_nat i) \<Longrightarrow> mem_write m p bs a = m a"
proof -
  assume apart: "\<And>i. i < length bs \<Longrightarrow> a \<noteq> p + of_nat i"
  have "a = p + of_nat (unat (a - p))" by simp
  with apart have "\<not> unat (a - p) < length bs" by blast
  then show ?thesis by (simp add: mem_write_def)
qed

section \<open>Chunk life cycle\<close>

definition shape_ok :: "tensor_shape \<Rightarrow> bool" where
  "shape_ok s \<longleftrightarrow> length (dims s) = 4 \<and> unat (rank s) \<le> 4"

definition element_product :: "tensor_shape \<Rightarrow> nat" where
  "element_product s = prod_list (map unat (take (unat (rank s)) (dims s)))"

lemma new_shapes_ok:
  "shape_ok (new_1d a)" "shape_ok (new_2d a b)" "shape_ok (new_3d a b c)" "shape_ok (new_4d a b c d)"
  by (simp_all add: shape_ok_def new_1d_def new_2d_def new_3d_def new_4d_def)

lemma new_shapes_product:
  "element_product (new_1d a) = unat a" "element_product (new_2d a b) = unat a * unat b"
  "element_product (new_3d a b c) = unat a * unat b * unat c"
  "element_product (new_4d a b c d) = unat a * unat b * unat c * unat d"
  by (simp_all add: element_product_def new_1d_def new_2d_def new_3d_def new_4d_def
      mult.assoc)

lemma dtype_size_range: "unat (dtype_size_in_bytes d) \<in> {1, 2, 4}"
  by (cases d) auto

lemma total_elements_ok:
  "shape_ok s \<Longrightarrow>
   total_elements s = Inr (of_nat (min (element_product s) (2 ^ 64 - 1)))"
proof -
  assume "shape_ok s"
  then have "unat (rank s) \<le> length (dims s)" by (simp add: shape_ok_def)
  then obtain t where t: "total_elements s = Inr t"
    "unat t = min (element_product s) (2 ^ 64 - 1)"
    by (rule total_elements_spec) (simp add: element_product_def)
  then have "t = of_nat (min (element_product s) (2 ^ 64 - 1))"
    by (metis unat_of_nat_id)
  with t(1) show ?thesis by simp
qed

lemma tensor_chunk_new_Inr:
  "shape_ok s \<Longrightarrow> tensor_chunk_new ctx pa vp s d = Inr (MutableChunk c) \<Longrightarrow>
   unat (tc_byte_len c) = min (element_product s) (2 ^ 64 - 1) * unat (dtype_size_in_bytes d) \<and>
   tc_context c = ctx \<and> tc_shape c = s \<and> tc_dtype c = d \<and> tc_phys_addr c = pa \<and> tc_virt_ptr c = vp"
  by (auto simp: tensor_chunk_new_def total_elements_ok unat_of_nat_lt
      dest: checked_mul_unat split: option.splits)

lemma mod_of_multiple:
  "unat (w :: 'a::len word) = k * unat s \<Longrightarrow> w mod s = 0"
  by (simp add: word_unat_eq_iff unat_mod)

lemma unat_div_multiple:
  "unat (w :: 'a::len word) = k * unat s \<Longrightarrow> unat s \<noteq> 0 \<Longrightarrow> unat (w div s) = k"
  by (simp add: unat_div)

section \<open>Properties\<close>

text \<open>\<open>total_elements\<close> is the product of the first \<open>rank\<close> dimensions, saturated at
  \<open>usize::MAX\<close>, also when an early product saturates and a later dimension is zero; it panics
  exactly when \<open>rank\<close> exceeds the four dimensions.\<close>

lemma total_elements_saturates:
  assumes "length (dims s) = 4"
  shows "total_elements s =
    (if unat (rank s) \<le> 4 then Inr (of_nat (min (element_product s) (2 ^ 64 - 1)))
     else Inl IndexOutOfBounds)"
proof (cases "unat (rank s) \<le> 4")
  case True
  with assms show ?thesis by (simp add: total_elements_ok shape_ok_def)
next
  case False
  with assms show ?thesis by (simp add: total_elements_def total_elements_loop_panic)
qed

lemma total_elements_saturates_witness:
  "total_elements (new_4d 2 3 4 5) = Inr 120 \<and>
   total_elements (new_3d (2 ^ 40) (2 ^ 40) 0) = Inr 0 \<and>
   total_elements \<lparr>dims = [1, 1, 1, 1], rank = 9\<rparr> = Inl IndexOutOfBounds"
  using total_elements_saturates [of "new_4d 2 3 4 5"]
    total_elements_saturates [of "new_3d (2 ^ 40) (2 ^ 40) 0"]
    total_elements_saturates [of "\<lparr>dims = [1, 1, 1, 1], rank = 9\<rparr>"]
  by (simp only: new_shapes_product) (simp add: new_4d_def new_3d_def)

text \<open>\<open>TensorChunk::new\<close> on a shape made by a constructor either panics, exactly when the
  saturated element count times the element size overflows, or describes a buffer of exactly
  that many bytes and keeps every argument.\<close>

lemma tensor_chunk_new_spec:
  assumes "shape_ok s"
  shows "(let bytes = min (element_product s) (2 ^ 64 - 1) * unat (dtype_size_in_bytes d) in
    if 2 ^ 64 \<le> bytes then tensor_chunk_new ctx pa vp s d = Inl ArithmeticOverflow
    else tensor_chunk_new ctx pa vp s d =
      Inr (MutableChunk \<lparr>tc_context = ctx, tc_shape = s, tc_dtype = d, tc_phys_addr = pa,
             tc_virt_ptr = vp, tc_byte_len = of_nat bytes\<rparr>))"
  using assms
  by (auto simp: Let_def tensor_chunk_new_def total_elements_ok checked_mul_def unat_of_nat_lt)

lemma tensor_chunk_new_spec_witness:
  "tensor_chunk_new (trace_context_new 1 2 3) 0x4000 0x8000 (new_1d 1024) F32 =
     Inr (MutableChunk \<lparr>tc_context = trace_context_new 1 2 3, tc_shape = new_1d 1024, tc_dtype = F32,
       tc_phys_addr = 0x4000, tc_virt_ptr = 0x8000, tc_byte_len = 4096\<rparr>)"
  using tensor_chunk_new_spec [OF new_shapes_ok(1) [of 1024], of F32 "trace_context_new 1 2 3" "0x4000" "0x8000"]
  by (simp add: new_shapes_product Let_def)

text \<open>C26: Zero-copy round trip: bytes written through \<open>as_mut_slice\<close> of a fresh chunk are, after
  \<open>freeze\<close>, exactly the bytes of the elements that \<open>as_slice::<T>\<close> reads from the same address,
  in order, for every \<open>T\<close> of the chunk's element size whose alignment the pointer has; no
  assertion of \<open>as_slice\<close> fails, and \<open>deconstruct\<close> returns the original context and frame.\<close>

theorem tensor_zero_copy_roundtrip:
  assumes "shape_ok s" "tensor_chunk_new ctx pa vp s d = Inr mc"
    and "copy_from_slice m (as_mut_slice mc) bs = Inr m'"
    and "vp mod al = 0"
  shows "\<exists>vs. as_slice m' (dtype_size_in_bytes d) al (freeze mc) = Inr vs \<and> concat vs = bs \<and>
    length vs = min (element_product s) (2 ^ 64 - 1) \<and>
    (\<forall>v \<in> set vs. length v = unat (dtype_size_in_bytes d)) \<and>
    deconstruct (freeze mc) = (ctx, pa)"
proof -
  obtain c where mc: "mc = MutableChunk c" by (cases mc)
  let ?k = "unat (dtype_size_in_bytes d)" and ?n = "min (element_product s) (2 ^ 64 - 1)"
  note c = tensor_chunk_new_Inr [OF assms(1) assms(2) [unfolded mc]]
  have k: "?k \<noteq> 0" using dtype_size_range [of d] by auto
  have bs: "length bs = ?n * ?k" and m': "m' = mem_write m vp bs"
    using assms(3) c by (auto simp: mc copy_from_slice_def split: if_splits)
  have "length bs \<le> 2 ^ 64" using unsigned_less [of "tc_byte_len c", where 'a = nat] bs c by simp
  then have "mem_read m' vp (?n * ?k) = bs" using mem_read_write_same [of bs m vp] bs m' by simp
  then show ?thesis
    using c assms(4) k mod_of_multiple [of "tc_byte_len c" ?n] unat_div_multiple [of "tc_byte_len c" ?n]
      concat_mem_reads [of m' vp ?k ?n]
    by (auto simp: mc)
qed

theorem tensor_zero_copy_roundtrip_witness:
  "let mc = MutableChunk \<lparr>tc_context = trace_context_new 42 100 7, tc_shape = new_1d 2, tc_dtype = F16,
       tc_phys_addr = 0x8000, tc_virt_ptr = 0x1000, tc_byte_len = 4\<rparr>
   in \<exists>vs. as_slice (mem_write (\<lambda>_. 0) 0x1000 [1, 2, 3, 4]) 2 2 (freeze mc) = Inr vs \<and>
        concat vs = [1, 2, 3, 4] \<and> length vs = 2"
proof -
  let ?mc = "MutableChunk \<lparr>tc_context = trace_context_new 42 100 7, tc_shape = new_1d 2,
    tc_dtype = F16, tc_phys_addr = 0x8000, tc_virt_ptr = 0x1000, tc_byte_len = 4\<rparr>"
  have new: "tensor_chunk_new (trace_context_new 42 100 7) 0x8000 0x1000 (new_1d 2) F16 = Inr ?mc"
    by (simp add: tensor_chunk_new_def total_elements_ok new_shapes_ok new_shapes_product checked_mul_def)
  have copy: "copy_from_slice (\<lambda>_. 0) (as_mut_slice ?mc) [1, 2, 3, 4] =
      Inr (mem_write (\<lambda>_. 0) 0x1000 [1, 2, 3, 4])"
    by (simp add: copy_from_slice_def)
  show ?thesis
    using tensor_zero_copy_roundtrip [OF new_shapes_ok(1) new copy, of 2]
    by (auto simp: new_shapes_product Let_def)
qed

end
