(* ===== verification/Spsc_Queue.thy ===== *)
theory Spsc_Queue
  imports Cell_Prelude
begin

text \<open>
  The crate \<open>cell-queue\<close> (\<open>crates/cell-queue/src/lib.rs\<close>), one operation at a time: the ring buffer
  with its free-running 64-bit counters \<open>head\<close> and \<open>tail\<close>, \<open>push\<close>, \<open>pop\<close>, the handles, the
  predicates and \<open>Drop\<close>. The interface \<open>bounded_fifo\<close> states what clients rely on; it is
  interpreted on this model for every capacity that divides \<open>2\<^sup>6\<^sup>4\<close>. The threads' interleavings are
  the subject of \<open>Spsc_Concurrent\<close>.
\<close>

section \<open>The queue\<close>

datatype queue_full = QueueFull

text \<open>A slot is \<open>None\<close> while its \<open>MaybeUninit\<close> is uninitialised.\<close>

record 'a spsc_queue =
  sq_buffer :: "'a option list"
  sq_head :: usize
  sq_tail :: usize

definition spsc_new :: "usize \<Rightarrow> 'a spsc_queue" where
  "spsc_new CAP = \<lparr>sq_buffer = replicate (unat CAP) None, sq_head = 0, sq_tail = 0\<rparr>"

definition push_inner ::
    "usize \<Rightarrow> 'a spsc_queue \<Rightarrow> 'a \<Rightarrow> ((queue_full + unit) \<times> 'a spsc_queue) res" where
  "push_inner CAP q item =
     (if \<not> 0 < CAP then Inl AssertFailed
      else let head = sq_head q; tail = sq_tail q in
        if head - tail = CAP then Inr (Inl QueueFull, q)
        else let index = head mod CAP in
          res_bind (upd (sq_buffer q) (unat index) (Some item)) (\<lambda>buffer.
            Inr (Inr (), q\<lparr>sq_buffer := buffer, sq_head := head + 1\<rparr>)))"

definition pop_inner :: "usize \<Rightarrow> 'a spsc_queue \<Rightarrow> ('a option \<times> 'a spsc_queue) res" where
  "pop_inner CAP q =
     (if \<not> 0 < CAP then Inl AssertFailed
      else let tail = sq_tail q; head = sq_head q in
        if tail = head then Inr (None, q)
        else let index = tail mod CAP in
          res_bind (idx (sq_buffer q) (unat index)) (\<lambda>slot.
            case slot of
              None \<Rightarrow> Inl UninitRead
            | Some item \<Rightarrow> Inr (Some item, q\<lparr>sq_tail := tail + 1\<rparr>)))"

definition spsc_is_empty :: "'a spsc_queue \<Rightarrow> bool" where
  "spsc_is_empty q = (sq_head q = sq_tail q)"

definition spsc_is_full :: "usize \<Rightarrow> 'a spsc_queue \<Rightarrow> bool" where
  "spsc_is_full CAP q = (sq_head q - sq_tail q = CAP)"

text \<open>\<open>Drop\<close>: \<open>while self.pop().is_some() {}\<close>; the dropped items are returned in order.\<close>

function spsc_drop :: "usize \<Rightarrow> 'a spsc_queue \<Rightarrow> ('a list \<times> 'a spsc_queue) res" where
  "spsc_drop CAP q =
     (case pop_inner CAP q of
        Inl e \<Rightarrow> Inl e
      | Inr (None, q') \<Rightarrow> Inr ([], q')
      | Inr (Some x, q') \<Rightarrow> res_bind (spsc_drop CAP q') (\<lambda>(xs, q''). Inr (x # xs, q'')))"
  by pat_completeness auto

lemma pop_inner_decreases:
  assumes "pop_inner CAP q = Inr (Some x, q')"
  shows "unat (sq_head q' - sq_tail q') < unat (sq_head q - sq_tail q)"
proof -
  from assms have ne: "sq_tail q \<noteq> sq_head q" and q': "q' = q\<lparr>sq_tail := sq_tail q + 1\<rparr>"
    by (clarsimp simp: pop_inner_def Let_def res_bind_eq_Inr split: if_splits option.splits)+
  from ne have ne: "sq_head q - sq_tail q \<noteq> 0" by simp
  from ne have "0 < unat (sq_head q - sq_tail q)" by (simp only: unat_gt_0 not_False_eq_True)
  then have "unat (sq_head q - sq_tail q - 1) < unat (sq_head q - sq_tail q)"
    using unat_minus_one [OF ne] by linarith
  then show ?thesis by (simp add: q' diff_diff_eq)
qed

termination spsc_drop
  by (relation "measure (\<lambda>(CAP, q). unat (sq_head q - sq_tail q))")
     (auto dest: pop_inner_decreases)

declare spsc_drop.simps [simp del]

text \<open>The handles of \<open>split\<close> are references to the queue itself.\<close>

definition producer_push ::
    "usize \<Rightarrow> 'a spsc_queue \<Rightarrow> 'a \<Rightarrow> ((queue_full + unit) \<times> 'a spsc_queue) res" where
  "producer_push CAP q item = push_inner CAP q item"

definition consumer_pop :: "usize \<Rightarrow> 'a spsc_queue \<Rightarrow> ('a option \<times> 'a spsc_queue) res" where
  "consumer_pop CAP q = pop_inner CAP q"

definition consumer_is_empty :: "'a spsc_queue \<Rightarrow> bool" where
  "consumer_is_empty q = spsc_is_empty q"

section \<open>The interface of a bounded FIFO\<close>

text \<open>A client's calls, their outcomes, and the reference behaviour on a plain list.\<close>

datatype 'a q_op = Push 'a | Pop

datatype 'a q_out = Pushed | Full | Popped 'a | Empty

fun fifo_step :: "nat \<Rightarrow> 'a list \<Rightarrow> 'a q_op \<Rightarrow> 'a q_out \<times> 'a list" where
  "fifo_step cap xs (Push x) = (if length xs < cap then (Pushed, xs @ [x]) else (Full, xs))"
| "fifo_step cap [] Pop = (Empty, [])"
| "fifo_step cap (x # xs) Pop = (Popped x, xs)"

fun fifo_run :: "nat \<Rightarrow> 'a list \<Rightarrow> 'a q_op list \<Rightarrow> 'a q_out list \<times> 'a list" where
  "fifo_run cap xs [] = ([], xs)"
| "fifo_run cap xs (c # cs) =
     (let (r, ys) = fifo_step cap xs c; (rs, zs) = fifo_run cap ys cs in (r # rs, zs))"

fun q_call ::
    "('q \<Rightarrow> 'a \<Rightarrow> ((queue_full + unit) \<times> 'q) res) \<Rightarrow> ('q \<Rightarrow> ('a option \<times> 'q) res) \<Rightarrow>
     'q \<Rightarrow> 'a q_op \<Rightarrow> ('a q_out \<times> 'q) res" where
  "q_call push pop q (Push x) =
     res_bind (push q x) (\<lambda>(r, q'). Inr (case r of Inl QueueFull \<Rightarrow> Full | Inr _ \<Rightarrow> Pushed, q'))"
| "q_call push pop q Pop =
     res_bind (pop q) (\<lambda>(r, q'). Inr (case r of None \<Rightarrow> Empty | Some x \<Rightarrow> Popped x, q'))"

fun q_run ::
    "('q \<Rightarrow> 'a \<Rightarrow> ((queue_full + unit) \<times> 'q) res) \<Rightarrow> ('q \<Rightarrow> ('a option \<times> 'q) res) \<Rightarrow>
     'q \<Rightarrow> 'a q_op list \<Rightarrow> ('a q_out list \<times> 'q) res" where
  "q_run push pop q [] = Inr ([], q)"
| "q_run push pop q (c # cs) =
     res_bind (q_call push pop q c) (\<lambda>(r, q').
       res_bind (q_run push pop q' cs) (\<lambda>(rs, q''). Inr (r # rs, q'')))"

locale bounded_fifo =
  fixes cap :: nat
    and inv :: "'q \<Rightarrow> bool"
    and contents :: "'q \<Rightarrow> 'a list"
    and push :: "'q \<Rightarrow> 'a \<Rightarrow> ((queue_full + unit) \<times> 'q) res"
    and pop :: "'q \<Rightarrow> ('a option \<times> 'q) res"
  assumes contents_bound: "inv q \<Longrightarrow> length (contents q) \<le> cap"
    and push_room: "inv q \<Longrightarrow> length (contents q) < cap \<Longrightarrow>
      \<exists>q'. push q x = Inr (Inr (), q') \<and> inv q' \<and> contents q' = contents q @ [x]"
    and push_full: "inv q \<Longrightarrow> length (contents q) = cap \<Longrightarrow> push q x = Inr (Inl QueueFull, q)"
    and pop_nil: "inv q \<Longrightarrow> contents q = [] \<Longrightarrow> pop q = Inr (None, q)"
    and pop_cons: "inv q \<Longrightarrow> contents q = x # xs \<Longrightarrow>
      \<exists>q'. pop q = Inr (Some x, q') \<and> inv q' \<and> contents q' = xs"
begin

lemma call_refines:
  "inv q \<Longrightarrow> \<exists>q'. q_call push pop q c = Inr (fst (fifo_step cap (contents q) c), q') \<and>
     inv q' \<and> contents q' = snd (fifo_step cap (contents q) c)"
proof (cases c)
  case (Push x)
  assume inv: "inv q"
  show ?thesis
  proof (cases "length (contents q) < cap")
    case True
    with push_room [OF inv True, of x] Push show ?thesis by auto
  next
    case False
    with contents_bound [OF inv] have "length (contents q) = cap" by simp
    with push_full [OF inv this, of x] Push inv show ?thesis by simp
  qed
next
  case Pop
  assume inv: "inv q"
  show ?thesis
  proof (cases "contents q")
    case Nil
    with pop_nil [OF inv] Pop inv show ?thesis by simp
  next
    case (Cons x xs)
    with pop_cons [OF inv Cons] Pop show ?thesis by auto
  qed
qed

lemma run_refines:
  "inv q \<Longrightarrow> \<exists>q'. q_run push pop q cs = Inr (fst (fifo_run cap (contents q) cs), q') \<and>
     inv q' \<and> contents q' = snd (fifo_run cap (contents q) cs)"
proof (induction cs arbitrary: q)
  case Nil
  then show ?case by simp
next
  case (Cons c cs)
  obtain q1 where q1: "q_call push pop q c = Inr (fst (fifo_step cap (contents q) c), q1)"
    "inv q1" "contents q1 = snd (fifo_step cap (contents q) c)"
    using call_refines [OF Cons.prems, of c] by blast
  obtain q2 where "q_run push pop q1 cs = Inr (fst (fifo_run cap (contents q1) cs), q2)"
    "inv q2" "contents q2 = snd (fifo_run cap (contents q1) cs)"
    using Cons.IH [OF q1(2)] by blast
  with q1 show ?case by (simp add: case_prod_beta)
qed

lemma push_all_fits:
  "inv q \<Longrightarrow> length (contents q) + length xs \<le> cap \<Longrightarrow>
   \<exists>q'. q_run push pop q (map Push xs) = Inr (replicate (length xs) Pushed, q') \<and>
     inv q' \<and> contents q' = contents q @ xs"
proof (induction xs arbitrary: q)
  case Nil
  then show ?case by simp
next
  case (Cons x xs)
  from push_room [OF Cons.prems(1), of x] Cons.prems(2) obtain q1
    where q1: "push q x = Inr (Inr (), q1)" "inv q1" "contents q1 = contents q @ [x]" by auto
  with Cons.IH [OF q1(2)] Cons.prems(2) show ?case by auto
qed

end

section \<open>Invariant and contents\<close>

definition spsc_wf :: "usize \<Rightarrow> 'a spsc_queue \<Rightarrow> bool" where
  "spsc_wf CAP q \<longleftrightarrow> 0 < CAP \<and> length (sq_buffer q) = unat CAP \<and>
     unat (sq_head q - sq_tail q) \<le> unat CAP \<and>
     (\<forall>k < unat (sq_head q - sq_tail q).
        sq_buffer q ! unat ((sq_tail q + of_nat k) mod CAP) \<noteq> None)"

definition spsc_contents :: "usize \<Rightarrow> 'a spsc_queue \<Rightarrow> 'a list" where
  "spsc_contents CAP q =
     map (\<lambda>k. the (sq_buffer q ! unat ((sq_tail q + of_nat k) mod CAP)))
       [0..<unat (sq_head q - sq_tail q)]"

text \<open>
  Consecutive counter values use consecutive slots as long as the counter does not wrap, and
  always when the capacity divides \<open>2\<^sup>6\<^sup>4\<close>.
\<close>

definition slots_fit :: "usize \<Rightarrow> usize \<Rightarrow> nat \<Rightarrow> bool" where
  "slots_fit CAP t n \<longleftrightarrow> unat CAP dvd 2 ^ 64 \<or> unat t + n < 2 ^ 64"

definition spsc_inv :: "usize \<Rightarrow> 'a spsc_queue \<Rightarrow> bool" where
  "spsc_inv CAP q \<longleftrightarrow> spsc_wf CAP q \<and> unat CAP dvd 2 ^ 64"

lemma slot_less: "0 < CAP \<Longrightarrow> unat (w mod CAP) < unat (CAP :: usize)"
  by (simp add: unat_mod unat_gt_0 word_neq_0_conv)

lemma slot_of_offset:
  assumes "slots_fit CAP t n" "k \<le> n" "n < 2 ^ 64"
  shows "unat ((t + of_nat k) mod CAP) = (unat t + k) mod unat CAP"
proof -
  have k: "unat (of_nat k :: usize) = k"
    using assms by (intro unat_of_nat_lt) simp
  have "unat (t + of_nat k) = (unat t + k) mod 2 ^ 64"
    by (simp add: unat_word_ariths k)
  with assms show ?thesis
    by (auto simp: slots_fit_def unat_mod mod_mod_cancel)
qed

lemma slots_distinct:
  assumes "slots_fit CAP t n" "n < unat CAP" "k < n"
  shows "unat ((t + of_nat k) mod CAP) \<noteq> unat ((t + of_nat n) mod CAP)"
proof
  have n: "n < 2 ^ 64" using assms(2) unsigned_less [of CAP, where 'a = nat] by simp
  assume "unat ((t + of_nat k) mod CAP) = unat ((t + of_nat n) mod CAP)"
  then have "(unat t + k) mod unat CAP = (unat t + n) mod unat CAP"
    using slot_of_offset [OF assms(1) _ n] assms(3) by simp
  then have "unat CAP dvd (unat t + n) - (unat t + k)"
    using assms(3) by (intro mod_eq_dvd_iff_nat [THEN iffD1]) auto
  then have "unat CAP dvd n - k" by simp
  with assms(2,3) show False by (auto dest: dvd_imp_le)
qed

lemma length_spsc_contents [simp]:
  "length (spsc_contents CAP q) = unat (sq_head q - sq_tail q)"
  by (simp add: spsc_contents_def)

lemma head_as_offset: "sq_head q = sq_tail q + of_nat (unat (sq_head q - sq_tail q))"
  by simp

lemma push_inner_full:
  assumes "spsc_wf CAP q" "length (spsc_contents CAP q) = unat CAP"
  shows "push_inner CAP q x = Inr (Inl QueueFull, q)"
proof -
  from assms(2) have "sq_head q - sq_tail q = CAP" by (simp add: word_unat_eq_iff)
  with assms(1) show ?thesis by (simp add: push_inner_def spsc_wf_def)
qed

lemma push_inner_room:
  assumes wf: "spsc_wf CAP q" and room: "length (spsc_contents CAP q) < unat CAP"
    and fit: "slots_fit CAP (sq_tail q) (unat (sq_head q - sq_tail q))"
  shows "\<exists>q'. push_inner CAP q x = Inr (Inr (), q') \<and> spsc_wf CAP q' \<and>
    spsc_contents CAP q' = spsc_contents CAP q @ [x] \<and>
    sq_tail q' = sq_tail q \<and> sq_head q' = sq_head q + 1"
proof -
  define n where "n = unat (sq_head q - sq_tail q)"
  let ?i = "unat (sq_head q mod CAP)"
  let ?q' = "q\<lparr>sq_buffer := (sq_buffer q)[?i := Some x], sq_head := sq_head q + 1\<rparr>"
  from wf have cap: "0 < CAP" and len: "length (sq_buffer q) = unat CAP"
    by (simp_all add: spsc_wf_def)
  from room have n: "n < unat CAP" by (simp add: n_def)
  then have "sq_head q - sq_tail q \<noteq> CAP" by (auto simp: n_def)
  with cap len have push: "push_inner CAP q x = Inr (Inr (), ?q')"
    by (simp add: push_inner_def Let_def slot_less)
  have "n + 1 < 2 ^ 64"
    using n unsigned_less [of CAP, where 'a = nat] by simp
  then have n': "unat (sq_head q + 1 - sq_tail q) = Suc n"
    using unat_add_no_wrap [of "sq_head q - sq_tail q" 1]
    by (simp add: n_def add_diff_eq [symmetric] diff_add_eq)
  have i: "?i = unat ((sq_tail q + of_nat n) mod CAP)"
    by (simp only: n_def head_as_offset [symmetric])
  have other: "?i \<noteq> unat ((sq_tail q + of_nat k) mod CAP)" if "k < n" for k
    using slots_distinct [OF fit [folded n_def] n that] unfolding i by (rule not_sym)
  have slot: "(sq_buffer q)[?i := Some x] ! unat ((sq_tail q + of_nat k) mod CAP) =
      (if k = n then Some x else sq_buffer q ! unat ((sq_tail q + of_nat k) mod CAP))"
    if "k \<le> n" for k
  proof (cases "k = n")
    case True
    then show ?thesis
      using len slot_less [OF cap, of "sq_tail q + of_nat n"] by (simp only: i nth_list_update_eq simp_thms if_True)
  next
    case False
    with that other [of k] show ?thesis by simp
  qed
  have "spsc_wf CAP ?q'"
    using wf n n' slot by (auto simp: spsc_wf_def less_Suc_eq_le n_def [symmetric])
  moreover have "spsc_contents CAP ?q' = spsc_contents CAP q @ [x]"
    using n' slot by (auto simp: spsc_contents_def n_def [symmetric])
  ultimately show ?thesis using push by auto
qed

lemma pop_inner_nil:
  assumes "spsc_wf CAP q" "spsc_contents CAP q = []"
  shows "pop_inner CAP q = Inr (None, q)"
proof -
  from assms(2) have "unat (sq_head q - sq_tail q) = 0"
    using length_spsc_contents [of CAP q] by simp
  then have "sq_tail q = sq_head q" by (simp only: unat_eq_zero right_minus_eq)
  with assms(1) show ?thesis by (simp add: pop_inner_def spsc_wf_def)
qed

lemma pop_inner_cons:
  assumes wf: "spsc_wf CAP q" and cons: "spsc_contents CAP q = x # xs"
  shows "\<exists>q'. pop_inner CAP q = Inr (Some x, q') \<and> spsc_wf CAP q' \<and> spsc_contents CAP q' = xs"
proof -
  let ?n = "unat (sq_head q - sq_tail q)" and ?q' = "q\<lparr>sq_tail := sq_tail q + 1\<rparr>"
  have n: "?n = Suc (length xs)"
    using arg_cong [OF cons, of length] by simp
  then have ne: "sq_head q - sq_tail q \<noteq> 0" by auto
  have n': "unat (sq_head q - (sq_tail q + 1)) = length xs"
    using unat_minus_one [OF ne] n by (simp add: diff_diff_eq)
  have step: "sq_tail q + 1 + of_nat k = sq_tail q + of_nat (Suc k)" for k by simp
  from wf n have "sq_buffer q ! unat (sq_tail q mod CAP) \<noteq> None"
    by (auto simp: spsc_wf_def dest: spec [of _ 0])
  moreover from cons n have "the (sq_buffer q ! unat (sq_tail q mod CAP)) = x"
    by (auto simp: spsc_contents_def upt_conv_Cons simp del: upt_Suc)
  ultimately have "sq_buffer q ! unat (sq_tail q mod CAP) = Some x" by auto
  with wf ne have "pop_inner CAP q = Inr (Some x, ?q')"
    by (auto simp: pop_inner_def Let_def spsc_wf_def slot_less)
  moreover have "spsc_wf CAP ?q'"
    using wf n n' by (auto simp: spsc_wf_def step simp del: of_nat_Suc)
  moreover have "spsc_contents CAP ?q' = xs"
  proof (rule nth_equalityI)
    show "length (spsc_contents CAP ?q') = length xs" using n' by simp
    fix k
    assume "k < length (spsc_contents CAP ?q')"
    then have k: "k < length xs" using n' by simp
    have "spsc_contents CAP ?q' ! k = spsc_contents CAP q ! Suc k"
      using k n n' by (simp add: spsc_contents_def step del: of_nat_Suc upt_Suc)
    then show "spsc_contents CAP ?q' ! k = xs ! k" by (simp add: cons)
  qed
  ultimately show ?thesis by blast
qed

lemma spsc_new_wf:
  "0 < CAP \<Longrightarrow> spsc_wf CAP (spsc_new CAP)"
  "spsc_contents CAP (spsc_new CAP) = []"
  by (simp_all add: spsc_wf_def spsc_new_def spsc_contents_def)

interpretation spsc: bounded_fifo "unat CAP" "spsc_inv CAP" "spsc_contents CAP"
  "push_inner CAP" "pop_inner CAP"
  for CAP :: usize
proof unfold_locales
  fix q :: "'a spsc_queue" and x :: 'a and xs
  assume inv: "spsc_inv CAP q"
  then have wf: "spsc_wf CAP q" and dvd: "unat CAP dvd 2 ^ 64" by (simp_all add: spsc_inv_def)
  from wf show "length (spsc_contents CAP q) \<le> unat CAP" by (simp add: spsc_wf_def)
  show "\<exists>q'. push_inner CAP q x = Inr (Inr (), q') \<and> spsc_inv CAP q' \<and>
      spsc_contents CAP q' = spsc_contents CAP q @ [x]" if "length (spsc_contents CAP q) < unat CAP"
    using push_inner_room [OF wf that, of x] dvd by (auto simp: slots_fit_def spsc_inv_def)
  show "push_inner CAP q x = Inr (Inl QueueFull, q)" if "length (spsc_contents CAP q) = unat CAP"
    using push_inner_full [OF wf that] .
  show "pop_inner CAP q = Inr (None, q)" if "spsc_contents CAP q = []"
    using pop_inner_nil [OF wf that] .
  show "\<exists>q'. pop_inner CAP q = Inr (Some x, q') \<and> spsc_inv CAP q' \<and> spsc_contents CAP q' = xs"
    if "spsc_contents CAP q = x # xs"
    using pop_inner_cons [OF wf that] dvd by (auto simp: spsc_inv_def)
qed

section \<open>Runs\<close>

lemma q_run_append:
  "q_run push pop q (as @ bs) =
     res_bind (q_run push pop q as) (\<lambda>(rs, q').
       res_bind (q_run push pop q' bs) (\<lambda>(rs', q''). Inr (rs @ rs', q'')))"
proof (induction as arbitrary: q)
  case Nil
  show ?case by (cases "q_run push pop q bs") auto
next
  case (Cons a as)
  show ?case
    by (cases "q_call push pop q a")
       (auto simp: Cons.IH res_bind_def split: sum.splits)
qed

lemma fifo_run_append:
  "fifo_run cap xs (as @ bs) =
     (let (rs, ys) = fifo_run cap xs as; (rs', zs) = fifo_run cap ys bs in (rs @ rs', zs))"
  by (induction as arbitrary: xs) (auto simp: Let_def split: prod.splits)

fun n_pushes :: "'a q_op list \<Rightarrow> nat" where
  "n_pushes [] = 0"
| "n_pushes (Push _ # cs) = Suc (n_pushes cs)"
| "n_pushes (Pop # cs) = n_pushes cs"

text \<open>The invariant of any capacity before the head counter wraps.\<close>

definition unwrapped :: "usize \<Rightarrow> 'a spsc_queue \<Rightarrow> bool" where
  "unwrapped CAP q \<longleftrightarrow> spsc_wf CAP q \<and>
     unat (sq_tail q) + unat (sq_head q - sq_tail q) = unat (sq_head q)"

lemma spsc_new_counters: "sq_head (spsc_new CAP) = 0" "sq_tail (spsc_new CAP) = 0"
  by (simp_all add: spsc_new_def)

lemma unwrapped_new: "0 < CAP \<Longrightarrow> unwrapped CAP (spsc_new CAP)"
  by (simp add: unwrapped_def spsc_new_wf spsc_new_counters)

lemma unwrapped_push:
  assumes "unwrapped CAP q" "length (spsc_contents CAP q) < unat CAP" "unat (sq_head q) + 1 < 2 ^ 64"
  shows "\<exists>q'. push_inner CAP q x = Inr (Inr (), q') \<and> unwrapped CAP q' \<and>
    spsc_contents CAP q' = spsc_contents CAP q @ [x] \<and> unat (sq_head q') = Suc (unat (sq_head q))"
proof -
  from assms have wf: "spsc_wf CAP q" and fit: "slots_fit CAP (sq_tail q) (unat (sq_head q - sq_tail q))"
    by (simp_all add: unwrapped_def slots_fit_def)
  obtain q' where q': "push_inner CAP q x = Inr (Inr (), q')" "spsc_wf CAP q'"
    "spsc_contents CAP q' = spsc_contents CAP q @ [x]" "sq_tail q' = sq_tail q"
    "sq_head q' = sq_head q + 1"
    using push_inner_room [OF wf assms(2) fit, of x] by blast
  have "unat (sq_head q') = Suc (unat (sq_head q))"
    using unat_add_no_wrap [of "sq_head q" 1] assms(3) by (simp add: q'(5))
  moreover have "unat (sq_head q' - sq_tail q') = Suc (unat (sq_head q - sq_tail q))"
    using arg_cong [OF q'(3), of length] by simp
  ultimately show ?thesis
    using q' assms(1) by (auto simp: unwrapped_def)
qed

lemma unwrapped_pop:
  assumes "unwrapped CAP q" "spsc_contents CAP q = x # xs"
  shows "\<exists>q'. pop_inner CAP q = Inr (Some x, q') \<and> unwrapped CAP q' \<and>
    spsc_contents CAP q' = xs \<and> sq_head q' = sq_head q"
proof -
  from assms have wf: "spsc_wf CAP q" by (simp add: unwrapped_def)
  obtain q' where q': "pop_inner CAP q = Inr (Some x, q')" "spsc_wf CAP q'" "spsc_contents CAP q' = xs"
    using pop_inner_cons [OF wf assms(2)] by blast
  from q'(1) have upd: "q' = q\<lparr>sq_tail := sq_tail q + 1\<rparr>"
    by (clarsimp simp: pop_inner_def Let_def res_bind_eq_Inr split: if_splits option.splits)
  have len: "unat (sq_head q - sq_tail q) = Suc (length xs)" "unat (sq_head q' - sq_tail q') = length xs"
    using arg_cong [OF assms(2), of length] arg_cong [OF q'(3), of length] by simp_all
  have "unat (sq_tail q) + 1 < 2 ^ 64"
    using assms(1) len(1) unsigned_less [of "sq_head q", where 'a = nat] by (simp add: unwrapped_def)
  then have "unat (sq_tail q') = Suc (unat (sq_tail q))"
    using unat_add_no_wrap [of "sq_tail q" 1] by (simp add: upd)
  with assms(1) len q' upd show ?thesis by (auto simp: unwrapped_def)
qed

lemma unwrapped_call:
  assumes "unwrapped CAP q" "unat (sq_head q) + n_pushes [c] < 2 ^ 64"
  shows "\<exists>q'. q_call (push_inner CAP) (pop_inner CAP) q c =
      Inr (fst (fifo_step (unat CAP) (spsc_contents CAP q) c), q') \<and>
    unwrapped CAP q' \<and> spsc_contents CAP q' = snd (fifo_step (unat CAP) (spsc_contents CAP q) c) \<and>
    unat (sq_head q') \<le> unat (sq_head q) + n_pushes [c]"
proof (cases c)
  case (Push x)
  have wf: "spsc_wf CAP q" using assms(1) by (simp add: unwrapped_def)
  show ?thesis
  proof (cases "length (spsc_contents CAP q) < unat CAP")
    case True
    with unwrapped_push [OF assms(1) True, of x] assms(2) Push show ?thesis by auto
  next
    case False
    with wf have "length (spsc_contents CAP q) = unat CAP" by (simp add: spsc_wf_def)
    with push_inner_full [OF wf this, of x] assms(1) Push show ?thesis by simp
  qed
next
  case Pop
  show ?thesis
  proof (cases "spsc_contents CAP q")
    case Nil
    with pop_inner_nil [of CAP q] assms(1) Pop show ?thesis by (auto simp: unwrapped_def)
  next
    case (Cons x xs)
    with unwrapped_pop [OF assms(1) Cons] Pop show ?thesis by auto
  qed
qed

lemma unwrapped_run:
  "unwrapped CAP q \<Longrightarrow> unat (sq_head q) + n_pushes cs < 2 ^ 64 \<Longrightarrow>
   \<exists>q'. q_run (push_inner CAP) (pop_inner CAP) q cs =
     Inr (fst (fifo_run (unat CAP) (spsc_contents CAP q) cs), q') \<and>
     spsc_contents CAP q' = snd (fifo_run (unat CAP) (spsc_contents CAP q) cs)"
proof (induction cs arbitrary: q)
  case Nil
  then show ?case by simp
next
  case (Cons c cs)
  have split: "n_pushes (c # cs) = n_pushes [c] + n_pushes cs" by (cases c) auto
  with Cons.prems(2) have "unat (sq_head q) + n_pushes [c] < 2 ^ 64" by simp
  from unwrapped_call [OF Cons.prems(1) this] obtain q1 where
    q1: "q_call (push_inner CAP) (pop_inner CAP) q c =
        Inr (fst (fifo_step (unat CAP) (spsc_contents CAP q) c), q1)"
      "unwrapped CAP q1"
      "spsc_contents CAP q1 = snd (fifo_step (unat CAP) (spsc_contents CAP q) c)"
      "unat (sq_head q1) \<le> unat (sq_head q) + n_pushes [c]"
    by blast
  with split Cons.prems(2) have "unat (sq_head q1) + n_pushes cs < 2 ^ 64" by simp
  from Cons.IH [OF q1(2) this] q1 show ?case by (auto simp: case_prod_beta)
qed

lemma spsc_drop_spec:
  "spsc_wf CAP q \<Longrightarrow>
   \<exists>q'. spsc_drop CAP q = Inr (spsc_contents CAP q, q') \<and> spsc_is_empty q'"
proof (induction CAP q rule: spsc_drop.induct)
  case (1 CAP q)
  show ?case
  proof (cases "spsc_contents CAP q")
    case Nil
    with pop_inner_nil [OF "1.prems" Nil] length_spsc_contents [of CAP q] show ?thesis
      by (subst spsc_drop.simps) (simp add: spsc_is_empty_def unat_eq_zero)
  next
    case (Cons x xs)
    from pop_inner_cons [OF "1.prems" Cons] obtain q1 where
      q1: "pop_inner CAP q = Inr (Some x, q1)" "spsc_wf CAP q1" "spsc_contents CAP q1 = xs" by blast
    with "1.IH" [OF q1(1) refl refl q1(2)] Cons show ?thesis
      by (subst spsc_drop.simps) auto
  qed
qed

lemma push_pop_pairs:
  assumes "length (sq_buffer q) = 3" "sq_head q = sq_tail q"
  shows "\<exists>q'. q_run (push_inner 3) (pop_inner 3) q (concat (replicate n [Push a, Pop])) =
      Inr (concat (replicate n [Pushed, Popped a]), q') \<and>
    length (sq_buffer q') = 3 \<and> sq_head q' = sq_tail q' \<and> sq_head q' = sq_head q + of_nat n"
  using assms
proof (induction n arbitrary: q)
  case 0
  then show ?case by simp
next
  case (Suc n)
  let ?q = "\<lparr>sq_buffer = (sq_buffer q)[unat (sq_head q mod 3) := Some a],
    sq_head = sq_head q + 1, sq_tail = sq_tail q + 1\<rparr>"
  have slot: "unat (sq_head q mod 3) < 3" using slot_less [of 3 "sq_head q"] by simp
  have "q_run (push_inner 3) (pop_inner 3) q [Push a, Pop] = Inr ([Pushed, Popped a], ?q)"
    using Suc.prems slot by (simp add: push_inner_def pop_inner_def Let_def)
  moreover obtain q' where "q_run (push_inner 3) (pop_inner 3) ?q (concat (replicate n [Push a, Pop])) =
      Inr (concat (replicate n [Pushed, Popped a]), q')"
    "length (sq_buffer q') = 3" "sq_head q' = sq_tail q'" "sq_head q' = sq_head ?q + of_nat n"
    using Suc.IH [of ?q] Suc.prems by auto
  ultimately show ?case
    by (simp only: replicate_Suc concat.simps q_run_append) (simp add: add.assoc)
qed

lemma fifo_pairs:
  "0 < cap \<Longrightarrow> fifo_run cap [] (concat (replicate n [Push a, Pop])) =
     (concat (replicate n [Pushed, Popped a]), [])"
  by (induction n) (auto simp: Let_def)

section \<open>Properties\<close>

text \<open>C16: For every capacity that divides \<open>2\<^sup>6\<^sup>4\<close> (all the kernel's queues), any sequence of pushes
  and pops on a new queue behaves as a bounded FIFO on a plain list: the same outcomes, the same
  remaining contents, no panic and no uninitialised read, however often the counters wrap.\<close>

theorem spsc_refines_fifo:
  assumes "0 < CAP" "unat CAP dvd 2 ^ 64"
  shows "\<exists>q'. q_run (push_inner CAP) (pop_inner CAP) (spsc_new CAP) cs =
      Inr (fst (fifo_run (unat CAP) [] cs), q') \<and>
    spsc_contents CAP q' = snd (fifo_run (unat CAP) [] cs)"
  using spsc.run_refines [of CAP "spsc_new CAP" cs] assms
  by (auto simp: spsc_inv_def spsc_new_wf)

theorem spsc_refines_fifo_witness:
  "\<exists>q'. q_run (push_inner 2) (pop_inner 2) (spsc_new 2)
      [Push 10, Push 20, Push 30, Pop, Push 30, Pop, Pop, Pop] =
    Inr ([Pushed, Pushed, Full, Popped 10, Pushed, Popped 20, Popped (30 :: nat), Empty], q')"
  using spsc_refines_fifo [of 2 "[Push 10, Push 20, Push (30 :: nat), Pop, Push 30, Pop, Pop, Pop]"]
  by (auto simp: Let_def)




text \<open>C40: \<open>Drop\<close> terminates on every well-formed queue, drops exactly the items still in it, each
  once and in order, and leaves it empty; and \<open>is_empty\<close> and \<open>is_full\<close> tell the truth.\<close>

theorem spsc_drop_drains:
  assumes "spsc_wf CAP q"
  shows "(\<exists>q'. spsc_drop CAP q = Inr (spsc_contents CAP q, q') \<and> spsc_is_empty q') \<and>
    (spsc_is_empty q \<longleftrightarrow> spsc_contents CAP q = []) \<and>
    (spsc_is_full CAP q \<longleftrightarrow> length (spsc_contents CAP q) = unat CAP)"
proof -
  have "sq_head q = sq_tail q \<longleftrightarrow> unat (sq_head q - sq_tail q) = 0"
    by (simp only: unat_eq_zero right_minus_eq)
  also have "\<dots> \<longleftrightarrow> spsc_contents CAP q = []"
    by (simp only: length_spsc_contents [of CAP q, symmetric] length_0_conv)
  finally have "spsc_is_empty q \<longleftrightarrow> spsc_contents CAP q = []"
    by (simp only: spsc_is_empty_def)
  moreover have "spsc_is_full CAP q \<longleftrightarrow> length (spsc_contents CAP q) = unat CAP"
    by (simp only: spsc_is_full_def length_spsc_contents word_unat_eq_iff)
  ultimately show ?thesis using spsc_drop_spec [OF assms] by simp
qed

theorem spsc_drop_drains_witness:
  "\<exists>q'. spsc_drop 2 \<lparr>sq_buffer = [Some 7, Some (5 :: nat)], sq_head = 1, sq_tail = - 1\<rparr> =
     Inr ([5, 7], q')"
  using spsc_drop_drains [of 2 "\<lparr>sq_buffer = [Some 7, Some (5 :: nat)], sq_head = 1, sq_tail = - 1\<rparr>"]
  by (simp add: spsc_wf_def spsc_contents_def upt_rec less_2_cases_iff) auto

end
