(* ===== verification/Spsc_Concurrent.thy ===== *)
theory Spsc_Concurrent
  imports Spsc_Queue
begin

text \<open>
  The queue of \<open>cell-queue\<close> with its two sides running concurrently, one memory access per step, under
  release/acquire ordering. Each counter is the list of the values stored to it. An acquire load of
  the other side's counter may return any value that is not older than the last one this side has
  read, and what was done before the store of that value has then happened before. A slot
  access that is not ordered after the last conflicting access of the other side is a data race.
\<close>

section \<open>States\<close>

text \<open>The stamps of a slot tell which store to a counter publishes the last write and the last read.\<close>

record 'a slot =
  sl_value :: "'a option"
  sl_writer :: nat
  sl_reader :: nat

datatype 'a producer_loc = PIdle | PTail 'a usize | PWrite 'a usize | PStore 'a usize
datatype 'a consumer_loc = CIdle | CHead usize | CRead usize | CStore usize 'a

record 'a concurrent =
  cc_slots :: "'a slot list"
  cc_heads :: "usize list"
  cc_tails :: "usize list"
  cc_tail_seen :: nat
  cc_head_seen :: nat
  cc_producer :: "'a producer_loc"
  cc_consumer :: "'a consumer_loc"
  cc_pushed :: "'a list"
  cc_popped :: "'a list"
  cc_race :: bool

definition concurrent_new :: "usize \<Rightarrow> 'a concurrent" where
  "concurrent_new CAP = \<lparr>cc_slots = replicate (unat CAP) \<lparr>sl_value = None, sl_writer = 0, sl_reader = 0\<rparr>,
     cc_heads = [0], cc_tails = [0], cc_tail_seen = 0, cc_head_seen = 0,
     cc_producer = PIdle, cc_consumer = CIdle, cc_pushed = [], cc_popped = [], cc_race = False\<rparr>"

section \<open>Steps\<close>

text \<open>A write to a slot outside the array would be a panic; it is a race flag here as well.\<close>

definition write_slot :: "nat \<Rightarrow> 'a \<Rightarrow> 'a concurrent \<Rightarrow> 'a concurrent" where
  "write_slot i x s =
     (if i < length (cc_slots s) \<and> sl_reader (cc_slots s ! i) \<le> cc_tail_seen s
      then s\<lparr>cc_slots := (cc_slots s)[i := (cc_slots s ! i)\<lparr>sl_value := Some x, sl_writer := length (cc_heads s)\<rparr>]\<rparr>
      else s\<lparr>cc_race := True\<rparr>)"

definition read_slot :: "nat \<Rightarrow> 'a concurrent \<Rightarrow> 'a option \<times> 'a concurrent" where
  "read_slot i s =
     (if i < length (cc_slots s) \<and> sl_writer (cc_slots s ! i) \<le> cc_head_seen s \<and> sl_value (cc_slots s ! i) \<noteq> None
      then (sl_value (cc_slots s ! i),
            s\<lparr>cc_slots := (cc_slots s)[i := (cc_slots s ! i)\<lparr>sl_reader := length (cc_tails s)\<rparr>]\<rparr>)
      else (None, s\<lparr>cc_race := True\<rparr>))"

text \<open>
  The producer inside \<open>push_inner\<close>: relaxed load of its own counter, acquire load of \<open>tail\<close>, the test,
  the write of the slot, release store.
\<close>

inductive producer_step :: "usize \<Rightarrow> 'a concurrent \<Rightarrow> 'a concurrent \<Rightarrow> bool" for CAP where
  load_head: "cc_producer s = PIdle \<Longrightarrow>
    producer_step CAP s (s\<lparr>cc_producer := PTail x (last (cc_heads s))\<rparr>)"
| full: "cc_producer s = PTail x head \<Longrightarrow> cc_tail_seen s \<le> i \<Longrightarrow> i < length (cc_tails s) \<Longrightarrow>
    head - cc_tails s ! i = CAP \<Longrightarrow>
    producer_step CAP s (s\<lparr>cc_tail_seen := i, cc_producer := PIdle\<rparr>)"
| room: "cc_producer s = PTail x head \<Longrightarrow> cc_tail_seen s \<le> i \<Longrightarrow> i < length (cc_tails s) \<Longrightarrow>
    head - cc_tails s ! i \<noteq> CAP \<Longrightarrow>
    producer_step CAP s (s\<lparr>cc_tail_seen := i, cc_producer := PWrite x head\<rparr>)"
| fill: "cc_producer s = PWrite x head \<Longrightarrow>
    producer_step CAP s ((write_slot (unat (head mod CAP)) x s)\<lparr>cc_producer := PStore x head\<rparr>)"
| store_head: "cc_producer s = PStore x head \<Longrightarrow>
    producer_step CAP s (s\<lparr>cc_heads := cc_heads s @ [head + 1], cc_pushed := cc_pushed s @ [x], cc_producer := PIdle\<rparr>)"

text \<open>The consumer inside \<open>pop_inner\<close>.\<close>

inductive consumer_step :: "usize \<Rightarrow> 'a concurrent \<Rightarrow> 'a concurrent \<Rightarrow> bool" for CAP where
  load_tail: "cc_consumer s = CIdle \<Longrightarrow>
    consumer_step CAP s (s\<lparr>cc_consumer := CHead (last (cc_tails s))\<rparr>)"
| empty: "cc_consumer s = CHead tail \<Longrightarrow> cc_head_seen s \<le> i \<Longrightarrow> i < length (cc_heads s) \<Longrightarrow>
    tail = cc_heads s ! i \<Longrightarrow>
    consumer_step CAP s (s\<lparr>cc_head_seen := i, cc_consumer := CIdle\<rparr>)"
| some: "cc_consumer s = CHead tail \<Longrightarrow> cc_head_seen s \<le> i \<Longrightarrow> i < length (cc_heads s) \<Longrightarrow>
    tail \<noteq> cc_heads s ! i \<Longrightarrow>
    consumer_step CAP s (s\<lparr>cc_head_seen := i, cc_consumer := CRead tail\<rparr>)"
| take: "cc_consumer s = CRead tail \<Longrightarrow> read_slot (unat (tail mod CAP)) s = (Some x, s') \<Longrightarrow>
    consumer_step CAP s (s'\<lparr>cc_consumer := CStore tail x\<rparr>)"
| race: "cc_consumer s = CRead tail \<Longrightarrow> read_slot (unat (tail mod CAP)) s = (None, s') \<Longrightarrow>
    consumer_step CAP s s'"
| store_tail: "cc_consumer s = CStore tail x \<Longrightarrow>
    consumer_step CAP s (s\<lparr>cc_tails := cc_tails s @ [tail + 1], cc_popped := cc_popped s @ [x], cc_consumer := CIdle\<rparr>)"

definition concurrent_step :: "usize \<Rightarrow> 'a concurrent \<Rightarrow> 'a concurrent \<Rightarrow> bool" where
  "concurrent_step CAP s s' \<longleftrightarrow> producer_step CAP s s' \<or> consumer_step CAP s s'"

lemma producer_concurrent: "producer_step CAP s s' \<Longrightarrow> concurrent_step CAP s s'"
  by (simp add: concurrent_step_def)

lemma consumer_concurrent: "consumer_step CAP s s' \<Longrightarrow> concurrent_step CAP s s'"
  by (simp add: concurrent_step_def)

inductive_cases producer_stepE: "producer_step CAP s s'"
inductive_cases consumer_stepE: "consumer_step CAP s s'"

section \<open>The invariant\<close>

abbreviation n_pushed :: "'a concurrent \<Rightarrow> nat" where "n_pushed s \<equiv> length (cc_pushed s)"
abbreviation n_popped :: "'a concurrent \<Rightarrow> nat" where "n_popped s \<equiv> length (cc_popped s)"

definition counters_ok :: "usize \<Rightarrow> 'a concurrent \<Rightarrow> bool" where
  "counters_ok CAP s \<longleftrightarrow> cc_heads s = map of_nat [0..<Suc (n_pushed s)] \<and> cc_tails s = map of_nat [0..<Suc (n_popped s)] \<and>
     cc_tail_seen s \<le> n_popped s \<and> n_popped s \<le> cc_head_seen s \<and> cc_head_seen s \<le> n_pushed s \<and>
     n_pushed s \<le> cc_tail_seen s + unat CAP \<and> cc_popped s = take (n_popped s) (cc_pushed s)"

definition slots_ok :: "usize \<Rightarrow> 'a concurrent \<Rightarrow> bool" where
  "slots_ok CAP s \<longleftrightarrow> length (cc_slots s) = unat CAP \<and>
     (\<forall>k. n_popped s \<le> k \<longrightarrow> k < n_pushed s \<longrightarrow>
        sl_value (cc_slots s ! (k mod unat CAP)) = Some (cc_pushed s ! k) \<and> sl_writer (cc_slots s ! (k mod unat CAP)) = Suc k) \<and>
     (\<forall>i < unat CAP. \<forall>m. sl_reader (cc_slots s ! i) = Suc m \<longrightarrow>
        m mod unat CAP = i \<and> (m < n_popped s \<or> m = n_popped s \<and> (\<exists>t x. cc_consumer s = CStore t x)))"

fun producer_ok :: "usize \<Rightarrow> 'a concurrent \<Rightarrow> 'a producer_loc \<Rightarrow> bool" where
  "producer_ok CAP s PIdle = True"
| "producer_ok CAP s (PTail x h) = (h = of_nat (n_pushed s))"
| "producer_ok CAP s (PWrite x h) = (h = of_nat (n_pushed s) \<and> n_pushed s < cc_tail_seen s + unat CAP)"
| "producer_ok CAP s (PStore x h) = (h = of_nat (n_pushed s) \<and> n_pushed s < cc_tail_seen s + unat CAP \<and>
     sl_value (cc_slots s ! (n_pushed s mod unat CAP)) = Some x \<and>
     sl_writer (cc_slots s ! (n_pushed s mod unat CAP)) = Suc (n_pushed s))"

fun consumer_ok :: "'a concurrent \<Rightarrow> 'a consumer_loc \<Rightarrow> bool" where
  "consumer_ok s CIdle = True"
| "consumer_ok s (CHead t) = (t = of_nat (n_popped s))"
| "consumer_ok s (CRead t) = (t = of_nat (n_popped s) \<and> n_popped s < cc_head_seen s)"
| "consumer_ok s (CStore t x) = (t = of_nat (n_popped s) \<and> n_popped s < cc_head_seen s \<and> x = cc_pushed s ! n_popped s)"

definition conc_inv :: "usize \<Rightarrow> 'a concurrent \<Rightarrow> bool" where
  "conc_inv CAP s \<longleftrightarrow> counters_ok CAP s \<and> slots_ok CAP s \<and> producer_ok CAP s (cc_producer s) \<and>
     consumer_ok s (cc_consumer s) \<and> \<not> cc_race s"

lemmas conc_defs = conc_inv_def counters_ok_def slots_ok_def

lemma conc_inv_new: "0 < CAP \<Longrightarrow> conc_inv CAP (concurrent_new CAP)"
  by (simp add: conc_defs concurrent_new_def)

text \<open>Counter values and slots, when the capacity divides \<open>2\<^sup>6\<^sup>4\<close>.\<close>

lemma slot_number: "unat CAP dvd 2 ^ 64 \<Longrightarrow> unat ((of_nat n :: usize) mod CAP) = n mod unat CAP"
  by (simp add: unat_mod unsigned_of_nat take_bit_eq_mod mod_mod_cancel)

lemma unat_usize_lt: "unat (CAP :: usize) < 2 ^ 64"
  using unsigned_less [of CAP, where 'a = nat] by simp

lemma counter_distance:
  assumes "i \<le> n" "n \<le> i + unat (CAP :: usize)"
  shows "of_nat n - of_nat i = CAP \<longleftrightarrow> n = i + unat CAP"
proof -
  have "of_nat n - of_nat i = (of_nat (n - i) :: usize)" using assms(1) by simp
  moreover have "n - i < 2 ^ 64" using assms unat_usize_lt [of CAP] by linarith
  then have "unat (of_nat (n - i) :: usize) = n - i" by (intro unat_of_nat_lt) simp
  ultimately show ?thesis using assms by (auto simp: word_unat_eq_iff)
qed

lemma counter_equal:
  assumes "t \<le> i" "i \<le> t + unat (CAP :: usize)"
  shows "(of_nat t :: usize) = of_nat i \<longleftrightarrow> t = i"
proof -
  have "of_nat i - of_nat t = (of_nat (i - t) :: usize)" using assms(1) by simp
  moreover have "i - t < 2 ^ 64" using assms unat_usize_lt [of CAP] by linarith
  then have "unat (of_nat (i - t) :: usize) = i - t" by (intro unat_of_nat_lt) simp
  ultimately have "of_nat i - of_nat t = (0 :: usize) \<longleftrightarrow> i - t = 0" by (auto simp: word_unat_eq_iff)
  then show ?thesis using assms(1) by auto
qed

lemma window_distinct:
  assumes "k < n" "n < k + c"
  shows "k mod c \<noteq> n mod (c :: nat)"
proof
  assume "k mod c = n mod c"
  then have "c dvd n - k" using assms(1) by (intro mod_eq_dvd_iff_nat [THEN iffD1]) auto
  with assms show False by (auto dest: dvd_imp_le)
qed

section \<open>Steps keep the invariant\<close>

lemma heads_nth: "counters_ok CAP s \<Longrightarrow> i < length (cc_heads s) \<Longrightarrow> cc_heads s ! i = of_nat i \<and> i \<le> n_pushed s"
  by (simp add: counters_ok_def del: upt_Suc)

lemma tails_nth: "counters_ok CAP s \<Longrightarrow> i < length (cc_tails s) \<Longrightarrow> cc_tails s ! i = of_nat i \<and> i \<le> n_popped s"
  by (simp add: counters_ok_def del: upt_Suc)

lemma last_counters:
  "counters_ok CAP s \<Longrightarrow> last (cc_heads s) = of_nat (n_pushed s) \<and> last (cc_tails s) = of_nat (n_popped s)"
  by (simp add: counters_ok_def)

lemma length_counters:
  "counters_ok CAP s \<Longrightarrow> length (cc_heads s) = Suc (n_pushed s) \<and> length (cc_tails s) = Suc (n_popped s)"
  by (simp add: counters_ok_def)

lemma write_slot_ok:
  assumes inv: "conc_inv CAP s" and cap: "0 < CAP"
    and loc: "cc_producer s = PWrite x h"
  shows "write_slot (n_pushed s mod unat CAP) x s = s\<lparr>cc_slots := (cc_slots s)[n_pushed s mod unat CAP :=
    (cc_slots s ! (n_pushed s mod unat CAP))\<lparr>sl_value := Some x, sl_writer := Suc (n_pushed s)\<rparr>]\<rparr>"
proof -
  let ?i = "n_pushed s mod unat CAP"
  have room: "n_pushed s < cc_tail_seen s + unat CAP" using inv loc by (simp add: conc_inv_def)
  have pos: "0 < unat CAP" using cap by (simp add: unat_gt_0 word_neq_0_conv)
  then have i: "?i < unat CAP" by simp
  have reader: "sl_reader (cc_slots s ! ?i) \<le> cc_tail_seen s"
  proof (cases "sl_reader (cc_slots s ! ?i)")
    case (Suc m)
    then have m: "m mod unat CAP = ?i" "m < n_popped s \<or> m = n_popped s \<and> (\<exists>t y. cc_consumer s = CStore t y)"
      using inv i by (auto simp: conc_inv_def slots_ok_def)
    have le: "n_popped s \<le> n_pushed s" using inv by (simp add: conc_defs)
    have lt: "m < n_pushed s"
    proof (rule ccontr)
      assume "\<not> m < n_pushed s"
      with m(2) le have "m = n_popped s" "n_popped s = n_pushed s" "\<exists>t y. cc_consumer s = CStore t y" by auto
      then show False using inv by (auto simp: conc_defs)
    qed
    have "\<not> n_pushed s < m + unat CAP" using window_distinct [OF lt] m(1) by auto
    then show ?thesis using room Suc by linarith
  qed simp
  then show ?thesis
    using i inv length_counters [of CAP s] by (simp add: write_slot_def conc_inv_def slots_ok_def)
qed

lemma producer_step_inv:
  assumes step: "producer_step CAP s s'" and inv: "conc_inv CAP s" and cap: "0 < CAP" "unat CAP dvd 2 ^ 64"
  shows "conc_inv CAP s'"
proof -
  have c: "counters_ok CAP s" using inv by (simp add: conc_inv_def)
  have pos: "0 < unat CAP" using cap(1) by (simp add: unat_gt_0 word_neq_0_conv)
  show ?thesis
    using step
  proof cases
    case (load_head x)
    then show ?thesis using inv last_counters [OF c] by (cases "cc_consumer s") (auto simp: conc_defs)
  next
    case (full x head i)
    then have "i \<le> n_popped s" using tails_nth [OF c] by blast
    with full inv show ?thesis by (cases "cc_consumer s") (auto simp: conc_defs)
  next
    case (room x head i)
    then have i: "cc_tails s ! i = of_nat i" "i \<le> n_popped s" using tails_nth [OF c] by blast+
    have h: "head = of_nat (n_pushed s)" using inv room by (simp add: conc_inv_def)
    have "i \<le> n_pushed s" "n_pushed s \<le> i + unat CAP" using i(2) room c by (simp_all add: counters_ok_def)
    then have "n_pushed s < i + unat CAP" using room h i(1) counter_distance [of i "n_pushed s" CAP] by auto
    with room i h inv show ?thesis by (cases "cc_consumer s") (auto simp: conc_defs)
  next
    case (fill x head)
    let ?i = "n_pushed s mod unat CAP"
    have h: "head = of_nat (n_pushed s)" "n_pushed s < cc_tail_seen s + unat CAP" using inv fill by (simp_all add: conc_inv_def)
    have i: "?i < length (cc_slots s)" using pos inv by (simp add: conc_inv_def slots_ok_def)
    have s': "s' = s\<lparr>cc_slots := (cc_slots s)[?i := (cc_slots s ! ?i)\<lparr>sl_value := Some x, sl_writer := Suc (n_pushed s)\<rparr>],
        cc_producer := PStore x head\<rparr>"
      using fill h slot_number [OF cap(2), of "n_pushed s"] write_slot_ok [OF inv cap(1), of x head] by simp
    have other: "k mod unat CAP \<noteq> ?i" if "n_popped s \<le> k" "k < n_pushed s" for k
      using that h(2) c by (intro window_distinct) (auto simp: counters_ok_def)
    have "slots_ok CAP s'"
      using inv i unfolding s' by (auto simp: conc_inv_def slots_ok_def nth_list_update other [THEN not_sym])
    moreover have "counters_ok CAP s'" using c by (simp add: s' counters_ok_def)
    ultimately show ?thesis
      using inv h i unfolding s' by (cases "cc_consumer s") (auto simp: conc_inv_def)
  next
    case (store_head x head)
    then have h: "head = of_nat (n_pushed s)" "n_pushed s < cc_tail_seen s + unat CAP" using inv by (simp_all add: conc_inv_def)
    have "counters_ok CAP s'" using c h unfolding store_head(1) by (auto simp: counters_ok_def)
    moreover have "slots_ok CAP s'"
      using inv store_head(2) unfolding store_head(1)
      by (auto simp: conc_inv_def slots_ok_def nth_append less_Suc_eq)
    ultimately show ?thesis
      using inv unfolding store_head(1)
      by (cases "cc_consumer s") (auto simp: conc_inv_def nth_append counters_ok_def)
  qed
qed

lemma consumer_step_inv:
  assumes step: "consumer_step CAP s s'" and inv: "conc_inv CAP s" and cap: "0 < CAP" "unat CAP dvd 2 ^ 64"
  shows "conc_inv CAP s'"
proof -
  have c: "counters_ok CAP s" using inv by (simp add: conc_inv_def)
  have pos: "0 < unat CAP" using cap(1) by (simp add: unat_gt_0 word_neq_0_conv)
  let ?i = "n_popped s mod unat CAP"
  have i: "?i < length (cc_slots s)" using pos inv by (simp add: conc_inv_def slots_ok_def)
  have read: "read_slot (unat (t mod CAP)) s = (Some (cc_pushed s ! n_popped s),
      s\<lparr>cc_slots := (cc_slots s)[?i := (cc_slots s ! ?i)\<lparr>sl_reader := Suc (n_popped s)\<rparr>]\<rparr>)"
    if "cc_consumer s = CRead t" for t
  proof -
    have t: "t = of_nat (n_popped s)" "n_popped s < cc_head_seen s" using inv that by (simp_all add: conc_inv_def)
    then have "n_popped s < n_pushed s" using c by (simp add: counters_ok_def)
    then have "sl_value (cc_slots s ! ?i) = Some (cc_pushed s ! n_popped s)" "sl_writer (cc_slots s ! ?i) = Suc (n_popped s)"
      using inv by (auto simp: conc_inv_def slots_ok_def)
    with t i show ?thesis
      using slot_number [OF cap(2), of "n_popped s"] length_counters [OF c] by (simp add: read_slot_def)
  qed
  show ?thesis
    using step
  proof cases
    case load_tail
    then show ?thesis using inv last_counters [OF c] by (cases "cc_producer s") (auto simp: conc_defs)
  next
    case (empty tail i)
    then have "i \<le> n_pushed s" using heads_nth [OF c] by blast
    with empty inv show ?thesis by (cases "cc_producer s") (auto simp: conc_defs)
  next
    case (some tail i)
    then have i: "cc_heads s ! i = of_nat i" "i \<le> n_pushed s" using heads_nth [OF c] by blast+
    have t: "tail = of_nat (n_popped s)" using inv some by (simp add: conc_inv_def)
    have "n_popped s \<noteq> i" using some(5) t i(1) by auto
    then have "n_popped s < i" using some(3) c by (simp add: counters_ok_def)
    with some i t inv show ?thesis by (cases "cc_producer s") (auto simp: conc_defs)
  next
    case (take tail s1 x)
    then have t: "tail = of_nat (n_popped s)" "n_popped s < cc_head_seen s" using inv by (simp_all add: conc_inv_def)
    have s': "s' = s\<lparr>cc_slots := (cc_slots s)[?i := (cc_slots s ! ?i)\<lparr>sl_reader := Suc (n_popped s)\<rparr>],
        cc_consumer := CStore tail (cc_pushed s ! n_popped s)\<rparr>"
      using read [OF take(2)] take by simp
    have "slots_ok CAP s'"
      using inv i take(2) unfolding s' by (auto simp: conc_inv_def slots_ok_def nth_list_update)
    moreover have "counters_ok CAP s'" using c by (simp add: s' counters_ok_def)
    ultimately show ?thesis
      using inv t i unfolding s' by (cases "cc_producer s") (auto simp: conc_inv_def nth_list_update)
  next
    case (race tail)
    then show ?thesis using read [OF race(1)] by simp
  next
    case (store_tail tail x)
    then have t: "tail = of_nat (n_popped s)" "n_popped s < cc_head_seen s" "x = cc_pushed s ! n_popped s"
      using inv by (simp_all add: conc_inv_def)
    then have lt: "n_popped s < n_pushed s" using c by (simp add: counters_ok_def)
    have "counters_ok CAP s'"
      using c t lt unfolding store_tail(1) by (auto simp: counters_ok_def take_Suc_conv_app_nth)
    moreover have "slots_ok CAP s'"
      using inv unfolding store_tail(1) by (auto simp: conc_inv_def slots_ok_def less_Suc_eq)
    ultimately show ?thesis
      using inv unfolding store_tail(1) by (cases "cc_producer s") (auto simp: conc_inv_def)
  qed
qed

lemma concurrent_reachable_inv:
  "(concurrent_step CAP)\<^sup>*\<^sup>* s s' \<Longrightarrow> conc_inv CAP s \<Longrightarrow> 0 < CAP \<Longrightarrow> unat CAP dvd 2 ^ 64 \<Longrightarrow> conc_inv CAP s'"
  by (induction rule: rtranclp_induct)
     (auto simp: concurrent_step_def intro: producer_step_inv consumer_step_inv)

section \<open>Properties\<close>

text \<open>C3: The queue is safe for one producer and one consumer that run concurrently under release/acquire
  ordering, with stale loads allowed: whatever the interleaving, no slot access is a data race, out of
  bounds or a read of an uninitialised slot, the items popped are the first ones pushed, in
  order, and never more than the capacity are in flight.\<close>

theorem spsc_concurrent_safe:
  assumes "0 < CAP" "unat CAP dvd 2 ^ 64" "(concurrent_step CAP)\<^sup>*\<^sup>* (concurrent_new CAP) s"
  shows "\<not> cc_race s \<and> cc_popped s = take (length (cc_popped s)) (cc_pushed s) \<and>
    length (cc_popped s) \<le> length (cc_pushed s) \<and> length (cc_pushed s) \<le> length (cc_popped s) + unat CAP"
proof -
  have "conc_inv CAP s" using concurrent_reachable_inv [OF assms(3) conc_inv_new] assms(1,2) by blast
  then show ?thesis by (auto simp: conc_inv_def counters_ok_def)
qed

text \<open>A run with one push and one pop, the consumer loading \<open>head\<close> after the release store.\<close>

theorem spsc_concurrent_safe_witness:
  "\<exists>s. (concurrent_step 2)\<^sup>*\<^sup>* (concurrent_new 2) s \<and> cc_popped s = [True] \<and> \<not> cc_race s \<and>
    length (cc_pushed s) \<le> length (cc_popped s) + 2"
proof -
  note p = producer_step.intros [THEN producer_concurrent] and c = consumer_step.intros [THEN consumer_concurrent]
  let ?step = "concurrent_step 2 :: bool concurrent \<Rightarrow> _"
  define e where "e = (\<lparr>sl_value = None, sl_writer = 0, sl_reader = 0\<rparr> :: bool slot)"
  define w where "w = \<lparr>sl_value = Some True, sl_writer = 1, sl_reader = 0\<rparr>"
  define r where "r = \<lparr>sl_value = Some True, sl_writer = 1, sl_reader = 1\<rparr>"
  define st where "st sl hs ts hn pl cl pu po = \<lparr>cc_slots = sl, cc_heads = hs, cc_tails = ts, cc_tail_seen = 0,
    cc_head_seen = hn, cc_producer = pl, cc_consumer = cl, cc_pushed = pu, cc_popped = po, cc_race = False\<rparr>"
    for sl :: "bool slot list" and hs ts hn pl cl pu po
  let ?s = "[st [e, e] [0] [0] 0 PIdle CIdle [] [],
    st [e, e] [0] [0] 0 (PTail True 0) CIdle [] [],
    st [e, e] [0] [0] 0 (PWrite True 0) CIdle [] [],
    st [w, e] [0] [0] 0 (PStore True 0) CIdle [] [],
    st [w, e] [0, 1] [0] 0 PIdle CIdle [True] [],
    st [w, e] [0, 1] [0] 0 PIdle (CHead 0) [True] [],
    st [w, e] [0, 1] [0] 1 PIdle (CRead 0) [True] [],
    st [r, e] [0, 1] [0] 1 PIdle (CStore 0 True) [True] [],
    st [r, e] [0, 1] [0, 1] 1 PIdle CIdle [True] [True]]"
  have two: "unat (2 :: usize) = Suc (Suc 0)" by simp
  have start: "concurrent_new 2 = ?s ! 0"
    unfolding concurrent_new_def two by (simp add: st_def e_def)
  have "?step (?s ! 0) (?s ! 1)" using p(1) [of "?s ! 0" 2 True] by (simp add: st_def)
  moreover have "?step (?s ! 1) (?s ! 2)" using p(3) [of "?s ! 1" True 0 0 2] by (simp add: st_def)
  moreover have "?step (?s ! 2) (?s ! 3)" using p(4) [of "?s ! 2" True 0 2] by (simp add: st_def write_slot_def e_def w_def)
  moreover have "?step (?s ! 3) (?s ! 4)" using p(5) [of "?s ! 3" True 0 2] by (simp add: st_def)
  moreover have "?step (?s ! 4) (?s ! 5)" using c(1) [of "?s ! 4" 2] by (simp add: st_def)
  moreover have "?step (?s ! 5) (?s ! 6)" using c(3) [of "?s ! 5" 0 1 2] by (simp add: st_def)
  moreover have "?step (?s ! 6) (?s ! 7)"
    using c(4) [of "?s ! 6" 0 2 True] by (simp add: st_def read_slot_def w_def r_def)
  moreover have "?step (?s ! 7) (?s ! 8)" using c(6) [of "?s ! 7" 0 True 2] by (simp add: st_def)
  ultimately have run: "?step\<^sup>*\<^sup>* (concurrent_new 2) (?s ! 8)"
    unfolding start by (meson converse_rtranclp_into_rtranclp rtranclp.rtrancl_refl)
  moreover have "cc_popped (?s ! 8) = [True]" by (simp add: st_def)
  ultimately show ?thesis using spsc_concurrent_safe [OF _ _ run] by auto
qed

end
