(* ===== verification/Cell_Supervisor.thy ===== *)
theory Cell_Supervisor
  imports Cell_Core
begin

text \<open>
  The crate \<open>cell-supervisor\<close> (\<open>crates/cell-supervisor/src/lib.rs\<close>): a log of failures of fixed
  capacity, filled in order of arrival, searched by trace id, and the reset hook for a failed
  node. The abstract log is the list of the records kept so far; \<open>failure_log\<close> is the interface
  its clients rely on.
\<close>

record failure_record =
  fr_context :: trace_context
  fr_node_id :: u16
  fr_reason :: string

record supervisor =
  sv_records :: "failure_record option list"
  sv_len :: usize

definition supervisor_new :: "usize \<Rightarrow> supervisor" where
  "supervisor_new CAP = \<lparr>sv_records = replicate (unat CAP) None, sv_len = 0\<rparr>"

fun observe :: "usize \<Rightarrow> supervisor \<Rightarrow> work_result \<Rightarrow> (failure_record option \<times> supervisor) res" where
  "observe CAP s (Completed _) = Inr (None, s)"
| "observe CAP s (Failed context node_id reason) =
     (let record = \<lparr>fr_context = context, fr_node_id = node_id, fr_reason = reason\<rparr> in
      if sv_len s < CAP
      then res_bind (upd (sv_records s) (unat (sv_len s)) (Some record)) (\<lambda>records.
        case checked_add (sv_len s) 1 of
          None \<Rightarrow> Inl ArithmeticOverflow
        | Some len' \<Rightarrow> Inr (Some record, s\<lparr>sv_records := records, sv_len := len'\<rparr>))
      else Inr (Some record, s))"

definition failure_count :: "supervisor \<Rightarrow> usize" where
  "failure_count s = sv_len s"

text \<open>\<open>records[..len].iter().flatten().find(..).copied()\<close>.\<close>

definition find_trace :: "supervisor \<Rightarrow> u64 \<Rightarrow> failure_record option res" where
  "find_trace s tid =
     (if unat (sv_len s) \<le> length (sv_records s)
      then Inr (find (\<lambda>r. trace_id (fr_context r) = tid)
             (List.map_filter id (take (unat (sv_len s)) (sv_records s))))
      else Inl IndexOutOfBounds)"

fun reset_failed_node ::
    "('m, 'i, 'o) kernel_module \<Rightarrow> 'm \<Rightarrow> work_result \<Rightarrow> (bool \<times> 'm) res" where
  "reset_failed_node M node (Failed _ _ _) = res_bind (km_reset_state M node) (\<lambda>node. Inr (True, node))"
| "reset_failed_node M node (Completed _) = Inr (False, node)"

section \<open>The abstract log\<close>

fun record_of :: "work_result \<Rightarrow> failure_record option" where
  "record_of (Completed _) = None"
| "record_of (Failed c n r) = Some \<lparr>fr_context = c, fr_node_id = n, fr_reason = r\<rparr>"

definition supervisor_ok :: "usize \<Rightarrow> supervisor \<Rightarrow> bool" where
  "supervisor_ok CAP s \<longleftrightarrow> length (sv_records s) = unat CAP \<and> sv_len s \<le> CAP \<and>
     (\<forall>i < unat (sv_len s). sv_records s ! i \<noteq> None)"

definition supervisor_log :: "supervisor \<Rightarrow> failure_record list" where
  "supervisor_log s = List.map_filter id (take (unat (sv_len s)) (sv_records s))"

fun observe_all :: "usize \<Rightarrow> supervisor \<Rightarrow> work_result list \<Rightarrow> supervisor res" where
  "observe_all CAP s [] = Inr s"
| "observe_all CAP s (r # rs) = res_bind (observe CAP s r) (\<lambda>(_, s'). observe_all CAP s' rs)"

lemma map_filter_all_Some:
  "(\<forall>i < length xs. xs ! i \<noteq> None) \<Longrightarrow> map Some (List.map_filter id xs) = xs"
  by (induction xs) (auto simp: List.map_filter_def nth_Cons split: nat.splits)

lemma length_supervisor_log:
  "supervisor_ok CAP s \<Longrightarrow> length (supervisor_log s) = unat (sv_len s)"
proof -
  assume ok: "supervisor_ok CAP s"
  let ?xs = "take (unat (sv_len s)) (sv_records s)"
  have "map Some (List.map_filter id ?xs) = ?xs"
    using ok by (intro map_filter_all_Some) (simp add: supervisor_ok_def)
  then have "length (List.map_filter id ?xs) = length ?xs"
    by (metis length_map)
  with ok show ?thesis by (simp add: supervisor_log_def supervisor_ok_def word_le_nat_alt)
qed

lemma supervisor_new_ok: "supervisor_ok CAP (supervisor_new CAP)" "supervisor_log (supervisor_new CAP) = []"
  by (simp_all add: supervisor_ok_def supervisor_new_def supervisor_log_def List.map_filter_def)

lemma observe_ok:
  assumes ok: "supervisor_ok CAP s"
  shows "\<exists>s'. observe CAP s r = Inr (record_of r, s') \<and> supervisor_ok CAP s' \<and>
    supervisor_log s' = take (unat CAP) (supervisor_log s @ (case record_of r of None \<Rightarrow> [] | Some f \<Rightarrow> [f]))"
proof (cases r)
  case (Completed c)
  with ok length_supervisor_log [OF ok] show ?thesis
    by (auto simp: supervisor_ok_def word_le_nat_alt)
next
  case (Failed c n why)
  let ?f = "\<lparr>fr_context = c, fr_node_id = n, fr_reason = why\<rparr>"
  note len = length_supervisor_log [OF ok]
  show ?thesis
  proof (cases "sv_len s < CAP")
    case True
    then have lt: "unat (sv_len s) < unat CAP" by (simp add: word_less_nat_alt)
    then have "unat (sv_len s) + 1 < 2 ^ 64"
      using unsigned_less [of CAP, where 'a = nat] by simp
    then have inc: "checked_add (sv_len s) 1 = Some (sv_len s + 1)" "unat (sv_len s + 1) = Suc (unat (sv_len s))"
      using unat_add_no_wrap [of "sv_len s" 1] by (simp_all add: checked_add_def)
    let ?s' = "s\<lparr>sv_records := (sv_records s)[unat (sv_len s) := Some ?f], sv_len := sv_len s + 1\<rparr>"
    from lt ok have idx: "unat (sv_len s) < length (sv_records s)" by (simp add: supervisor_ok_def)
    have "observe CAP s r = Inr (Some ?f, ?s')"
      using True idx inc by (simp add: Failed Let_def)
    moreover have "supervisor_ok CAP ?s'"
      using ok lt inc by (auto simp: supervisor_ok_def word_le_nat_alt nth_list_update less_Suc_eq)
    moreover have "supervisor_log ?s' = supervisor_log s @ [?f]"
      using idx inc by (simp add: supervisor_log_def take_Suc_conv_app_nth List.map_filter_def)
    ultimately show ?thesis using lt len by (auto simp: Failed)
  next
    case False
    with ok have "unat (sv_len s) = unat CAP" by (auto simp: supervisor_ok_def)
    with ok len False show ?thesis by (auto simp: Failed Let_def)
  qed
qed

section \<open>The interface of a bounded failure log\<close>

locale failure_log =
  fixes cap :: nat
    and ok :: "'s \<Rightarrow> bool"
    and log :: "'s \<Rightarrow> 'f list"
    and fault :: "'r \<Rightarrow> 'f option"
    and obs :: "'s \<Rightarrow> 'r \<Rightarrow> ('f option \<times> 's) res"
  assumes log_bound: "ok s \<Longrightarrow> length (log s) \<le> cap"
    and obs_log: "ok s \<Longrightarrow> \<exists>s'. obs s r = Inr (fault r, s') \<and> ok s' \<and>
      log s' = take cap (log s @ (case fault r of None \<Rightarrow> [] | Some f \<Rightarrow> [f]))"
begin

lemma obs_keeps_entries:
  "ok s \<Longrightarrow> obs s r = Inr (f, s') \<Longrightarrow> take (length (log s)) (log s') = log s"
  using obs_log [of s r] log_bound [of s] by (auto split: option.splits)

lemma fold_log:
  assumes step: "\<And>s. obss s [] = Inr s"
    "\<And>s r rs. obss s (r # rs) = res_bind (obs s r) (\<lambda>(_, s'). obss s' rs)"
  shows "ok s \<Longrightarrow> \<exists>s'. obss s rs = Inr s' \<and> ok s' \<and>
    log s' = take cap (log s @ List.map_filter fault rs)"
proof (induction rs arbitrary: s)
  case Nil
  with log_bound [OF Nil] show ?case by (simp add: step List.map_filter_def)
next
  case (Cons r rs)
  obtain s1 where s1: "obs s r = Inr (fault r, s1)" "ok s1"
    "log s1 = take cap (log s @ (case fault r of None \<Rightarrow> [] | Some f \<Rightarrow> [f]))"
    using obs_log [OF Cons.prems, of r] by blast
  from Cons.IH [OF s1(2)] obtain s2 where "obss s1 rs = Inr s2" "ok s2"
    "log s2 = take cap (log s1 @ List.map_filter fault rs)" by blast
  moreover from this s1(3) have "log s2 = take cap (log s @ List.map_filter fault (r # rs))"
    by (simp only: map_filter_Cons take_take_append append_assoc)
  ultimately show ?case using s1 by (simp add: step)
qed

end

interpretation sv_log: failure_log "unat CAP" "supervisor_ok CAP" supervisor_log record_of "observe CAP"
  for CAP :: usize
proof unfold_locales
  fix s r
  assume ok: "supervisor_ok CAP s"
  then show "length (supervisor_log s) \<le> unat CAP"
    using length_supervisor_log [OF ok] by (simp add: supervisor_ok_def word_le_nat_alt)
  show "\<exists>s'. observe CAP s r = Inr (record_of r, s') \<and> supervisor_ok CAP s' \<and>
      supervisor_log s' = take (unat CAP) (supervisor_log s @ (case record_of r of None \<Rightarrow> [] | Some f \<Rightarrow> [f]))"
    using observe_ok [OF ok, of r] .
qed

lemmas observe_all_log = sv_log.fold_log [of "observe_all CAP" for CAP, OF observe_all.simps]

lemma find_trace_log: "supervisor_ok CAP s \<Longrightarrow>
  find_trace s tid = Inr (find (\<lambda>r. trace_id (fr_context r) = tid) (supervisor_log s))"
  by (simp add: find_trace_def supervisor_log_def supervisor_ok_def word_le_nat_alt)

section \<open>Properties\<close>

text \<open>C27: After any sequence of observed results the supervisor has panicked on none; it holds, in
  order, exactly the first \<open>CAP\<close> failures of the sequence, \<open>failure_count\<close> is their number, and
  \<open>find_trace\<close> answers with the earliest of them for the trace id.\<close>

theorem supervisor_records_failures:
  "\<exists>s. observe_all CAP (supervisor_new CAP) rs = Inr s \<and>
     supervisor_log s = take (unat CAP) (List.map_filter record_of rs) \<and>
     unat (failure_count s) = min (unat CAP) (length (List.map_filter record_of rs)) \<and>
     find_trace s tid = Inr (find (\<lambda>f. trace_id (fr_context f) = tid)
       (take (unat CAP) (List.map_filter record_of rs)))"
proof -
  obtain s where s: "observe_all CAP (supervisor_new CAP) rs = Inr s" "supervisor_ok CAP s"
    "supervisor_log s = take (unat CAP) (List.map_filter record_of rs)"
    using observe_all_log [OF supervisor_new_ok(1), of CAP rs] by (auto simp: supervisor_new_ok)
  with length_supervisor_log [OF s(2)] find_trace_log [OF s(2), of tid] show ?thesis
    by (auto simp: failure_count_def)
qed

text \<open>A full supervisor still reports every failure to its caller: \<open>observe\<close> returns the record
  of each failed result and nothing for a completed one, full or not, and the entries already
  logged never change.\<close>

lemma observe_always_reports:
  assumes "supervisor_ok CAP s"
  shows "\<exists>s'. observe CAP s r = Inr (record_of r, s') \<and> supervisor_ok CAP s' \<and>
    take (length (supervisor_log s)) (supervisor_log s') = supervisor_log s"
  using sv_log.obs_log [OF assms, of r] sv_log.obs_keeps_entries [OF assms, of r] by auto

lemma observe_always_reports_witness:
  "\<exists>s'. observe 0 (supervisor_new 0) (Failed (trace_context_new 4 4 0) 1 ''x'') =
     Inr (Some \<lparr>fr_context = trace_context_new 4 4 0, fr_node_id = 1, fr_reason = ''x''\<rparr>, s')"
  using observe_always_reports [OF supervisor_new_ok(1) [of 0], of "Failed (trace_context_new 4 4 0) 1 ''x''"]
  by auto

end
