(* ===== verification/Limine_Proto.thy ===== *)
theory Limine_Proto
  imports Cell_Prelude
begin

text \<open>
  The part of the Limine boot protocol (\<open>limine.h\<close> of the vendored boot loader) that the kernel
  consumes: memory map entries and their types, the higher-half direct map response and the
  multiprocessor response. Pointers to structures are the structures themselves, a counted
  pointer array is a list. The \<open>limine\<close> crate, which is not in the repository, hands the kernel
  these same structures.
\<close>

section \<open>Memory map\<close>

definition LIMINE_MEMMAP_USABLE :: u64 where "LIMINE_MEMMAP_USABLE = 0"
definition LIMINE_MEMMAP_RESERVED :: u64 where "LIMINE_MEMMAP_RESERVED = 1"
definition LIMINE_MEMMAP_ACPI_RECLAIMABLE :: u64 where "LIMINE_MEMMAP_ACPI_RECLAIMABLE = 2"
definition LIMINE_MEMMAP_ACPI_NVS :: u64 where "LIMINE_MEMMAP_ACPI_NVS = 3"
definition LIMINE_MEMMAP_BAD_MEMORY :: u64 where "LIMINE_MEMMAP_BAD_MEMORY = 4"
definition LIMINE_MEMMAP_BOOTLOADER_RECLAIMABLE :: u64 where
  "LIMINE_MEMMAP_BOOTLOADER_RECLAIMABLE = 5"
definition LIMINE_MEMMAP_KERNEL_AND_MODULES :: u64 where "LIMINE_MEMMAP_KERNEL_AND_MODULES = 6"
definition LIMINE_MEMMAP_FRAMEBUFFER :: u64 where "LIMINE_MEMMAP_FRAMEBUFFER = 7"

record limine_memmap_entry =
  me_base :: u64
  me_length :: u64
  me_type :: u64

record limine_memmap_response =
  mr_revision :: u64
  mr_entries :: "limine_memmap_entry list"

section \<open>Higher-half direct map\<close>

record limine_hhdm_response =
  hr_revision :: u64
  hr_offset :: u64

section \<open>Processors (x86-64 layout)\<close>

record limine_smp_info =
  si_processor_id :: u32
  si_lapic_id :: u32
  si_reserved :: u64
  si_goto_address :: u64
  si_extra_argument :: u64

record limine_smp_response =
  sr_revision :: u64
  sr_flags :: u32
  sr_bsp_lapic_id :: u32
  sr_cpus :: "limine_smp_info list"

end
