(* ===== verification/Cell_Pmm.thy ===== *)
theory Cell_Pmm
  imports Limine_Proto
begin

text \<open>
  The physical memory manager of the kernel (\<open>crates/cell-baremetal/src/pmm.rs\<close>): two bitmaps of
  one bit per 4 KiB frame below 4 GiB, built from the boot loader's memory map, with allocation
  of the lowest free frame and release. Counters and frame numbers are machine words; additions
  and subtractions panic on overflow as the debug profile makes them. \<open>frame_allocator\<close> is the
  interface that the kernel's boot code relies on.
\<close>

section \<open>Constants and state\<close>

definition FRAME_SIZE :: u64 where "FRAME_SIZE = 4096"

definition MAX_PHYSICAL_ADDRESS :: u64 where
  "MAX_PHYSICAL_ADDRESS = 4 * 1024 * 1024 * 1024"

definition MAX_FRAMES :: usize where "MAX_FRAMES = MAX_PHYSICAL_ADDRESS div FRAME_SIZE"

definition BITMAP_WORDS :: usize where "BITMAP_WORDS = MAX_FRAMES div 64"

record physical_frame =
  pf_number :: usize

definition from_address :: "usize \<Rightarrow> physical_frame" where
  "from_address a = \<lparr>pf_number = a div FRAME_SIZE\<rparr>"

definition frame_address :: "physical_frame \<Rightarrow> u64 res" where
  "frame_address f =
     (case checked_mul (pf_number f) FRAME_SIZE of None \<Rightarrow> Inl ArithmeticOverflow | Some a \<Rightarrow> Inr a)"

record pmm_stats =
  st_usable_frames :: usize
  st_free_frames :: usize
  st_max_frame :: usize

record bitmap_pmm =
  pm_usable :: "u64 list"
  pm_allocated :: "u64 list"
  pm_usable_frames :: usize
  pm_free_frames :: usize
  pm_max_frame :: usize

definition bitmap_pmm_new :: bitmap_pmm where
  "bitmap_pmm_new = \<lparr>pm_usable = replicate (unat BITMAP_WORDS) 0,
     pm_allocated = replicate (unat BITMAP_WORDS) (- 1),
     pm_usable_frames = 0, pm_free_frames = 0, pm_max_frame = 0\<rparr>"

section \<open>Operations\<close>

definition incr :: "usize \<Rightarrow> usize res" where
  "incr w = (case checked_add w 1 of None \<Rightarrow> Inl ArithmeticOverflow | Some v \<Rightarrow> Inr v)"

definition decr :: "usize \<Rightarrow> usize res" where
  "decr w = (if w = 0 then Inl ArithmeticOverflow else Inr (w - 1))"

definition is_usable :: "bitmap_pmm \<Rightarrow> usize \<Rightarrow> bool res" where
  "is_usable p frame =
     (if \<not> frame < MAX_FRAMES then Inr False
      else res_bind (idx (pm_usable p) (unat (frame div 64))) (\<lambda>w.
        Inr (w AND push_bit (unat (frame mod 64)) 1 \<noteq> 0)))"

definition is_allocated :: "bitmap_pmm \<Rightarrow> usize \<Rightarrow> bool res" where
  "is_allocated p frame =
     res_bind (idx (pm_allocated p) (unat (frame div 64))) (\<lambda>w.
       Inr (w AND push_bit (unat (frame mod 64)) 1 \<noteq> 0))"

definition mark_usable :: "bitmap_pmm \<Rightarrow> usize \<Rightarrow> bitmap_pmm res" where
  "mark_usable p frame =
     (if frame \<ge> MAX_FRAMES then Inr p
      else res_bind (is_usable p frame) (\<lambda>already.
        if already then Inr p
        else let i = unat (frame div 64); b = push_bit (unat (frame mod 64)) 1 in
          res_bind (idx (pm_usable p) i) (\<lambda>u.
          res_bind (upd (pm_usable p) i (u OR b)) (\<lambda>us.
          res_bind (idx (pm_allocated p) i) (\<lambda>a.
          res_bind (upd (pm_allocated p) i (a AND NOT b)) (\<lambda>as.
          res_bind (incr (pm_usable_frames p)) (\<lambda>uf.
          res_bind (incr (pm_free_frames p)) (\<lambda>ff.
          res_bind (incr frame) (\<lambda>next_frame.
            Inr \<lparr>pm_usable = us, pm_allocated = as, pm_usable_frames = uf, pm_free_frames = ff,
                 pm_max_frame = max (pm_max_frame p) next_frame\<rparr>)))))))))"

fun mark_frames :: "bitmap_pmm \<Rightarrow> usize list \<Rightarrow> bitmap_pmm res" where
  "mark_frames p [] = Inr p"
| "mark_frames p (f # fs) = res_bind (mark_usable p f) (\<lambda>p'. mark_frames p' fs)"

text \<open>
  One round of the loop over the memory map: the region is shrunk to whole frames, and skipped
  when it is not usable, wraps around, or holds no frame below the limit.
\<close>

definition entry_frames :: "limine_memmap_entry \<Rightarrow> usize list" where
  "entry_frames entry =
     (if me_type entry \<noteq> LIMINE_MEMMAP_USABLE then []
      else case checked_add (me_base entry) (FRAME_SIZE - 1) of
        None \<Rightarrow> []
      | Some start \<Rightarrow>
          (let start = start AND NOT (FRAME_SIZE - 1) in
           case checked_add (me_base entry) (me_length entry) of
             None \<Rightarrow> []
           | Some stop \<Rightarrow>
               (let stop = min stop MAX_PHYSICAL_ADDRESS in
                if start \<ge> stop then []
                else let first_frame = start div FRAME_SIZE; last_frame = stop div FRAME_SIZE
                  in map of_nat [unat first_frame..<unat last_frame])))"

fun mark_entries :: "bitmap_pmm \<Rightarrow> limine_memmap_entry list \<Rightarrow> bitmap_pmm res" where
  "mark_entries p [] = Inr p"
| "mark_entries p (e # es) = res_bind (mark_frames p (entry_frames e)) (\<lambda>p'. mark_entries p' es)"

text \<open>\<open>initialize\<close> resets every field before the loop, whatever the state was.\<close>

definition pmm_initialize ::
    "bitmap_pmm \<Rightarrow> limine_memmap_entry list \<Rightarrow> (pmm_stats \<times> bitmap_pmm) res" where
  "pmm_initialize p entries =
     res_bind (mark_entries (p\<lparr>pm_usable := replicate (unat BITMAP_WORDS) 0,
        pm_allocated := replicate (unat BITMAP_WORDS) (- 1),
        pm_usable_frames := 0, pm_free_frames := 0, pm_max_frame := 0\<rparr>) entries) (\<lambda>p'.
       Inr (\<lparr>st_usable_frames = pm_usable_frames p', st_free_frames = pm_free_frames p',
             st_max_frame = pm_max_frame p'\<rparr>, p'))"

definition trailing_zeros :: "u64 \<Rightarrow> nat" where
  "trailing_zeros w = length (takeWhile (\<lambda>n. \<not> bit w n) [0..<64])"

text \<open>The loop \<open>for word_index in 0..BITMAP_WORDS\<close> of \<open>allocate\<close>, over the indices left.\<close>

fun allocate_from :: "bitmap_pmm \<Rightarrow> nat list \<Rightarrow> (physical_frame option \<times> bitmap_pmm) res" where
  "allocate_from p [] = Inr (None, p)"
| "allocate_from p (word_index # is) =
     res_bind (idx (pm_usable p) word_index) (\<lambda>u.
     res_bind (idx (pm_allocated p) word_index) (\<lambda>a.
       let available = u AND NOT a in
       if available = 0 then allocate_from p is
       else let b = trailing_zeros available; frame = of_nat (word_index * 64 + b) in
         res_bind (upd (pm_allocated p) word_index (a OR push_bit b 1)) (\<lambda>as.
         res_bind (decr (pm_free_frames p)) (\<lambda>ff.
           Inr (Some \<lparr>pf_number = frame\<rparr>, p\<lparr>pm_allocated := as, pm_free_frames := ff\<rparr>)))))"

definition pmm_allocate :: "bitmap_pmm \<Rightarrow> (physical_frame option \<times> bitmap_pmm) res" where
  "pmm_allocate p = allocate_from p [0..<unat BITMAP_WORDS]"

definition pmm_free :: "bitmap_pmm \<Rightarrow> physical_frame \<Rightarrow> (bool \<times> bitmap_pmm) res" where
  "pmm_free p frame =
     (let number = pf_number frame in
      res_bind (is_usable p number) (\<lambda>usable.
        if \<not> usable then Inr (False, p)
        else res_bind (is_allocated p number) (\<lambda>allocated.
          if \<not> allocated then Inr (False, p)
          else let i = unat (number div 64) in
            res_bind (idx (pm_allocated p) i) (\<lambda>a.
            res_bind (upd (pm_allocated p) i (a AND NOT (push_bit (unat (number mod 64)) 1))) (\<lambda>as.
            res_bind (incr (pm_free_frames p)) (\<lambda>ff.
              Inr (True, p\<lparr>pm_allocated := as, pm_free_frames := ff\<rparr>)))))))"

section \<open>Bitmaps as sets of frame numbers\<close>

abbreviation n_frames :: nat where "n_frames \<equiv> 1048576"
abbreviation n_words :: nat where "n_words \<equiv> 16384"

lemma pmm_consts [simp]:
  "unat MAX_FRAMES = n_frames" "unat BITMAP_WORDS = n_words" "unat FRAME_SIZE = 4096"
  by (simp_all add: MAX_FRAMES_def BITMAP_WORDS_def MAX_PHYSICAL_ADDRESS_def FRAME_SIZE_def)

definition bm_bit :: "u64 list \<Rightarrow> nat \<Rightarrow> bool" where
  "bm_bit bm n = bit (bm ! (n div 64)) (n mod 64)"

lemma div_mod_64_eq: "m = n \<longleftrightarrow> m div 64 = n div 64 \<and> m mod 64 = n mod (64 :: nat)"
  by (metis div_mult_mod_eq)

lemma test_bit_word: "(w AND 2 ^ k = 0) = (\<not> bit (w :: u64) k)"
  by (rule and_exp_eq_0_iff_not_bit)

lemma bm_bit_set:
  "n div 64 < length bm \<Longrightarrow>
   bm_bit (bm[n div 64 := bm ! (n div 64) OR 2 ^ (n mod 64)]) m = (m = n \<or> bm_bit bm m)"
  by (cases "m div 64 = n div 64")
     (auto simp: bm_bit_def bit_simps nth_list_update div_mod_64_eq [of m n])

lemma bm_bit_clear:
  "n div 64 < length bm \<Longrightarrow>
   bm_bit (bm[n div 64 := bm ! (n div 64) AND NOT (2 ^ (n mod 64))]) m = (m \<noteq> n \<and> bm_bit bm m)"
  by (cases "m div 64 = n div 64")
     (auto simp: bm_bit_def bit_simps nth_list_update div_mod_64_eq [of m n])

lemma bm_bit_replicate:
  "n < n_frames \<Longrightarrow> bm_bit (replicate n_words 0) n = False"
  "n < n_frames \<Longrightarrow> bm_bit (replicate n_words (- 1)) n = True"
  by (simp_all add: bm_bit_def less_mult_imp_div_less)

definition usable_set :: "bitmap_pmm \<Rightarrow> nat set" where
  "usable_set p = {n. n < n_frames \<and> bm_bit (pm_usable p) n}"

definition free_set :: "bitmap_pmm \<Rightarrow> nat set" where
  "free_set p = {n. n < n_frames \<and> bm_bit (pm_usable p) n \<and> \<not> bm_bit (pm_allocated p) n}"

definition pmm_ok :: "bitmap_pmm \<Rightarrow> bool" where
  "pmm_ok p \<longleftrightarrow> length (pm_usable p) = n_words \<and> length (pm_allocated p) = n_words \<and>
     unat (pm_usable_frames p) = card (usable_set p) \<and>
     unat (pm_free_frames p) = card (free_set p) \<and>
     unat (pm_max_frame p) = (if usable_set p = {} then 0 else Suc (Max (usable_set p))) \<and>
     (\<forall>n < n_frames. n \<notin> usable_set p \<longrightarrow> bm_bit (pm_allocated p) n)"

lemma finite_frames [simp]: "finite (usable_set p)" "finite (free_set p)"
  by (simp_all add: usable_set_def free_set_def)

lemma frame_sets_below:
  "usable_set p \<subseteq> {..<n_frames}" "free_set p \<subseteq> usable_set p"
  by (auto simp: usable_set_def free_set_def)

lemma card_frames: "card (usable_set p) \<le> n_frames" "card (free_set p) \<le> n_frames"
  using card_mono [OF _ frame_sets_below(1) [of p]]
    card_mono [OF _ frame_sets_below(2) [of p]] by (auto intro: order_trans)

lemma unat_max: "unat (max a b) = max (unat a) (unat (b :: usize))"
  by (simp add: max_def word_le_nat_alt)

lemma incr_small: "unat w < 2 ^ 63 \<Longrightarrow> incr w = Inr (w + 1) \<and> unat (w + 1) = Suc (unat w)"
  using unat_add_no_wrap [of w 1] by (simp add: incr_def checked_add_def)

lemma decr_pos: "0 < unat w \<Longrightarrow> decr w = Inr (w - 1) \<and> unat (w - 1) = unat w - 1"
  by (simp add: decr_def unat_gt_0 unat_minus_one)

lemma frame_index: "frame < MAX_FRAMES \<Longrightarrow> unat frame < n_frames \<and> unat frame div 64 < n_words"
  by (simp add: word_less_nat_alt less_mult_imp_div_less)

lemma is_usable_Inr:
  "length (pm_usable p) = n_words \<Longrightarrow> is_usable p frame = Inr (unat frame \<in> usable_set p)"
  using frame_index [of frame]
  by (auto simp: is_usable_def usable_set_def bm_bit_def test_bit_word unat_div unat_mod
      word_less_nat_alt)

lemma is_allocated_Inr:
  "length (pm_allocated p) = n_words \<Longrightarrow> unat frame < n_frames \<Longrightarrow>
   is_allocated p frame = Inr (bm_bit (pm_allocated p) (unat frame))"
  by (simp add: is_allocated_def bm_bit_def test_bit_word unat_div unat_mod less_mult_imp_div_less)

section \<open>Marking frames usable\<close>

lemma mark_usable_ok:
  assumes ok: "pmm_ok p" and all_free: "free_set p = usable_set p"
  shows "\<exists>p'. mark_usable p frame = Inr p' \<and> pmm_ok p' \<and> free_set p' = usable_set p' \<and>
    usable_set p' = usable_set p \<union> (if unat frame < n_frames then {unat frame} else {})"
proof (cases "unat frame < n_frames \<and> unat frame \<notin> usable_set p")
  case False
  with ok have "mark_usable p frame = Inr p"
    by (auto simp: mark_usable_def is_usable_Inr pmm_ok_def word_le_nat_alt)
  with False ok all_free show ?thesis by auto
next
  case True
  let ?n = "unat frame"
  from True have n: "?n < n_frames" and new: "?n \<notin> usable_set p" by auto
  then have fm: "\<not> frame \<ge> MAX_FRAMES" and i: "?n div 64 < n_words"
    by (simp_all add: word_le_nat_alt less_mult_imp_div_less)
  from ok have len: "length (pm_usable p) = n_words" "length (pm_allocated p) = n_words"
    by (simp_all add: pmm_ok_def)
  from ok card_frames [of p] have uf: "unat (pm_usable_frames p) < 2 ^ 63" and ff: "unat (pm_free_frames p) < 2 ^ 63"
    by (simp_all add: pmm_ok_def)
  let ?p' = "\<lparr>pm_usable = (pm_usable p)[?n div 64 := pm_usable p ! (?n div 64) OR 2 ^ (?n mod 64)],
    pm_allocated = (pm_allocated p)[?n div 64 := pm_allocated p ! (?n div 64) AND NOT (2 ^ (?n mod 64))],
    pm_usable_frames = pm_usable_frames p + 1, pm_free_frames = pm_free_frames p + 1,
    pm_max_frame = max (pm_max_frame p) (frame + 1)\<rparr>"
  have step: "mark_usable p frame = Inr ?p'"
    using fm new i len incr_small [OF uf] incr_small [OF ff] incr_small [of frame] n
    by (simp add: mark_usable_def is_usable_Inr Let_def unat_div unat_mod)
  have sets: "usable_set ?p' = insert ?n (usable_set p)" "free_set ?p' = insert ?n (free_set p)"
    using n i len by (auto simp: usable_set_def free_set_def bm_bit_set bm_bit_clear)
  have mx: "unat (max (pm_max_frame p) (frame + 1)) = Suc (Max (insert ?n (usable_set p)))"
  proof (cases "usable_set p = {}")
    case True
    with ok n incr_small [of frame] show ?thesis by (simp add: pmm_ok_def unat_max)
  next
    case False
    then have "Max (insert ?n (usable_set p)) = max ?n (Max (usable_set p))" by simp
    moreover from False ok have "unat (pm_max_frame p) = Suc (Max (usable_set p))"
      by (simp add: pmm_ok_def)
    ultimately show ?thesis using n incr_small [of frame] by (simp add: unat_max)
  qed
  have "pmm_ok ?p'"
    using ok n new sets mx i len all_free incr_small [OF uf] incr_small [OF ff]
    by (auto simp: pmm_ok_def bm_bit_clear)
  with step sets n all_free show ?thesis by auto
qed

lemma mark_frames_ok:
  "pmm_ok p \<Longrightarrow> free_set p = usable_set p \<Longrightarrow>
   \<exists>p'. mark_frames p fs = Inr p' \<and> pmm_ok p' \<and> free_set p' = usable_set p' \<and>
     usable_set p' = usable_set p \<union> (unat ` set fs \<inter> {..<n_frames})"
proof (induction fs arbitrary: p)
  case Nil
  then show ?case by simp
next
  case (Cons f fs)
  from mark_usable_ok [OF Cons.prems, of f] obtain p1 where p1: "mark_usable p f = Inr p1"
    "pmm_ok p1" "free_set p1 = usable_set p1"
    "usable_set p1 = usable_set p \<union> (if unat f < n_frames then {unat f} else {})" by blast
  with Cons.IH [OF p1(2,3)] show ?case by auto
qed

lemma mark_entries_ok:
  "pmm_ok p \<Longrightarrow> free_set p = usable_set p \<Longrightarrow>
   \<exists>p'. mark_entries p es = Inr p' \<and> pmm_ok p' \<and> free_set p' = usable_set p' \<and>
     usable_set p' = usable_set p \<union> (\<Union>e \<in> set es. unat ` set (entry_frames e) \<inter> {..<n_frames})"
proof (induction es arbitrary: p)
  case Nil
  then show ?case by simp
next
  case (Cons e es)
  from mark_frames_ok [OF Cons.prems, of "entry_frames e"] obtain p1 where p1:
    "mark_frames p (entry_frames e) = Inr p1" "pmm_ok p1" "free_set p1 = usable_set p1"
    "usable_set p1 = usable_set p \<union> (unat ` set (entry_frames e) \<inter> {..<n_frames})" by blast
  with Cons.IH [OF p1(2,3)] show ?case by auto
qed

section \<open>Which frames an entry contributes\<close>

definition covers_frame :: "limine_memmap_entry \<Rightarrow> nat \<Rightarrow> bool" where
  "covers_frame e n \<longleftrightarrow> me_type e = LIMINE_MEMMAP_USABLE \<and>
     unat (me_base e) + unat (me_length e) < 2 ^ 64 \<and>
     unat (me_base e) \<le> n * 4096 \<and> (n + 1) * 4096 \<le> unat (me_base e) + unat (me_length e)"

lemma align_down_div: "(x AND NOT (FRAME_SIZE - 1)) div FRAME_SIZE = x div FRAME_SIZE"
proof -
  have mask: "FRAME_SIZE - 1 = mask 12" by (simp add: FRAME_SIZE_def mask_eq_exp_minus_1)
  have "drop_bit 12 (x AND NOT (mask 12)) = drop_bit 12 x"
    by (rule bit_word_eqI) (auto simp: bit_simps dest: bit_imp_le_length)
  moreover have "w div FRAME_SIZE = drop_bit 12 w" for w :: u64
    by (simp add: drop_bit_eq_div FRAME_SIZE_def)
  ultimately show ?thesis by (simp only: mask)
qed

lemma range_image: "b < 2 ^ 64 \<Longrightarrow> unat ` set (map (of_nat :: nat \<Rightarrow> usize) [a..<b]) = {a..<b}"
proof -
  assume b: "b < 2 ^ 64"
  then have "unat ((of_nat :: nat \<Rightarrow> usize) k) = k" if "k \<in> {a..<b}" for k
    using that by (intro unat_of_nat_lt) simp
  then show ?thesis by (auto simp: image_image intro!: rev_image_eqI)
qed

lemma frame_range:
  "{(a + 4095) div 4096..<b div 4096} = {n. a \<le> n * 4096 \<and> (n + 1) * 4096 \<le> (b :: nat)}"
proof (rule set_eqI)
  fix n
  show "n \<in> {(a + 4095) div 4096..<b div 4096} \<longleftrightarrow> n \<in> {n. a \<le> n * 4096 \<and> (n + 1) * 4096 \<le> b}"
    using div_less_iff_less_mult [of 4096 "a + 4095" "n + 1"]
      less_eq_div_iff_mult_less_eq [of 4096 "n + 1" b]
    unfolding mem_Collect_eq atLeastLessThan_iff by (auto simp: less_eq_Suc_le)
qed

lemma entry_frames_cover:
  "unat ` set (entry_frames e) \<inter> {..<n_frames} = {n. n < n_frames \<and> covers_frame e n}"
proof (cases "me_type e = LIMINE_MEMMAP_USABLE \<and> unat (me_base e) + 4095 < 2 ^ 64 \<and>
    unat (me_base e) + unat (me_length e) < 2 ^ 64")
  case False
  then show ?thesis
    by (auto simp: entry_frames_def covers_frame_def checked_add_def FRAME_SIZE_def)
next
  case True
  let ?start = "(me_base e + 4095) AND NOT (FRAME_SIZE - 1)"
  let ?stop = "min (me_base e + me_length e) MAX_PHYSICAL_ADDRESS"
  have base: "unat (me_base e + 4095) = unat (me_base e) + 4095"
    using True unat_add_no_wrap [of "me_base e" 4095] by simp
  have first: "unat (?start div FRAME_SIZE) = (unat (me_base e) + 4095) div 4096"
    by (simp add: align_down_div unat_div base)
  have last: "unat ?stop = min (unat (me_base e) + unat (me_length e)) (2 ^ 32)"
    using True unat_add_no_wrap [of "me_base e" "me_length e"]
    by (simp add: min_def word_le_nat_alt MAX_PHYSICAL_ADDRESS_def)
  have "unat ` set (entry_frames e) = {unat (?start div FRAME_SIZE)..<unat (?stop div FRAME_SIZE)}"
  proof (cases "?start \<ge> ?stop")
    case le: True
    then have "unat ?stop div 4096 \<le> unat ?start div 4096"
      by (simp add: word_le_nat_alt div_le_mono)
    with le True show ?thesis
      by (simp add: entry_frames_def checked_add_def FRAME_SIZE_def unat_div)
  next
    case False
    with True show ?thesis
      using range_image [of "unat (?stop div FRAME_SIZE)" "unat (?start div FRAME_SIZE)"]
        unsigned_less [of "?stop div FRAME_SIZE", where 'a = nat]
      by (simp add: entry_frames_def checked_add_def FRAME_SIZE_def)
  qed
  also have "\<dots> = {n. unat (me_base e) \<le> n * 4096 \<and> (n + 1) * 4096 \<le> unat ?stop}"
    by (simp only: first unat_div [of ?stop] pmm_consts frame_range)
  finally show ?thesis
    using True by (auto simp: covers_frame_def last)
qed

section \<open>Allocation\<close>

lemma trailing_zeros_spec:
  assumes "w \<noteq> 0"
  shows "trailing_zeros w < 64 \<and> bit w (trailing_zeros w) \<and> (\<forall>k < trailing_zeros w. \<not> bit w k)"
proof -
  have "\<exists>k < 64. bit w k"
  proof (rule ccontr)
    assume "\<not> (\<exists>k < 64. bit w k)"
    then have "w = 0" by (intro bit_word_eqI) simp
    with assms show False ..
  qed
  then obtain k where k: "bit w k" "k < 64" by blast
  let ?P = "\<lambda>n. \<not> bit w n"
  have "\<exists>n \<in> set [0..<64]. \<not> ?P n" using k by auto
  then have lt: "trailing_zeros w < 64"
    using length_takeWhile_le [of ?P "[0..<64]"] takeWhile_eq_all_conv [of ?P "[0..<64]"]
      takeWhile_eq_take [of ?P "[0..<64]"]
    by (fastforce simp: trailing_zeros_def le_less)
  then have "\<not> ?P ([0..<64] ! trailing_zeros w)"
    using nth_length_takeWhile [of ?P "[0..<64]"] by (simp add: trailing_zeros_def)
  moreover have "\<forall>k < trailing_zeros w. \<not> bit w k"
  proof (intro allI impI)
    fix j assume j: "j < trailing_zeros w"
    then have "takeWhile ?P [0..<64] ! j \<in> set (takeWhile ?P [0..<64])"
      by (intro nth_mem) (simp add: trailing_zeros_def)
    then have "?P (takeWhile ?P [0..<64] ! j)" by (auto dest: set_takeWhileD)
    then show "\<not> bit w j"
      using j lt by (simp add: takeWhile_nth trailing_zeros_def)
  qed
  ultimately show ?thesis using lt by simp
qed

lemma available_bit:
  "k < 64 \<Longrightarrow> bit (pm_usable p ! i AND NOT (pm_allocated p ! i)) k \<longleftrightarrow>
     bm_bit (pm_usable p) (i * 64 + k) \<and> \<not> bm_bit (pm_allocated p) (i * 64 + k)"
  by (simp add: bm_bit_def bit_simps)

lemma take_frame_ok:
  assumes ok: "pmm_ok p" and n: "n \<in> free_set p"
  defines "p' \<equiv> p\<lparr>pm_allocated := (pm_allocated p)[n div 64 := pm_allocated p ! (n div 64) OR 2 ^ (n mod 64)],
    pm_free_frames := pm_free_frames p - 1\<rparr>"
  shows "pmm_ok p' \<and> usable_set p' = usable_set p \<and> free_set p' = free_set p - {n} \<and>
    decr (pm_free_frames p) = Inr (pm_free_frames p - 1)"
proof -
  from n have lt: "n < n_frames" by (simp add: free_set_def)
  with ok have i: "n div 64 < length (pm_allocated p)" by (simp add: pmm_ok_def less_mult_imp_div_less)
  have sets: "usable_set p' = usable_set p" "free_set p' = free_set p - {n}"
    using i by (auto simp: p'_def usable_set_def free_set_def bm_bit_set)
  have "0 < card (free_set p)" using n by (auto simp: card_gt_0_iff)
  with ok have pos: "0 < unat (pm_free_frames p)" by (simp add: pmm_ok_def)
  then show ?thesis
    using ok sets n i decr_pos [OF pos] by (auto simp: pmm_ok_def p'_def bm_bit_set)
qed

lemma allocate_from_ok:
  "pmm_ok p \<Longrightarrow> i \<le> n_words \<Longrightarrow> \<forall>n \<in> free_set p. i * 64 \<le> n \<Longrightarrow>
   (free_set p = {} \<and> allocate_from p [i..<n_words] = Inr (None, p)) \<or>
   (free_set p \<noteq> {} \<and> (\<exists>f p'. allocate_from p [i..<n_words] = Inr (Some f, p') \<and>
      unat (pf_number f) = Min (free_set p) \<and> pmm_ok p' \<and> usable_set p' = usable_set p \<and>
      free_set p' = free_set p - {Min (free_set p)}))"
proof (induction "n_words - i" arbitrary: i)
  case 0
  then have i: "i = n_words" by simp
  have "free_set p = {}"
    using 0 by (auto simp: free_set_def i dest!: bspec [of _ _ "_ :: nat"])
  then show ?case by (simp add: i)
next
  case (Suc d)
  then have i: "i < n_words" by simp
  then have upt: "[i..<n_words] = i # [Suc i..<n_words]" by (simp add: upt_conv_Cons)
  let ?av = "pm_usable p ! i AND NOT (pm_allocated p ! i)"
  have len: "i < length (pm_usable p)" "i < length (pm_allocated p)"
    using Suc.prems(1) i by (simp_all add: pmm_ok_def)
  have free_word: "bit ?av k \<longleftrightarrow> i * 64 + k \<in> free_set p" if "k < 64" for k
    using available_bit [OF that] i that by (auto simp: free_set_def)
  show ?case
  proof (cases "?av = 0")
    case True
    have "Suc i * 64 \<le> n" if "n \<in> free_set p" for n
    proof (rule ccontr)
      assume "\<not> Suc i * 64 \<le> n"
      with that Suc.prems(3) have "n = i * 64 + (n - i * 64)" "n - i * 64 < 64" by auto
      with that free_word [of "n - i * 64"] True show False by simp
    qed
    with Suc.hyps(1) [of "Suc i"] Suc.hyps(2) Suc.prems(1) i True len show ?thesis
      by (simp add: upt)
  next
    case False
    let ?b = "trailing_zeros ?av"
    let ?n = "i * 64 + ?b"
    note tz = trailing_zeros_spec [OF False]
    then have n: "?n \<in> free_set p" using free_word [of ?b] by simp
    have "?n \<le> m" if "m \<in> free_set p" for m
    proof (rule ccontr)
      assume "\<not> ?n \<le> m"
      with that Suc.prems(3) have m: "m = i * 64 + (m - i * 64)" "m - i * 64 < ?b" by auto
      with that free_word [of "m - i * 64"] tz show False by auto
    qed
    with n have min: "Min (free_set p) = ?n" by (intro Min_eqI) auto
    have "?n < n_frames" using n by (simp add: free_set_def)
    then have num: "unat (of_nat ?n :: usize) = ?n" by (intro unat_of_nat_lt) simp
    have idx: "?n div 64 = i" "?n mod 64 = ?b" using tz by auto
    note taken = take_frame_ok [OF Suc.prems(1) n, unfolded idx]
    have "allocate_from p [i..<n_words] = Inr (Some \<lparr>pf_number = of_nat ?n\<rparr>,
        p\<lparr>pm_allocated := (pm_allocated p)[i := pm_allocated p ! i OR 2 ^ ?b],
          pm_free_frames := pm_free_frames p - 1\<rparr>)"
      using False len taken by (simp add: upt Let_def)
    with taken num min n show ?thesis by auto
  qed
qed

lemma allocate_ok:
  "pmm_ok p \<Longrightarrow> free_set p = {} \<Longrightarrow> pmm_allocate p = Inr (None, p)"
  "pmm_ok p \<Longrightarrow> free_set p \<noteq> {} \<Longrightarrow> \<exists>f p'. pmm_allocate p = Inr (Some f, p') \<and>
     unat (pf_number f) = Min (free_set p) \<and> pmm_ok p' \<and> usable_set p' = usable_set p \<and>
     free_set p' = free_set p - {Min (free_set p)}"
  using allocate_from_ok [of p 0] by (auto simp: pmm_allocate_def)

section \<open>Release\<close>

lemma free_refused:
  "pmm_ok p \<Longrightarrow> unat (pf_number f) \<notin> usable_set p - free_set p \<Longrightarrow> pmm_free p f = Inr (False, p)"
  by (auto simp: pmm_free_def Let_def is_usable_Inr is_allocated_Inr pmm_ok_def usable_set_def free_set_def)

lemma free_ok:
  assumes ok: "pmm_ok p" and n: "unat (pf_number f) \<in> usable_set p - free_set p"
  shows "\<exists>p'. pmm_free p f = Inr (True, p') \<and> pmm_ok p' \<and> usable_set p' = usable_set p \<and>
    free_set p' = insert (unat (pf_number f)) (free_set p)"
proof -
  let ?n = "unat (pf_number f)"
  from n have lt: "?n < n_frames" by (simp add: usable_set_def)
  with ok have i: "?n div 64 < length (pm_allocated p)" by (simp add: pmm_ok_def less_mult_imp_div_less)
  from ok card_frames [of p] have ff: "unat (pm_free_frames p) < 2 ^ 63" by (simp add: pmm_ok_def)
  let ?p' = "p\<lparr>pm_allocated := (pm_allocated p)[?n div 64 := pm_allocated p ! (?n div 64) AND NOT (2 ^ (?n mod 64))],
    pm_free_frames := pm_free_frames p + 1\<rparr>"
  have alloc: "bm_bit (pm_allocated p) ?n" using n by (auto simp: usable_set_def free_set_def)
  have "pmm_free p f = Inr (True, ?p')"
    using ok n lt i alloc incr_small [OF ff]
    by (simp add: pmm_free_def Let_def is_usable_Inr is_allocated_Inr pmm_ok_def unat_div unat_mod)
  moreover have sets: "usable_set ?p' = usable_set p" "free_set ?p' = insert ?n (free_set p)"
    using i n by (auto simp: usable_set_def free_set_def bm_bit_clear)
  moreover have "pmm_ok ?p'"
    using ok sets n i incr_small [OF ff] by (auto simp: pmm_ok_def bm_bit_clear)
  ultimately show ?thesis by blast
qed

section \<open>Initialisation\<close>

lemma pmm_reset_ok:
  fixes p :: bitmap_pmm
  defines "p0 \<equiv> p\<lparr>pm_usable := replicate (unat BITMAP_WORDS) 0,
      pm_allocated := replicate (unat BITMAP_WORDS) (- 1),
      pm_usable_frames := 0, pm_free_frames := 0, pm_max_frame := 0\<rparr>"
  shows "pmm_ok p0 \<and> usable_set p0 = {} \<and> free_set p0 = {}"
proof -
  have "usable_set p0 = {}" "free_set p0 = {}"
    by (auto simp: p0_def usable_set_def free_set_def bm_bit_replicate)
  then show ?thesis by (simp add: pmm_ok_def p0_def bm_bit_replicate)
qed

lemma pmm_initialize_ok:
  "\<exists>p'. pmm_initialize p es = Inr (\<lparr>st_usable_frames = pm_usable_frames p',
       st_free_frames = pm_free_frames p', st_max_frame = pm_max_frame p'\<rparr>, p') \<and>
     pmm_ok p' \<and> free_set p' = usable_set p' \<and>
     usable_set p' = {n. n < n_frames \<and> (\<exists>e \<in> set es. covers_frame e n)}"
proof -
  note reset = pmm_reset_ok [of p]
  from mark_entries_ok [of _ es, OF conjunct1 [OF reset]] reset obtain p' where
    "mark_entries (p\<lparr>pm_usable := replicate (unat BITMAP_WORDS) 0,
      pm_allocated := replicate (unat BITMAP_WORDS) (- 1),
      pm_usable_frames := 0, pm_free_frames := 0, pm_max_frame := 0\<rparr>) es = Inr p'"
    "pmm_ok p'" "free_set p' = usable_set p'"
    "usable_set p' = (\<Union>e \<in> set es. unat ` set (entry_frames e) \<inter> {..<n_frames})"
    by auto
  then show ?thesis
    by (auto simp: pmm_initialize_def entry_frames_cover)
qed

section \<open>The interface of a frame allocator\<close>

fun alloc_many :: "('s \<Rightarrow> ('f option \<times> 's) res) \<Rightarrow> nat \<Rightarrow> 's \<Rightarrow> ('f list \<times> 's) res" where
  "alloc_many alloc 0 s = Inr ([], s)"
| "alloc_many alloc (Suc k) s =
     res_bind (alloc s) (\<lambda>(r, s').
       case r of None \<Rightarrow> Inr ([], s')
       | Some f \<Rightarrow> res_bind (alloc_many alloc k s') (\<lambda>(fs, s''). Inr (f # fs, s'')))"

locale frame_allocator =
  fixes ok :: "'s \<Rightarrow> bool"
    and usable :: "'s \<Rightarrow> nat set"
    and free :: "'s \<Rightarrow> nat set"
    and num :: "'f \<Rightarrow> nat"
    and alloc :: "'s \<Rightarrow> ('f option \<times> 's) res"
    and release :: "'s \<Rightarrow> 'f \<Rightarrow> (bool \<times> 's) res"
  assumes finite_free: "finite (free s)"
    and free_usable: "free s \<subseteq> usable s"
    and alloc_none: "ok s \<Longrightarrow> free s = {} \<Longrightarrow> alloc s = Inr (None, s)"
    and alloc_some: "ok s \<Longrightarrow> free s \<noteq> {} \<Longrightarrow> \<exists>f s'. alloc s = Inr (Some f, s') \<and>
      num f = Min (free s) \<and> ok s' \<and> usable s' = usable s \<and> free s' = free s - {Min (free s)}"
    and release_ok: "ok s \<Longrightarrow> num f \<in> usable s - free s \<Longrightarrow> \<exists>s'. release s f = Inr (True, s') \<and>
      ok s' \<and> usable s' = usable s \<and> free s' = insert (num f) (free s)"
    and release_refused: "ok s \<Longrightarrow> num f \<notin> usable s - free s \<Longrightarrow> release s f = Inr (False, s)"
begin

lemma alloc_release:
  assumes "ok s" "free s \<noteq> {}"
  shows "\<exists>f s1 s2. alloc s = Inr (Some f, s1) \<and> release s1 f = Inr (True, s2) \<and>
    ok s2 \<and> usable s2 = usable s \<and> free s2 = free s \<and> release s2 f = Inr (False, s2)"
proof -
  obtain f s1 where s1: "alloc s = Inr (Some f, s1)" "num f = Min (free s)" "ok s1"
    "usable s1 = usable s" "free s1 = free s - {Min (free s)}"
    using alloc_some [OF assms] by blast
  have min: "Min (free s) \<in> free s" using assms(2) finite_free by (rule Min_in [rotated])
  with s1 free_usable [of s] have "num f \<in> usable s1 - free s1" by auto
  from release_ok [OF s1(3) this] obtain s2 where s2: "release s1 f = Inr (True, s2)" "ok s2"
    "usable s2 = usable s1" "free s2 = insert (num f) (free s1)" by blast
  with s1 min have "free s2 = free s" by auto
  moreover with s1 min have "num f \<notin> usable s2 - free s2" by auto
  ultimately show ?thesis using s1 s2 release_refused [OF s2(2), of f] by auto
qed

lemma sorted_list_of_free:
  "free s \<noteq> {} \<Longrightarrow>
   sorted_list_of_set (free s) = Min (free s) # sorted_list_of_set (free s - {Min (free s)})"
  using finite_free by (rule sorted_list_of_set_nonempty)

lemma alloc_many_lowest:
  "ok s \<Longrightarrow> \<exists>fs s'. alloc_many alloc k s = Inr (fs, s') \<and> ok s' \<and> usable s' = usable s \<and>
     map num fs = take k (sorted_list_of_set (free s)) \<and> free s' = free s - num ` set fs"
proof (induction k arbitrary: s)
  case 0
  then show ?case by simp
next
  case (Suc k)
  show ?case
  proof (cases "free s = {}")
    case True
    with alloc_none [OF Suc.prems True] Suc.prems show ?thesis by simp
  next
    case False
    obtain f s1 where s1: "alloc s = Inr (Some f, s1)" "num f = Min (free s)" "ok s1"
      "usable s1 = usable s" "free s1 = free s - {Min (free s)}"
      using alloc_some [OF Suc.prems False] by blast
    from Suc.IH [OF s1(3)] obtain fs s2 where "alloc_many alloc k s1 = Inr (fs, s2)" "ok s2"
      "usable s2 = usable s1" "map num fs = take k (sorted_list_of_set (free s1))"
      "free s2 = free s1 - num ` set fs" by blast
    with s1 sorted_list_of_free [OF False] show ?thesis by auto
  qed
qed

end

interpretation pmm: frame_allocator pmm_ok usable_set free_set "\<lambda>f. unat (pf_number f)"
  pmm_allocate pmm_free
proof unfold_locales
  show "finite (free_set p)" for p by simp
  show "free_set p \<subseteq> usable_set p" for p by (rule frame_sets_below)
  fix p f
  assume ok: "pmm_ok p"
  show "pmm_allocate p = Inr (None, p)" if "free_set p = {}"
    using ok that by (rule allocate_ok)
  show "\<exists>f p'. pmm_allocate p = Inr (Some f, p') \<and> unat (pf_number f) = Min (free_set p) \<and> pmm_ok p' \<and>
      usable_set p' = usable_set p \<and> free_set p' = free_set p - {Min (free_set p)}" if "free_set p \<noteq> {}"
    using ok that by (rule allocate_ok)
  show "\<exists>p'. pmm_free p f = Inr (True, p') \<and> pmm_ok p' \<and> usable_set p' = usable_set p \<and>
      free_set p' = insert (unat (pf_number f)) (free_set p)"
    if "unat (pf_number f) \<in> usable_set p - free_set p"
    using ok that by (rule free_ok)
  show "pmm_free p f = Inr (False, p)" if "unat (pf_number f) \<notin> usable_set p - free_set p"
    using ok that by (rule free_refused)
qed

section \<open>Properties\<close>

text \<open>C18: \<open>initialize\<close> never panics, forgets the previous state, and makes usable and free exactly
  the frames below 4 GiB that lie completely inside some usable region of the memory map whose
  end does not wrap around; the statistics it returns are the cardinalities of these sets and
  one more than the highest usable frame.\<close>

theorem pmm_initialize_spec:
  "\<exists>st p'. pmm_initialize p es = Inr (st, p') \<and> pmm_ok p' \<and>
     usable_set p' = {n. n < 1048576 \<and> (\<exists>e \<in> set es. covers_frame e n)} \<and>
     free_set p' = usable_set p' \<and>
     unat (st_usable_frames st) = card (usable_set p') \<and>
     unat (st_free_frames st) = card (usable_set p') \<and>
     unat (st_max_frame st) = (if usable_set p' = {} then 0 else Suc (Max (usable_set p')))"
proof -
  obtain p' where p': "pmm_initialize p es = Inr (\<lparr>st_usable_frames = pm_usable_frames p',
      st_free_frames = pm_free_frames p', st_max_frame = pm_max_frame p'\<rparr>, p')"
    "pmm_ok p'" "free_set p' = usable_set p'"
    "usable_set p' = {n. n < n_frames \<and> (\<exists>e \<in> set es. covers_frame e n)}"
    using pmm_initialize_ok [of p es] by blast
  from p'(2) have "unat (pm_usable_frames p') = card (usable_set p')"
    "unat (pm_free_frames p') = card (free_set p')"
    "unat (pm_max_frame p') = (if usable_set p' = {} then 0 else Suc (Max (usable_set p')))"
    by (simp_all add: pmm_ok_def)
  with p' show ?thesis by (intro exI conjI) (assumption | simp)+
qed

text \<open>C19: Any number of allocations in a row hands out the lowest free frames in increasing order,
  each at most once, and leaves exactly the other frames free; when no frame is left the
  allocator answers \<open>None\<close>. No counter over- or underflows.\<close>

theorem pmm_allocates_lowest_free:
  assumes "pmm_ok p"
  shows "\<exists>fs p'. alloc_many pmm_allocate k p = Inr (fs, p') \<and> pmm_ok p' \<and>
    map (\<lambda>f. unat (pf_number f)) fs = take k (sorted_list_of_set (free_set p)) \<and>
    distinct (map (\<lambda>f. unat (pf_number f)) fs) \<and>
    free_set p' = free_set p - (\<lambda>f. unat (pf_number f)) ` set fs \<and>
    usable_set p' = usable_set p"
proof -
  obtain fs p' where p': "alloc_many pmm_allocate k p = Inr (fs, p')" "pmm_ok p'"
    "usable_set p' = usable_set p"
    "map (\<lambda>f. unat (pf_number f)) fs = take k (sorted_list_of_set (free_set p))"
    "free_set p' = free_set p - (\<lambda>f. unat (pf_number f)) ` set fs"
    using pmm.alloc_many_lowest [OF assms, of k] by blast
  have "distinct (take k (sorted_list_of_set (free_set p)))"
    by (intro distinct_take) simp
  with p' show ?thesis by auto
qed

lemma example_map_frames:
  "{n. n < 1048576 \<and> (\<exists>e \<in> set [\<lparr>me_base = 0x800, me_length = 0x2900, me_type = 0\<rparr>]. covers_frame e n)} = {1, 2}"
  by (auto simp: covers_frame_def LIMINE_MEMMAP_USABLE_def)

lemma example_pmm: "\<exists>p. pmm_ok p \<and> usable_set p = {1, 2} \<and> free_set p = {1, 2}"
  using pmm_initialize_ok [of bitmap_pmm_new "[\<lparr>me_base = 0x800, me_length = 0x2900, me_type = 0\<rparr>]"]
  unfolding example_map_frames by auto

theorem pmm_allocates_lowest_free_witness:
  "\<exists>p fs p'. alloc_many pmm_allocate 3 p = Inr (fs, p') \<and>
     map (\<lambda>f. unat (pf_number f)) fs = [1, 2] \<and> free_set p' = {}"
proof -
  obtain p where p: "pmm_ok p" "free_set p = {1, 2}" using example_pmm by blast
  obtain fs p' where "alloc_many pmm_allocate 3 p = Inr (fs, p')"
    "map (\<lambda>f. unat (pf_number f)) fs = take 3 (sorted_list_of_set (free_set p))"
    "free_set p' = free_set p - (\<lambda>f. unat (pf_number f)) ` set fs"
    using pmm_allocates_lowest_free [OF p(1), of 3] by blast
  moreover from this p have "map (\<lambda>f. unat (pf_number f)) fs = [1, 2]" by simp
  moreover from this have "(\<lambda>f. unat (pf_number f)) ` set fs = {1, 2}"
    by (metis list.set_map list.set(1,2))
  ultimately show ?thesis using p(2) by (intro exI conjI) (assumption | simp)+
qed

text \<open>C20: \<open>free\<close> releases a frame exactly when it is usable and allocated: then it becomes free and
  nothing else changes; a double free, a frame outside the map or a reserved frame is refused
  with the state untouched. No panic in either case.\<close>

theorem pmm_free_spec:
  assumes "pmm_ok p"
  shows "if unat (pf_number f) \<in> usable_set p - free_set p
    then \<exists>p'. pmm_free p f = Inr (True, p') \<and> pmm_ok p' \<and> usable_set p' = usable_set p \<and>
      free_set p' = insert (unat (pf_number f)) (free_set p)
    else pmm_free p f = Inr (False, p)"
  using pmm.release_ok [OF assms, of f] pmm.release_refused [OF assms, of f] by auto

theorem pmm_free_spec_witness:
  "\<exists>p. pmm_ok p \<and> pmm_free p (from_address 0x1000) = Inr (False, p)"
proof -
  obtain p where p: "pmm_ok p" "usable_set p = {1, 2}" "free_set p = {1, 2}" using example_pmm by blast
  with pmm_free_spec [OF p(1), of "from_address 0x1000"] show ?thesis by auto
qed

text \<open>
  The boot probe: on a machine with a free frame, allocating a frame and freeing it succeeds,
  returns the allocator to the same sets, and freeing it a second time is refused.\<close>

lemma pmm_probe_roundtrip:
  assumes "pmm_ok p" "free_set p \<noteq> {}"
  shows "\<exists>f p1 p2. pmm_allocate p = Inr (Some f, p1) \<and> pmm_free p1 f = Inr (True, p2) \<and>
    pmm_ok p2 \<and> usable_set p2 = usable_set p \<and> free_set p2 = free_set p \<and>
    pmm_free p2 f = Inr (False, p2)"
  using assms by (rule pmm.alloc_release)

lemma pmm_probe_roundtrip_witness:
  "\<exists>p f p1 p2. pmm_allocate p = Inr (Some f, p1) \<and> pmm_free p1 f = Inr (True, p2) \<and> free_set p2 = {1, 2}"
proof -
  obtain p where p: "pmm_ok p" "free_set p = {1, 2}" using example_pmm by blast
  with pmm_probe_roundtrip [OF p(1)] show ?thesis by auto
qed

text \<open>An address and its frame: the frame of every address has an address, computed without
  overflow, which is the given one rounded down to a multiple of the frame size.\<close>

lemma frame_of_address:
  "frame_address (from_address a) = Inr (a AND NOT (FRAME_SIZE - 1))"
proof -
  have "unat (a div FRAME_SIZE) * unat FRAME_SIZE \<le> unat a" by (simp add: unat_div)
  also have "\<dots> < 2 ^ 64" using unsigned_less [of a, where 'a = nat] by simp
  finally have "checked_mul (a div FRAME_SIZE) FRAME_SIZE = Some (a div FRAME_SIZE * FRAME_SIZE)"
    by (simp add: checked_mul_def)
  moreover have "a div FRAME_SIZE * FRAME_SIZE = push_bit 12 (drop_bit 12 a)"
    by (simp add: drop_bit_eq_div push_bit_eq_mult FRAME_SIZE_def)
  moreover have "push_bit 12 (drop_bit 12 a) = a AND NOT (mask 12)"
    by (rule bit_word_eqI) (auto simp: bit_simps)
  moreover have "mask 12 = FRAME_SIZE - 1" by (simp add: FRAME_SIZE_def mask_eq_exp_minus_1)
  ultimately show ?thesis by (simp only: frame_address_def from_address_def) simp
qed

end
