(* ===== verification/Limine_Util.thy ===== *)
theory Limine_Util
  imports Cell_Prelude
begin

text \<open>
  The pure helpers of the host tool that installs the boot loader (\<open>limine.c\<close>, vendored under
  \<open>.tools/limine\<close> and run by \<open>scripts/run_qemu.sh\<close>): the table-driven CRC-32, the byte swaps and
  the host byte order, CHS encoding of block addresses, the partition type table, and the on-disk
  layout of GPT structures. \<open>be\<close> is the host's byte order (the macro \<open>bigendian\<close>), a parameter of
  every operation that depends on it.
\<close>

section \<open>CRC-32\<close>

definition crc32_table :: "u32 list" where
  "crc32_table = [
     0x00000000, 0x77073096, 0xee0e612c, 0x990951ba, 0x076dc419, 0x706af48f,
     0xe963a535, 0x9e6495a3, 0x0edb8832, 0x79dcb8a4, 0xe0d5e91e, 0x97d2d988,
     0x09b64c2b, 0x7eb17cbd, 0xe7b82d07, 0x90bf1d91, 0x1db71064, 0x6ab020f2,
     0xf3b97148, 0x84be41de, 0x1adad47d, 0x6ddde4eb, 0xf4d4b551, 0x83d385c7,
     0x136c9856, 0x646ba8c0, 0xfd62f97a, 0x8a65c9ec, 0x14015c4f, 0x63066cd9,
     0xfa0f3d63, 0x8d080df5, 0x3b6e20c8, 0x4c69105e, 0xd56041e4, 0xa2677172,
     0x3c03e4d1, 0x4b04d447, 0xd20d85fd, 0xa50ab56b, 0x35b5a8fa, 0x42b2986c,
     0xdbbbc9d6, 0xacbcf940, 0x32d86ce3, 0x45df5c75, 0xdcd60dcf, 0xabd13d59,
     0x26d930ac, 0x51de003a, 0xc8d75180, 0xbfd06116, 0x21b4f4b5, 0x56b3c423,
     0xcfba9599, 0xb8bda50f, 0x2802b89e, 0x5f058808, 0xc60cd9b2, 0xb10be924,
     0x2f6f7c87, 0x58684c11, 0xc1611dab, 0xb6662d3d, 0x76dc4190, 0x01db7106,
     0x98d220bc, 0xefd5102a, 0x71b18589, 0x06b6b51f, 0x9fbfe4a5, 0xe8b8d433,
     0x7807c9a2, 0x0f00f934, 0x9609a88e, 0xe10e9818, 0x7f6a0dbb, 0x086d3d2d,
     0x91646c97, 0xe6635c01, 0x6b6b51f4, 0x1c6c6162, 0x856530d8, 0xf262004e,
     0x6c0695ed, 0x1b01a57b, 0x8208f4c1, 0xf50fc457, 0x65b0d9c6, 0x12b7e950,
     0x8bbeb8ea, 0xfcb9887c, 0x62dd1ddf, 0x15da2d49, 0x8cd37cf3, 0xfbd44c65,
     0x4db26158, 0x3ab551ce, 0xa3bc0074, 0xd4bb30e2, 0x4adfa541, 0x3dd895d7,
     0xa4d1c46d, 0xd3d6f4fb, 0x4369e96a, 0x346ed9fc, 0xad678846, 0xda60b8d0,
     0x44042d73, 0x33031de5, 0xaa0a4c5f, 0xdd0d7cc9, 0x5005713c, 0x270241aa,
     0xbe0b1010, 0xc90c2086, 0x5768b525, 0x206f85b3, 0xb966d409, 0xce61e49f,
     0x5edef90e, 0x29d9c998, 0xb0d09822, 0xc7d7a8b4, 0x59b33d17, 0x2eb40d81,
     0xb7bd5c3b, 0xc0ba6cad, 0xedb88320, 0x9abfb3b6, 0x03b6e20c, 0x74b1d29a,
     0xead54739, 0x9dd277af, 0x04db2615, 0x73dc1683, 0xe3630b12, 0x94643b84,
     0x0d6d6a3e, 0x7a6a5aa8, 0xe40ecf0b, 0x9309ff9d, 0x0a00ae27, 0x7d079eb1,
     0xf00f9344, 0x8708a3d2, 0x1e01f268, 0x6906c2fe, 0xf762575d, 0x806567cb,
     0x196c3671, 0x6e6b06e7, 0xfed41b76, 0x89d32be0, 0x10da7a5a, 0x67dd4acc,
     0xf9b9df6f, 0x8ebeeff9, 0x17b7be43, 0x60b08ed5, 0xd6d6a3e8, 0xa1d1937e,
     0x38d8c2c4, 0x4fdff252, 0xd1bb67f1, 0xa6bc5767, 0x3fb506dd, 0x48b2364b,
     0xd80d2bda, 0xaf0a1b4c, 0x36034af6, 0x41047a60, 0xdf60efc3, 0xa867df55,
     0x316e8eef, 0x4669be79, 0xcb61b38c, 0xbc66831a, 0x256fd2a0, 0x5268e236,
     0xcc0c7795, 0xbb0b4703, 0x220216b9, 0x5505262f, 0xc5ba3bbe, 0xb2bd0b28,
     0x2bb45a92, 0x5cb36a04, 0xc2d7ffa7, 0xb5d0cf31, 0x2cd99e8b, 0x5bdeae1d,
     0x9b64c2b0, 0xec63f226, 0x756aa39c, 0x026d930a, 0x9c0906a9, 0xeb0e363f,
     0x72076785, 0x05005713, 0x95bf4a82, 0xe2b87a14, 0x7bb12bae, 0x0cb61b38,
     0x92d28e9b, 0xe5d5be0d, 0x7cdcefb7, 0x0bdbdf21, 0x86d3d2d4, 0xf1d4e242,
     0x68ddb3f8, 0x1fda836e, 0x81be16cd, 0xf6b9265b, 0x6fb077e1, 0x18b74777,
     0x88085ae6, 0xff0f6a70, 0x66063bca, 0x11010b5c, 0x8f659eff, 0xf862ae69,
     0x616bffd3, 0x166ccf45, 0xa00ae278, 0xd70dd2ee, 0x4e048354, 0x3903b3c2,
     0xa7672661, 0xd06016f7, 0x4969474d, 0x3e6e77db, 0xaed16a4a, 0xd9d65adc,
     0x40df0b66, 0x37d83bf0, 0xa9bcae53, 0xdebb9ec5, 0x47b2cf7f, 0x30b5ffe9,
     0xbdbdf21c, 0xcabac28a, 0x53b39330, 0x24b4a3a6, 0xbad03605, 0xcdd70693,
     0x54de5729, 0x23d967bf, 0xb3667a2e, 0xc4614ab8, 0x5d681b02, 0x2a6f2b94,
     0xb40bbe37, 0xc30c8ea1, 0x5a05df1b, 0x2d02ef8d]"

definition crc32 :: "u8 list \<Rightarrow> u32" where
  "crc32 stream =
     foldl (\<lambda>ret byte. drop_bit 8 ret XOR crc32_table ! unat ((ret XOR ucast byte) AND 0xff))
       0xffffffff stream XOR 0xffffffff"

text \<open>The reference: one bit of the reflected polynomial \<open>0xedb88320\<close> at a time.\<close>

definition crc_shift :: "u32 \<Rightarrow> u32" where
  "crc_shift w = (if bit w 0 then drop_bit 1 w XOR 0xedb88320 else drop_bit 1 w)"

definition crc32_bitwise :: "u8 list \<Rightarrow> u32" where
  "crc32_bitwise stream = foldl (\<lambda>ret byte. (crc_shift ^^ 8) (ret XOR ucast byte)) 0xffffffff stream XOR 0xffffffff"

lemma crc_shift_xor: "crc_shift (x XOR y) = crc_shift x XOR crc_shift y"
  by (auto simp: crc_shift_def bit_simps intro!: bit_word_eqI)

lemma crc_shifts_xor: "(crc_shift ^^ n) (x XOR y) = (crc_shift ^^ n) x XOR (crc_shift ^^ n) y"
  by (induction n) (simp_all add: crc_shift_xor)

lemma crc_shifts_high:
  "(\<And>k. k < n \<Longrightarrow> \<not> bit w k) \<Longrightarrow> (crc_shift ^^ n) w = drop_bit n w"
proof (induction n arbitrary: w)
  case 0
  then show ?case by simp
next
  case (Suc n)
  from Suc.prems [of 0] have "crc_shift w = drop_bit 1 w" by (simp add: crc_shift_def)
  moreover have "(crc_shift ^^ n) (drop_bit 1 w) = drop_bit n (drop_bit 1 w)"
    using Suc.prems by (intro Suc.IH) (simp add: bit_simps)
  ultimately show ?case by (simp add: funpow_swap1)
qed

text \<open>
  The 256 table entries are the byte-wise shifts. By linearity it is enough to compute the 16
  entries of each half byte and to combine them.
\<close>

lemma crc_shifts_8: "(crc_shift ^^ 8) w =
    crc_shift (crc_shift (crc_shift (crc_shift (crc_shift (crc_shift (crc_shift (crc_shift w)))))))"
  by (simp add: numeral_eq_Suc)

lemma upt_16: "[0..<16] = [0, 1, 2, 3, 4, 5, 6, 7, 8, 9, 10, 11, 12, 13, 14, 15 :: nat]"
  by (simp add: upt_rec)

lemma crc_low_half:
  "map (\<lambda>i. (crc_shift ^^ 8) (of_nat i)) [0..<16] = [
     0x00000000, 0x77073096, 0xee0e612c, 0x990951ba, 0x076dc419, 0x706af48f,
     0xe963a535, 0x9e6495a3, 0x0edb8832, 0x79dcb8a4, 0xe0d5e91e, 0x97d2d988,
     0x09b64c2b, 0x7eb17cbd, 0xe7b82d07, 0x90bf1d91]"
  unfolding upt_16 list.map by (simp add: crc_shifts_8 crc_shift_def)

lemma crc_high_half:
  "map (\<lambda>i. (crc_shift ^^ 8) (of_nat (16 * i))) [0..<16] = [
     0x00000000, 0x1db71064, 0x3b6e20c8, 0x26d930ac, 0x76dc4190, 0x6b6b51f4,
     0x4db26158, 0x5005713c, 0xedb88320, 0xf00f9344, 0xd6d6a3e8, 0xcb61b38c,
     0x9b64c2b0, 0x86d3d2d4, 0xa00ae278, 0xbdbdf21c]"
  unfolding upt_16 list.map by (simp add: crc_shifts_8 crc_shift_def)

lemma crc_table_product:
  "concat (map (\<lambda>h. map (\<lambda>l. h XOR l) (map (\<lambda>i. (crc_shift ^^ 8) (of_nat i)) [0..<16]))
     (map (\<lambda>i. (crc_shift ^^ 8) (of_nat (16 * i))) [0..<16])) = crc32_table"
  unfolding crc_low_half crc_high_half by (simp add: crc32_table_def)

lemma nth_concat_uniform:
  "\<forall>xs \<in> set xss. length xs = k \<Longrightarrow> n < k * length xss \<Longrightarrow>
   concat xss ! n = xss ! (n div k) ! (n mod k)"
proof (induction xss arbitrary: n)
  case Nil
  then show ?case by simp
next
  case (Cons xs xss)
  then have k: "length xs = k" "0 < k" by (auto intro: Nat.gr0I)
  show ?case
  proof (cases "n < k")
    case True
    with k show ?thesis by (simp add: nth_append)
  next
    case False
    with Cons k have "concat xss ! (n - k) = xss ! ((n - k) div k) ! ((n - k) mod k)" by auto
    with False k show ?thesis by (simp add: nth_append le_div_geq le_mod_geq)
  qed
qed

lemma nibbles: "(of_nat n :: u32) = of_nat (16 * (n div 16)) XOR of_nat (n mod 16)"
proof -
  have "n div 16 = drop_bit 4 n" "n mod 16 = take_bit 4 n" "16 * m = push_bit 4 m" for m :: nat
    by (simp_all add: drop_bit_eq_div take_bit_eq_mod push_bit_eq_mult)
  then show ?thesis
    by (auto simp: bit_simps intro!: bit_word_eqI)
qed

lemma crc32_table_nth:
  assumes "n < 256"
  shows "crc32_table ! n = (crc_shift ^^ 8) (of_nat n)"
proof -
  have "crc32_table ! n = (crc_shift ^^ 8) (of_nat (16 * (n div 16))) XOR (crc_shift ^^ 8) (of_nat (n mod 16))"
    using assms
    by (subst crc_table_product [symmetric], subst nth_concat_uniform [where k = 16])
       (simp_all add: less_mult_imp_div_less del: of_nat_mult)
  also have "\<dots> = (crc_shift ^^ 8) (of_nat n)"
    by (simp only: crc_shifts_xor [symmetric] nibbles [symmetric])
  finally show ?thesis .
qed

lemma crc_table_step:
  "drop_bit 8 ret XOR crc32_table ! unat ((ret XOR ucast byte) AND 0xff) =
   (crc_shift ^^ 8) (ret XOR ucast (byte :: u8))"
proof -
  let ?x = "ret XOR ucast byte" and ?m = "mask 8 :: u32"
  have ff: "(0xff :: u32) = ?m" by (simp add: mask_eq_exp_minus_1)
  have lt: "unat (?x AND ?m) < 256"
    by (simp add: take_bit_eq_mask [symmetric] unsigned_take_bit_eq take_bit_eq_mod unat_mod)
  have split: "?x = (?x AND NOT ?m) XOR (?x AND ?m)"
    by (auto simp: bit_simps intro!: bit_word_eqI)
  have "(crc_shift ^^ 8) (?x AND NOT ?m) = drop_bit 8 (?x AND NOT ?m)"
    by (rule crc_shifts_high) (simp add: bit_simps)
  also have "\<dots> = drop_bit 8 ret"
    by (intro bit_word_eqI, auto simp: bit_simps) (auto dest!: bit_imp_le_length)
  finally have high: "(crc_shift ^^ 8) (?x AND NOT ?m) = drop_bit 8 ret" .
  have low: "crc32_table ! unat (?x AND ?m) = (crc_shift ^^ 8) (?x AND ?m)"
    using crc32_table_nth [OF lt] by simp
  have "(crc_shift ^^ 8) ?x = (crc_shift ^^ 8) (?x AND NOT ?m) XOR (crc_shift ^^ 8) (?x AND ?m)"
    by (subst (1) split) (rule crc_shifts_xor)
  then show ?thesis by (simp only: ff high low)
qed

section \<open>Byte order\<close>

definition endswap16 :: "u16 \<Rightarrow> u16" where
  "endswap16 value =
     (let ret = 0;
          ret = ret OR (drop_bit 8 value AND 0x00ff);
          ret = ret OR (push_bit 8 value AND 0xff00)
      in ret)"

definition endswap32 :: "u32 \<Rightarrow> u32" where
  "endswap32 value =
     (let ret = 0;
          ret = ret OR (drop_bit 24 value AND 0x000000ff);
          ret = ret OR (drop_bit 8 value AND 0x0000ff00);
          ret = ret OR (push_bit 8 value AND 0x00ff0000);
          ret = ret OR (push_bit 24 value AND 0xff000000)
      in ret)"

definition endswap64 :: "u64 \<Rightarrow> u64" where
  "endswap64 value =
     (let ret = 0;
          ret = ret OR (drop_bit 56 value AND 0x00000000000000ff);
          ret = ret OR (drop_bit 40 value AND 0x000000000000ff00);
          ret = ret OR (drop_bit 24 value AND 0x0000000000ff0000);
          ret = ret OR (drop_bit 8 value AND 0x00000000ff000000);
          ret = ret OR (push_bit 8 value AND 0x000000ff00000000);
          ret = ret OR (push_bit 24 value AND 0x0000ff0000000000);
          ret = ret OR (push_bit 40 value AND 0x00ff000000000000);
          ret = ret OR (push_bit 56 value AND 0xff00000000000000)
      in ret)"

text \<open>The macro \<open>ENDSWAP\<close> picks the swap by the size of its operand.\<close>

definition ENDSWAP16 :: "bool \<Rightarrow> u16 \<Rightarrow> u16" where
  "ENDSWAP16 be value = (if be then endswap16 value else value)"

definition ENDSWAP32 :: "bool \<Rightarrow> u32 \<Rightarrow> u32" where
  "ENDSWAP32 be value = (if be then endswap32 value else value)"

definition ENDSWAP64 :: "bool \<Rightarrow> u64 \<Rightarrow> u64" where
  "ENDSWAP64 be value = (if be then endswap64 value else value)"

text \<open>A mask of one byte selects that byte: the swaps as a sum of moved bytes.\<close>

definition byte_of :: "'a::len word \<Rightarrow> nat \<Rightarrow> u8" where
  "byte_of w i = ucast (drop_bit (8 * i) w)"

lemma le_bytes_byte_of: "le_bytes k (unat w) = map (byte_of w) [0..<k]"
proof -
  have *: "le_bytes k (unat w div 256 ^ i) = map (byte_of w) [i..<i + k]" for i
  proof (induction k arbitrary: i)
    case 0
    then show ?case by simp
  next
    case (Suc k)
    have "unat (byte_of w i) = drop_bit (8 * i) (unat w) mod 256"
      by (simp add: byte_of_def unsigned_ucast_eq take_bit_eq_mod unsigned_drop_bit_eq
          del: drop_bit_eq_div)
    then have "(of_nat (unat w div 256 ^ i) :: u8) = byte_of w i"
      by (intro word_unat_eq_iff [THEN iffD2]) (simp add: unat_of_nat_u8 pow_256 drop_bit_eq_div)
    moreover have "unat w div 256 ^ i div 256 = unat w div 256 ^ Suc i"
      by (simp add: div_mult2_eq [symmetric] mult.commute)
    ultimately show ?case
      using Suc [of "Suc i"] by (simp add: upt_conv_Cons del: upt_Suc)
  qed
  from * [of 0] show ?thesis by simp
qed

lemma byte_masks_16:
  "bit (0xff :: u16) m \<longleftrightarrow>  m < 8"
  "bit (0xff00 :: u16) m \<longleftrightarrow> 8 \<le> m \<and> m < 16"
proof -
  have *: "bit (push_bit k (mask 8) :: u16) m \<longleftrightarrow> k \<le> m \<and> m < k + 8" if "k + 8 \<le> 16" for k
    using that by (auto simp: bit_simps)
  show "bit (0xff :: u16) m \<longleftrightarrow>  m < 8"
    using * [of 0] by (simp add: mask_eq_exp_minus_1 push_bit_eq_mult)
  show "bit (0xff00 :: u16) m \<longleftrightarrow> 8 \<le> m \<and> m < 16"
    using * [of 8] by (simp add: mask_eq_exp_minus_1 push_bit_eq_mult)
qed

lemma byte_masks_32:
  "bit (0xff :: u32) m \<longleftrightarrow>  m < 8"
  "bit (0xff00 :: u32) m \<longleftrightarrow> 8 \<le> m \<and> m < 16"
  "bit (0xff0000 :: u32) m \<longleftrightarrow> 16 \<le> m \<and> m < 24"
  "bit (0xff000000 :: u32) m \<longleftrightarrow> 24 \<le> m \<and> m < 32"
proof -
  have *: "bit (push_bit k (mask 8) :: u32) m \<longleftrightarrow> k \<le> m \<and> m < k + 8" if "k + 8 \<le> 32" for k
    using that by (auto simp: bit_simps)
  show "bit (0xff :: u32) m \<longleftrightarrow>  m < 8"
    using * [of 0] by (simp add: mask_eq_exp_minus_1 push_bit_eq_mult)
  show "bit (0xff00 :: u32) m \<longleftrightarrow> 8 \<le> m \<and> m < 16"
    using * [of 8] by (simp add: mask_eq_exp_minus_1 push_bit_eq_mult)
  show "bit (0xff0000 :: u32) m \<longleftrightarrow> 16 \<le> m \<and> m < 24"
    using * [of 16] by (simp add: mask_eq_exp_minus_1 push_bit_eq_mult)
  show "bit (0xff000000 :: u32) m \<longleftrightarrow> 24 \<le> m \<and> m < 32"
    using * [of 24] by (simp add: mask_eq_exp_minus_1 push_bit_eq_mult)
qed

lemma byte_masks_64:
  "bit (0xff :: u64) m \<longleftrightarrow>  m < 8"
  "bit (0xff00 :: u64) m \<longleftrightarrow> 8 \<le> m \<and> m < 16"
  "bit (0xff0000 :: u64) m \<longleftrightarrow> 16 \<le> m \<and> m < 24"
  "bit (0xff000000 :: u64) m \<longleftrightarrow> 24 \<le> m \<and> m < 32"
  "bit (0xff00000000 :: u64) m \<longleftrightarrow> 32 \<le> m \<and> m < 40"
  "bit (0xff0000000000 :: u64) m \<longleftrightarrow> 40 \<le> m \<and> m < 48"
  "bit (0xff000000000000 :: u64) m \<longleftrightarrow> 48 \<le> m \<and> m < 56"
  "bit (0xff00000000000000 :: u64) m \<longleftrightarrow> 56 \<le> m \<and> m < 64"
proof -
  have *: "bit (push_bit k (mask 8) :: u64) m \<longleftrightarrow> k \<le> m \<and> m < k + 8" if "k + 8 \<le> 64" for k
    using that by (auto simp: bit_simps)
  show "bit (0xff :: u64) m \<longleftrightarrow>  m < 8"
    using * [of 0] by (simp add: mask_eq_exp_minus_1 push_bit_eq_mult)
  show "bit (0xff00 :: u64) m \<longleftrightarrow> 8 \<le> m \<and> m < 16"
    using * [of 8] by (simp add: mask_eq_exp_minus_1 push_bit_eq_mult)
  show "bit (0xff0000 :: u64) m \<longleftrightarrow> 16 \<le> m \<and> m < 24"
    using * [of 16] by (simp add: mask_eq_exp_minus_1 push_bit_eq_mult)
  show "bit (0xff000000 :: u64) m \<longleftrightarrow> 24 \<le> m \<and> m < 32"
    using * [of 24] by (simp add: mask_eq_exp_minus_1 push_bit_eq_mult)
  show "bit (0xff00000000 :: u64) m \<longleftrightarrow> 32 \<le> m \<and> m < 40"
    using * [of 32] by (simp add: mask_eq_exp_minus_1 push_bit_eq_mult)
  show "bit (0xff0000000000 :: u64) m \<longleftrightarrow> 40 \<le> m \<and> m < 48"
    using * [of 40] by (simp add: mask_eq_exp_minus_1 push_bit_eq_mult)
  show "bit (0xff000000000000 :: u64) m \<longleftrightarrow> 48 \<le> m \<and> m < 56"
    using * [of 48] by (simp add: mask_eq_exp_minus_1 push_bit_eq_mult)
  show "bit (0xff00000000000000 :: u64) m \<longleftrightarrow> 56 \<le> m \<and> m < 64"
    using * [of 56] by (simp add: mask_eq_exp_minus_1 push_bit_eq_mult)
qed

lemma byte_of_endswap16:
  "byte_of (endswap16 w) 0 = byte_of w 1"
  "byte_of (endswap16 w) 1 = byte_of w 0"
  by (rule bit_word_eqI; auto simp: byte_of_def endswap16_def bit_simps byte_masks_16
       simp del: bit_numeral_word_iff)+

lemma byte_of_endswap32:
  "byte_of (endswap32 w) 0 = byte_of w 3"
  "byte_of (endswap32 w) 1 = byte_of w 2"
  "byte_of (endswap32 w) 2 = byte_of w 1"
  "byte_of (endswap32 w) 3 = byte_of w 0"
  by (rule bit_word_eqI; auto simp: byte_of_def endswap32_def bit_simps byte_masks_32
       simp del: bit_numeral_word_iff)+

lemma byte_of_endswap64:
  "byte_of (endswap64 w) 0 = byte_of w 7"
  "byte_of (endswap64 w) 1 = byte_of w 6"
  "byte_of (endswap64 w) 2 = byte_of w 5"
  "byte_of (endswap64 w) 3 = byte_of w 4"
  "byte_of (endswap64 w) 4 = byte_of w 3"
  "byte_of (endswap64 w) 5 = byte_of w 2"
  "byte_of (endswap64 w) 6 = byte_of w 1"
  "byte_of (endswap64 w) 7 = byte_of w 0"
  by (rule bit_word_eqI; auto simp: byte_of_def endswap64_def bit_simps byte_masks_64
       simp del: bit_numeral_word_iff)+

lemma upt_bytes:
  "[0..<2] = [0, 1 :: nat]" "[0..<4] = [0, 1, 2, 3 :: nat]"
  "[0..<8] = [0, 1, 2, 3, 4, 5, 6, 7 :: nat]"
  by (simp_all add: upt_rec)

lemma endswap_reverses:
  "le_bytes 2 (unat (endswap16 v)) = rev (le_bytes 2 (unat v))"
  "le_bytes 4 (unat (endswap32 w)) = rev (le_bytes 4 (unat w))"
  "le_bytes 8 (unat (endswap64 x)) = rev (le_bytes 8 (unat x))"
  by (simp_all only: le_bytes_byte_of upt_bytes list.map rev.simps append.simps
      byte_of_endswap16 byte_of_endswap32 byte_of_endswap64)

lemma word_of_le_bytes: "LENGTH('a) = 8 * k \<Longrightarrow> of_nat (le_nat (le_bytes k (unat w))) = (w :: 'a::len word)"
  using load_store_host [of k False w] by (simp add: load_host_def store_host_def)

text \<open>Loading with the host's order and swapping when it is big-endian reads little-endian data.\<close>

lemma ENDSWAP_load:
  "length bs = 2 \<Longrightarrow> ENDSWAP16 be (load_host be bs) = of_nat (le_nat bs)"
  "length bs = 4 \<Longrightarrow> ENDSWAP32 be (load_host be bs) = of_nat (le_nat bs)"
  "length bs = 8 \<Longrightarrow> ENDSWAP64 be (load_host be bs) = of_nat (le_nat bs)"
proof -
  have *: "of_nat (le_nat bs) = (v :: 'a::len word)"
    if "LENGTH('a) = 8 * k" "length bs = k" "le_bytes k (unat v) = rev (le_bytes k (unat (load_host True bs :: 'a word)))"
    for v :: "'a::len word" and k
  proof -
    have "le_bytes k (unat v) = bs"
      using that store_load_host [OF that(1,2), of True] by (simp add: store_host_def)
    with word_of_le_bytes [OF that(1), of v] show ?thesis by simp
  qed
  show "ENDSWAP16 be (load_host be bs) = of_nat (le_nat bs)" if "length bs = 2"
    using * [of 2 "endswap16 (load_host True bs)"] that
    by (cases be) (simp_all add: ENDSWAP16_def endswap_reverses, simp add: load_host_def)
  show "ENDSWAP32 be (load_host be bs) = of_nat (le_nat bs)" if "length bs = 4"
    using * [of 4 "endswap32 (load_host True bs)"] that
    by (cases be) (simp_all add: ENDSWAP32_def endswap_reverses, simp add: load_host_def)
  show "ENDSWAP64 be (load_host be bs) = of_nat (le_nat bs)" if "length bs = 8"
    using * [of 8 "endswap64 (load_host True bs)"] that
    by (cases be) (simp_all add: ENDSWAP64_def endswap_reverses, simp add: load_host_def)
qed

lemma store_ENDSWAP:
  "store_host be 2 (ENDSWAP16 be v) = le_bytes 2 (unat v)"
  "store_host be 4 (ENDSWAP32 be w) = le_bytes 4 (unat w)"
  "store_host be 8 (ENDSWAP64 be x) = le_bytes 8 (unat x)"
  by (simp_all add: store_host_def ENDSWAP16_def ENDSWAP32_def ENDSWAP64_def endswap_reverses)

section \<open>Partition types and CHS addresses\<close>

record gpt2mbr_type_conv =
  gc_gpt_type1 :: u64
  gc_gpt_type2 :: u64
  gc_mbr_type :: u8

definition gpt2mbr_type_conv_table :: "gpt2mbr_type_conv list" where
  "gpt2mbr_type_conv_table = [
     \<lparr>gc_gpt_type1 = 0x11d2f81fc12a7328, gc_gpt_type2 = 0x3bc93ec9a0004bba, gc_mbr_type = 0xef\<rparr>,
     \<lparr>gc_gpt_type1 = 0x4433b9e5ebd0a0a2, gc_gpt_type2 = 0xc79926b7b668c087, gc_mbr_type = 0x07\<rparr>,
     \<lparr>gc_gpt_type1 = 0x11aa000048465300, gc_gpt_type2 = 0xacec4365300011aa, gc_mbr_type = 0xaf\<rparr>]"

text \<open>The result is the C \<open>int\<close>: the type, or \<open>-1\<close> for an unknown one.\<close>

fun gpt2mbr_lookup :: "gpt2mbr_type_conv list \<Rightarrow> u64 \<Rightarrow> u64 \<Rightarrow> int" where
  "gpt2mbr_lookup [] gpt_type1 gpt_type2 = -1"
| "gpt2mbr_lookup (c # cs) gpt_type1 gpt_type2 =
     (if gc_gpt_type1 c = gpt_type1 \<and> gc_gpt_type2 c = gpt_type2 then uint (gc_mbr_type c)
      else gpt2mbr_lookup cs gpt_type1 gpt_type2)"

definition gpt2mbr_type :: "u64 \<Rightarrow> u64 \<Rightarrow> int" where
  "gpt2mbr_type = gpt2mbr_lookup gpt2mbr_type_conv_table"

text \<open>The three bytes that \<open>lba2chs\<close> stores.\<close>

definition lba2chs :: "u64 \<Rightarrow> u8 list" where
  "lba2chs lba =
     (if lba > 63 * 255 * 1024 then [0xfe, 0xff, 0xff]
      else let cylinder = lba div (255 * 63) in
        if cylinder \<ge> 1024 then [0xfe, 0xff, 0xff]
        else let head = (lba div 63) mod 255;
                 sector = (lba mod 63) + 1
          in [ucast head,
              ucast (drop_bit 2 cylinder AND 0xc0) OR ucast (sector AND 0x3f),
              ucast cylinder])"

text \<open>Reading CHS bytes back: 8 bits of head, 6 of sector, 10 of cylinder.\<close>

definition chs_head :: "u8 list \<Rightarrow> nat" where "chs_head c = unat (c ! 0)"
definition chs_sector :: "u8 list \<Rightarrow> nat" where "chs_sector c = unat (c ! 1) mod 64"
definition chs_cylinder :: "u8 list \<Rightarrow> nat" where
  "chs_cylinder c = unat (c ! 2) + 256 * (unat (c ! 1) div 64)"

definition chs2lba :: "u8 list \<Rightarrow> nat" where
  "chs2lba c = (chs_cylinder c * 255 + chs_head c) * 63 + (chs_sector c - 1)"

lemma chs_middle_byte:
  fixes cyl sec :: u64
  assumes "unat cyl < 1024" "unat sec < 64"
  defines "b \<equiv> ucast (drop_bit 2 cyl AND 0xc0) OR ucast (sec AND 0x3f) :: u8"
  shows "unat b mod 64 = unat sec \<and> unat b div 64 = unat cyl div 256"
proof -
  have c0: "(0xc0 :: u64) = push_bit 6 (mask 2)" and m6: "(0x3f :: u64) = mask 6"
    by (simp_all add: mask_eq_exp_minus_1 push_bit_eq_mult)
  have "take_bit 6 b = ucast (take_bit 6 sec)"
    unfolding b_def c0 m6 by (rule bit_word_eqI) (auto simp: bit_simps)
  then have "unat (take_bit 6 b) = unat (take_bit 6 sec) mod 256"
    by (simp add: unsigned_ucast_eq take_bit_eq_mod)
  then have low: "unat b mod 64 = unat sec"
    using assms(2) by (simp add: unsigned_take_bit_eq take_bit_eq_mod unat_mod)
  have "drop_bit 6 b = ucast (take_bit 2 (drop_bit 8 cyl))"
    unfolding b_def c0 m6 by (rule bit_word_eqI) (auto simp: bit_simps add.commute)
  then have "unat (drop_bit 6 b) = unat (take_bit 2 (drop_bit 8 cyl)) mod 256"
    by (simp add: unsigned_ucast_eq take_bit_eq_mod)
  then have "unat b div 64 = unat cyl div 256 mod 4 mod 256"
    by (simp add: drop_bit_eq_div take_bit_eq_mod unat_div unat_mod)
  with low assms(1) show ?thesis by simp
qed

lemma lba2chs_small:
  assumes "unat lba < 63 * 255 * 1024"
  shows "chs_head (lba2chs lba) = (unat lba div 63) mod 255 \<and>
    chs_sector (lba2chs lba) = unat lba mod 63 + 1 \<and>
    chs_cylinder (lba2chs lba) = unat lba div (255 * 63)"
proof -
  let ?cyl = "lba div (255 * 63)" and ?head = "(lba div 63) mod 255" and ?sec = "(lba mod 63) + 1"
  have cyl: "unat ?cyl = unat lba div 16065" and head: "unat ?head = (unat lba div 63) mod 255"
    by (simp_all add: unat_div unat_mod)
  have "unat (lba mod 63) = unat lba mod 63" by (simp add: unat_mod)
  then have sec: "unat ?sec = unat lba mod 63 + 1"
    using unat_add_no_wrap [of "lba mod 63" 1] by simp
  have cyl_lt: "unat ?cyl < 1024" using assms cyl by simp
  then have chs: "lba2chs lba = [ucast ?head, ucast (drop_bit 2 ?cyl AND 0xc0) OR ucast (?sec AND 0x3f), ucast ?cyl]"
    using assms by (simp add: lba2chs_def Let_def word_less_nat_alt word_le_nat_alt)
  have "unat (ucast ?head :: u8) = unat ?head" "unat (ucast ?cyl :: u8) = unat ?cyl mod 256"
    using head by (simp_all add: unsigned_ucast_eq take_bit_eq_mod)
  then show ?thesis
    using chs_middle_byte [OF cyl_lt, of ?sec] head cyl sec cyl_lt
    by (simp add: chs chs_head_def chs_sector_def chs_cylinder_def)
qed

section \<open>GPT structures\<close>

text \<open>
  \<open>struct gpt_table_header\<close> occupies 96 bytes in memory, the last four of them padding, which a
  \<open>device_read\<close> fills and a \<open>device_write\<close> writes back. Multi-byte fields are integers of the
  host; only the fields that the tool uses are decoded from \<open>struct gpt_entry\<close> (128 bytes).
\<close>

record gpt_table_header =
  gh_signature :: "u8 list"
  gh_revision :: u32
  gh_header_size :: u32
  gh_crc32 :: u32
  gh_reserved0 :: u32
  gh_my_lba :: u64
  gh_alternate_lba :: u64
  gh_first_usable_lba :: u64
  gh_last_usable_lba :: u64
  gh_disk_guid :: "u64 list"
  gh_partition_entry_lba :: u64
  gh_number_of_partition_entries :: u32
  gh_size_of_partition_entry :: u32
  gh_partition_entry_array_crc32 :: u32
  gh_padding :: "u8 list"

record gpt_entry =
  ge_partition_type_guid :: "u64 list"
  ge_unique_partition_guid :: "u64 list"
  ge_starting_lba :: u64
  ge_ending_lba :: u64
  ge_attributes :: u64
  ge_partition_name :: "u16 list"

definition sizeof_gpt_table_header :: nat where "sizeof_gpt_table_header = 96"
definition sizeof_gpt_entry :: nat where "sizeof_gpt_entry = 128"

definition load_gpt_table_header :: "bool \<Rightarrow> u8 list \<Rightarrow> gpt_table_header" where
  "load_gpt_table_header be bs = \<lparr>
     gh_signature = slice_at bs 0 8,
     gh_revision = load_host be (slice_at bs 8 4),
     gh_header_size = load_host be (slice_at bs 12 4),
     gh_crc32 = load_host be (slice_at bs 16 4),
     gh_reserved0 = load_host be (slice_at bs 20 4),
     gh_my_lba = load_host be (slice_at bs 24 8),
     gh_alternate_lba = load_host be (slice_at bs 32 8),
     gh_first_usable_lba = load_host be (slice_at bs 40 8),
     gh_last_usable_lba = load_host be (slice_at bs 48 8),
     gh_disk_guid = [load_host be (slice_at bs 56 8), load_host be (slice_at bs 64 8)],
     gh_partition_entry_lba = load_host be (slice_at bs 72 8),
     gh_number_of_partition_entries = load_host be (slice_at bs 80 4),
     gh_size_of_partition_entry = load_host be (slice_at bs 84 4),
     gh_partition_entry_array_crc32 = load_host be (slice_at bs 88 4),
     gh_padding = slice_at bs 92 4\<rparr>"

definition store_gpt_table_header :: "bool \<Rightarrow> gpt_table_header \<Rightarrow> u8 list" where
  "store_gpt_table_header be h =
     gh_signature h @ store_host be 4 (gh_revision h) @ store_host be 4 (gh_header_size h) @
     store_host be 4 (gh_crc32 h) @ store_host be 4 (gh_reserved0 h) @
     store_host be 8 (gh_my_lba h) @ store_host be 8 (gh_alternate_lba h) @
     store_host be 8 (gh_first_usable_lba h) @ store_host be 8 (gh_last_usable_lba h) @
     concat (map (store_host be 8) (gh_disk_guid h)) @
     store_host be 8 (gh_partition_entry_lba h) @
     store_host be 4 (gh_number_of_partition_entries h) @
     store_host be 4 (gh_size_of_partition_entry h) @
     store_host be 4 (gh_partition_entry_array_crc32 h) @ gh_padding h"

definition load_gpt_entry :: "bool \<Rightarrow> u8 list \<Rightarrow> gpt_entry" where
  "load_gpt_entry be bs = \<lparr>
     ge_partition_type_guid = [load_host be (slice_at bs 0 8), load_host be (slice_at bs 8 8)],
     ge_unique_partition_guid = [load_host be (slice_at bs 16 8), load_host be (slice_at bs 24 8)],
     ge_starting_lba = load_host be (slice_at bs 32 8),
     ge_ending_lba = load_host be (slice_at bs 40 8),
     ge_attributes = load_host be (slice_at bs 48 8),
     ge_partition_name = map (\<lambda>i. load_host be (slice_at bs (56 + 2 * i) 2)) [0..<36]\<rparr>"

lemma store_load_gpt_table_header:
  assumes "length bs = 96"
  shows "store_gpt_table_header be (load_gpt_table_header be bs) = bs"
proof -
  have "slice_at bs 0 8 @ slice_at bs 8 4 @ slice_at bs 12 4 @ slice_at bs 16 4 @ slice_at bs 20 4 @
      slice_at bs 24 8 @ slice_at bs 32 8 @ slice_at bs 40 8 @ slice_at bs 48 8 @
      (slice_at bs 56 8 @ slice_at bs 64 8) @ slice_at bs 72 8 @ slice_at bs 80 4 @
      slice_at bs 84 4 @ slice_at bs 88 4 @ slice_at bs 92 4 = slice_at bs 0 96"
    using assms
    by (simp add: slice_append_slice [of _ _ _ bs, simplified] slice_at_def take_add [symmetric]
        flip: append_assoc drop_drop)
  then show ?thesis
    using assms
    by (simp add: store_gpt_table_header_def load_gpt_table_header_def store_load_host slice_at_def)
qed

section \<open>Positioning\<close>

text \<open>
  \<open>set_pos\<close> on a host whose \<open>long\<close> is narrower than 64 bits: \<open>rewind\<close>, then relative seeks of
  half the range of \<open>long\<close>. The position is the stream's; a relative seek that would make it
  exceed the 63 bits of a file offset fails.
\<close>

definition fseek_cur :: "nat \<Rightarrow> nat \<Rightarrow> nat option" where
  "fseek_cur pos off = (if pos + off < 2 ^ 63 then Some (pos + off) else None)"

fun seek_jumps :: "nat \<Rightarrow> nat \<Rightarrow> nat \<Rightarrow> nat option" where
  "seek_jumps jump_size 0 pos = Some pos"
| "seek_jumps jump_size (Suc n) pos =
     (case fseek_cur pos jump_size of None \<Rightarrow> None | Some pos' \<Rightarrow> seek_jumps jump_size n pos')"

definition set_pos_jumps :: "nat \<Rightarrow> u64 \<Rightarrow> nat option" where
  "set_pos_jumps LONG_MAX' pos =
     (let jump_size = LONG_MAX' div 2 + 1;
          last_jump = unat pos mod jump_size;
          jumps = unat pos div jump_size
      in case seek_jumps jump_size jumps 0 of
           None \<Rightarrow> None
         | Some p \<Rightarrow> fseek_cur p last_jump)"

lemma seek_jumps_eq:
  "pos < 2 ^ 63 \<Longrightarrow> seek_jumps j n pos = (if pos + n * j < 2 ^ 63 then Some (pos + n * j) else None)"
  by (induction n arbitrary: pos) (auto simp: fseek_cur_def algebra_simps)

section \<open>Properties\<close>

text \<open>C28: The 256-entry table of the tool is the CRC-32 table of the reflected polynomial
  \<open>0xedb88320\<close>, and the table-driven \<open>crc32\<close> computes the same checksum as the bit-by-bit
  definition, for every input.\<close>

theorem crc32_is_bitwise_crc:
  "length crc32_table = 256 \<and> (\<forall>n < 256. crc32_table ! n = (crc_shift ^^ 8) (of_nat n)) \<and>
   crc32 stream = crc32_bitwise stream"
proof -
  have "foldl (\<lambda>ret byte. drop_bit 8 ret XOR crc32_table ! unat ((ret XOR ucast byte) AND 0xff)) r stream =
      foldl (\<lambda>ret byte. (crc_shift ^^ 8) (ret XOR ucast byte)) r stream" for r
    by (induction stream arbitrary: r) (simp_all only: foldl.simps crc_table_step)
  then have "crc32 stream = crc32_bitwise stream"
    by (simp only: crc32_def crc32_bitwise_def)
  moreover have "length crc32_table = 256" by (simp add: crc32_table_def)
  ultimately show ?thesis using crc32_table_nth by simp
qed

text \<open>The check value of the CRC catalogue: the checksum of the ASCII digits 1 to 9.\<close>

theorem crc32_is_bitwise_crc_witness: "crc32 [0x31, 0x32, 0x33, 0x34, 0x35, 0x36, 0x37, 0x38, 0x39] = 0xcbf43926"
proof -
  have "crc32_bitwise [0x31, 0x32, 0x33, 0x34, 0x35, 0x36, 0x37, 0x38, 0x39] = 0xcbf43926"
    unfolding crc32_bitwise_def foldl.simps by (simp add: crc_shifts_8 crc_shift_def)
  with crc32_is_bitwise_crc [of "[0x31, 0x32, 0x33, 0x34, 0x35, 0x36, 0x37, 0x38, 0x39]"]
  show ?thesis by simp
qed

text \<open>Whatever the host's byte order, loading a field of 2, 4 or 8 bytes as a host integer and
  applying \<open>ENDSWAP\<close> yields the little-endian value of those bytes, and storing an \<open>ENDSWAP\<close>ed
  value writes its little-endian bytes.\<close>

lemma ENDSWAP_is_little_endian:
  assumes "length b2 = 2" "length b4 = 4" "length b8 = 8"
  shows "ENDSWAP16 be (load_host be b2) = of_nat (le_nat b2) \<and>
    ENDSWAP32 be (load_host be b4) = of_nat (le_nat b4) \<and>
    ENDSWAP64 be (load_host be b8) = of_nat (le_nat b8) \<and>
    store_host be 2 (ENDSWAP16 be v2) = le_bytes 2 (unat v2) \<and>
    store_host be 4 (ENDSWAP32 be v4) = le_bytes 4 (unat v4) \<and>
    store_host be 8 (ENDSWAP64 be v8) = le_bytes 8 (unat v8)"
  using assms by (simp add: ENDSWAP_load store_ENDSWAP)

lemma ENDSWAP_is_little_endian_witness:
  "ENDSWAP32 True (load_host True [0x78, 0x56, 0x34, 0x12]) = 0x12345678 \<and>
   ENDSWAP16 True (load_host True [0x53, 0xef]) = 0xef53"
  using ENDSWAP_is_little_endian [of "[0x53, 0xef]" "[0x78, 0x56, 0x34, 0x12]" "replicate 8 0" True]
  by simp

text \<open>CHS encoding: below the 1024th cylinder the three bytes decode to the address itself, with
  a head below 255 and a sector between 1 and 63; from there on they are the conventional
  saturation value.\<close>

lemma lba2chs_roundtrip:
  "if unat lba < 63 * 255 * 1024
   then chs2lba (lba2chs lba) = unat lba \<and> chs_head (lba2chs lba) < 255 \<and>
     chs_sector (lba2chs lba) \<in> {1..63} \<and> chs_cylinder (lba2chs lba) < 1024
   else lba2chs lba = [0xfe, 0xff, 0xff]"
proof (cases "unat lba < 63 * 255 * 1024")
  case True
  have "unat lba div 16065 * 255 + unat lba div 63 mod 255 = unat lba div 63"
    by (simp add: div_mult2_eq [of _ 63 255, simplified])
  then have "chs2lba (lba2chs lba) = unat lba div 63 * 63 + unat lba mod 63"
    using lba2chs_small [OF True] by (simp add: chs2lba_def)
  with True lba2chs_small [OF True] show ?thesis by (auto simp: less_Suc_eq_le [symmetric])
next
  case False
  then have "lba div (255 * 63) \<ge> 1024"
    by (simp add: word_le_nat_alt unat_div)
  with False show ?thesis by (simp add: lba2chs_def Let_def)
qed

text \<open>\<open>struct gpt_table_header\<close>: loading the 96 bytes of a header and storing the structure again
  gives the same bytes, on hosts of either byte order, so that a header that is read, modified
  and written back changes on disk only in the modified fields.\<close>

lemma gpt_header_roundtrip:
  assumes "length bs = sizeof_gpt_table_header"
  shows "store_gpt_table_header be (load_gpt_table_header be bs) = bs"
  using assms by (simp add: sizeof_gpt_table_header_def store_load_gpt_table_header)

lemma gpt_header_roundtrip_witness:
  "store_gpt_table_header True (load_gpt_table_header True (map of_nat [0..<96])) = map of_nat [0..<96]"
  by (rule gpt_header_roundtrip) (simp add: sizeof_gpt_table_header_def)

text \<open>Where \<open>long\<close> has fewer than 64 bits, the chunked seeks of \<open>set_pos\<close> reach exactly the
  requested position, for every position a file can have, and fail for every other.\<close>

lemma set_pos_jumps_exact:
  "set_pos_jumps lmax pos = (if unat pos < 2 ^ 63 then Some (unat pos) else None)"
proof -
  let ?j = "lmax div 2 + 1" and ?n = "unat pos div (lmax div 2 + 1)"
  have "?n * ?j + unat pos mod ?j = unat pos" by (rule div_mult_mod_eq)
  then show ?thesis
    by (auto simp: set_pos_jumps_def Let_def seek_jumps_eq fseek_cur_def)
qed

end
