(* ===== verification/Limine_Device.thy ===== *)
theory Limine_Device
  imports Limine_Util
begin

text \<open>
  Device access of the host tool (\<open>limine.c\<close>): the one-block write-back cache over a C stream, byte
  granular reads and writes, and the undo log that every write of an installation appends to. The
  tool's static variables are one record. The stream is the device's bytes and a position, with
  the C library's rules: a read that hits the end transfers what there is and reports failure; a
  write past the end extends the file. \<open>dv_faults\<close> scripts I/O and allocation errors: each
  library call that can fail takes the next entry, \<open>True\<close> makes it fail, and an exhausted script
  means no more errors. Diagnostics on \<open>stderr\<close> have no effect on this state and are left out.
\<close>

section \<open>State\<close>

datatype cache_state = CACHE_CLEAN | CACHE_DIRTY

record uninstall_data =
  ud_data :: "u8 list"
  ud_loc :: u64
  ud_count :: u64

definition UNINSTALL_DATA_MAX :: u64 where "UNINSTALL_DATA_MAX = 256"

record dev =
  dv_disk :: "u8 list"
  dv_pos :: nat
  dv_faults :: "bool list"
  dv_cache_state :: cache_state
  dv_cached_block :: u64
  dv_cache :: "u8 list"
  dv_block_size :: u64
  dv_uninstalling :: bool
  dv_uninstall_data :: "uninstall_data list"
  dv_uninstall_data_rev :: "uninstall_data list"
  dv_uninstall_data_i :: u64

text \<open>Static storage starts zeroed; \<open>device\<close> has just been opened on \<open>disk\<close>.\<close>

definition null_ud :: uninstall_data where
  "null_ud = \<lparr>ud_data = [], ud_loc = 0, ud_count = 0\<rparr>"

definition dev_open :: "u8 list \<Rightarrow> bool list \<Rightarrow> dev" where
  "dev_open disk faults = \<lparr>dv_disk = disk, dv_pos = 0, dv_faults = faults,
     dv_cache_state = CACHE_CLEAN, dv_cached_block = 0, dv_cache = [], dv_block_size = 0,
     dv_uninstalling = False,
     dv_uninstall_data = replicate (unat UNINSTALL_DATA_MAX) null_ud,
     dv_uninstall_data_rev = replicate (unat UNINSTALL_DATA_MAX) null_ud,
     dv_uninstall_data_i = 0\<rparr>"

text \<open>
  Outcome of a step of the tool: a value, the jump to its error exit (\<open>return false\<close> and the
  \<open>goto cleanup\<close> behind it), or undefined behaviour.
\<close>

datatype 'a outcome = Ret 'a | Bail | Undefined

type_synonym 'a prog = "dev \<Rightarrow> 'a outcome \<times> dev"

definition pret :: "'a \<Rightarrow> 'a prog" where
  "pret x d = (Ret x, d)"

definition pbail :: "'a prog" where
  "pbail d = (Bail, d)"

definition pundefined :: "'a prog" where
  "pundefined d = (Undefined, d)"

definition pbind :: "'a prog \<Rightarrow> ('a \<Rightarrow> 'b prog) \<Rightarrow> 'b prog" where
  "pbind m f d = (case m d of (Ret x, d') \<Rightarrow> f x d' | (Bail, d') \<Rightarrow> (Bail, d') | (Undefined, d') \<Rightarrow> (Undefined, d'))"

section \<open>The stream\<close>

definition next_fault :: "dev \<Rightarrow> bool \<times> dev" where
  "next_fault d = (case dv_faults d of [] \<Rightarrow> (False, d) | b # bs \<Rightarrow> (b, d\<lparr>dv_faults := bs\<rparr>))"

text \<open>\<open>set_pos\<close> where \<open>long\<close> has 64 bits: one \<open>fseek\<close>, which rejects negative offsets.\<close>

definition set_pos :: "u64 \<Rightarrow> dev \<Rightarrow> bool \<times> dev" where
  "set_pos pos d =
     (case next_fault d of (bad, d) \<Rightarrow>
        if bad \<or> 2 ^ 63 \<le> unat pos then (False, d) else (True, d\<lparr>dv_pos := unat pos\<rparr>))"

definition fread_cache :: "nat \<Rightarrow> dev \<Rightarrow> bool \<times> dev" where
  "fread_cache n d =
     (case next_fault d of (bad, d) \<Rightarrow>
        if bad then (False, d)
        else let got = slice_at (dv_disk d) (dv_pos d) n
          in (length got = n,
              d\<lparr>dv_cache := splice_at (dv_cache d) 0 got, dv_pos := dv_pos d + length got\<rparr>))"

definition fwrite_cache :: "nat \<Rightarrow> dev \<Rightarrow> bool \<times> dev" where
  "fwrite_cache n d =
     (case next_fault d of (bad, d) \<Rightarrow>
        if bad then (False, d)
        else let disk = dv_disk d @ replicate (dv_pos d + n - length (dv_disk d)) 0
          in (True, d\<lparr>dv_disk := splice_at disk (dv_pos d) (take n (dv_cache d)),
                dv_pos := dv_pos d + n\<rparr>))"

section \<open>The block cache\<close>

fun device_init_guess :: "u64 list \<Rightarrow> dev \<Rightarrow> bool \<times> dev" where
  "device_init_guess [] d = (False, d)"
| "device_init_guess (guess # guesses) d =
     (case next_fault d of (bad, d) \<Rightarrow>
        if bad then (False, d)
        else let n = unat guess;
                 d = d\<lparr>dv_cache := take n (dv_cache d @ replicate n 0)\<rparr>;
                 d = d\<lparr>dv_pos := 0\<rparr>
          in case fread_cache n d of
               (False, d) \<Rightarrow> device_init_guess guesses d
             | (True, d) \<Rightarrow> (True, d\<lparr>dv_block_size := guess, dv_cache_state := CACHE_CLEAN,
                   dv_cached_block := 0\<rparr>))"

definition device_init :: "dev \<Rightarrow> bool \<times> dev" where
  "device_init = device_init_guess [512, 2048, 4096]"

definition device_flush_cache :: "dev \<Rightarrow> bool \<times> dev" where
  "device_flush_cache d =
     (if dv_cache_state d = CACHE_CLEAN then (True, d)
      else case set_pos (dv_cached_block d * dv_block_size d) d of
        (False, d) \<Rightarrow> (False, d)
      | (True, d) \<Rightarrow>
          (case fwrite_cache (unat (dv_block_size d)) d of
             (False, d) \<Rightarrow> (False, d)
           | (True, d) \<Rightarrow> (True, d\<lparr>dv_cache_state := CACHE_CLEAN\<rparr>)))"

definition device_cache_block :: "u64 \<Rightarrow> dev \<Rightarrow> bool \<times> dev" where
  "device_cache_block block d =
     (if dv_cached_block d = block then (True, d)
      else case (if dv_cache_state d = CACHE_DIRTY then device_flush_cache d else (True, d)) of
        (False, d) \<Rightarrow> (False, d)
      | (True, d) \<Rightarrow>
          (case set_pos (block * dv_block_size d) d of
             (False, d) \<Rightarrow> (False, d)
           | (True, d) \<Rightarrow>
               (case fread_cache (unat (dv_block_size d)) d of
                  (False, d) \<Rightarrow> (False, d)
                | (True, d) \<Rightarrow> (True, d\<lparr>dv_cached_block := block\<rparr>))))"

section \<open>Reading and writing bytes\<close>

text \<open>The part of a transfer that lies in the block at hand.\<close>

definition chunk_size :: "u64 \<Rightarrow> u64 \<Rightarrow> u64 \<Rightarrow> u64 \<Rightarrow> u64" where
  "chunk_size bs loc count progress =
     (let chunk = count - progress; offset = (loc + progress) mod bs
      in if chunk > bs - offset then bs - offset else chunk)"

lemma chunk_size_bounds:
  assumes "bs \<noteq> 0" "progress < count"
  shows "0 < unat (chunk_size bs loc count progress)"
    "unat (chunk_size bs loc count progress) \<le> unat count - unat progress"
    "unat (chunk_size bs loc count progress) = min (unat count - unat progress) (unat bs - unat ((loc + progress) mod bs))"
proof -
  let ?off = "(loc + progress) mod bs"
  have off: "?off < bs" using assms(1) by (simp add: word_less_nat_alt unat_mod unat_gt_0)
  have sub: "unat (count - progress) = unat count - unat progress"
    using assms(2) by (simp add: unat_sub)
  have sub2: "unat (bs - ?off) = unat bs - unat ?off"
    using off by (simp add: unat_sub)
  show "unat (chunk_size bs loc count progress) = min (unat count - unat progress) (unat bs - unat ?off)"
    by (auto simp: chunk_size_def Let_def word_less_nat_alt sub sub2)
  then show "0 < unat (chunk_size bs loc count progress)"
    "unat (chunk_size bs loc count progress) \<le> unat count - unat progress"
    using off assms(2) by (simp_all add: word_less_nat_alt)
qed

lemma chunk_progress:
  assumes "bs \<noteq> 0" "progress < count"
  shows "unat (progress + chunk_size bs loc count progress) = unat progress + unat (chunk_size bs loc count progress)"
proof -
  have "unat progress + unat (chunk_size bs loc count progress) \<le> unat count"
    using chunk_size_bounds(2) [OF assms, of loc] assms(2) by (simp add: word_less_nat_alt)
  also have "\<dots> < 2 ^ 64" using unsigned_less [of count, where 'a = nat] by simp
  finally show ?thesis by (intro unat_add_no_wrap) simp
qed

lemma chunk_decreases:
  "bs \<noteq> 0 \<Longrightarrow> progress < count \<Longrightarrow>
   unat count - unat (progress + chunk_size bs loc count progress) < unat count - unat progress"
  using chunk_size_bounds(1) [of bs progress count loc] chunk_progress [of bs progress count loc]
  by (simp add: word_less_nat_alt)

function device_read_loop ::
    "u64 \<Rightarrow> u64 \<Rightarrow> u64 \<Rightarrow> u8 list \<Rightarrow> u8 list prog" where
  "device_read_loop loc count progress buffer d =
     (if progress < count then
        let bs = dv_block_size d in
        if bs = 0 then (Undefined, d)
        else let block = (loc + progress) div bs in
          case device_cache_block block d of
            (False, d) \<Rightarrow> (Bail, d)
          | (True, d) \<Rightarrow>
              (let chunk = chunk_size bs loc count progress; offset = (loc + progress) mod bs in
               device_read_loop loc count (progress + chunk)
                 (buffer @ slice_at (dv_cache d) (unat offset) (unat chunk)) d)
      else (Ret buffer, d))"
  by pat_completeness auto
termination
  by (relation "measure (\<lambda>(loc, count, progress, buffer, d). unat count - unat progress)")
     (auto intro: chunk_decreases)

declare device_read_loop.simps [simp del]

definition device_read :: "u64 \<Rightarrow> u64 \<Rightarrow> u8 list prog" where
  "device_read loc count = device_read_loop loc count 0 []"

function device_write_loop :: "u8 list \<Rightarrow> u64 \<Rightarrow> u64 \<Rightarrow> u64 \<Rightarrow> unit prog" where
  "device_write_loop buffer loc count progress d =
     (if progress < count then
        let bs = dv_block_size d in
        if bs = 0 then (Undefined, d)
        else let block = (loc + progress) div bs in
          case device_cache_block block d of
            (False, d) \<Rightarrow> (Bail, d)
          | (True, d) \<Rightarrow>
              (let chunk = chunk_size bs loc count progress; offset = (loc + progress) mod bs in
               device_write_loop buffer loc count (progress + chunk)
                 (d\<lparr>dv_cache := splice_at (dv_cache d) (unat offset)
                       (slice_at buffer (unat progress) (unat chunk)),
                    dv_cache_state := CACHE_DIRTY\<rparr>))
      else (Ret (), d))"
  by pat_completeness auto
termination
  by (relation "measure (\<lambda>(buffer, loc, count, progress, d). unat count - unat progress)")
     (auto intro: chunk_decreases)

declare device_write_loop.simps [simp del]

text \<open>
  \<open>_device_write\<close>: outside \<open>uninstall\<close> the old contents are saved in the next log entry first, and
  the entry only counts once the write is complete.
\<close>

definition save_old :: "u64 \<Rightarrow> u64 \<Rightarrow> unit prog" where
  "save_old loc count d =
     (if dv_uninstall_data_i d \<ge> UNINSTALL_DATA_MAX then (Bail, d)
      else case next_fault d of (bad, d) \<Rightarrow>
        if bad then (Bail, d)
        else case device_read loc count d of
          (Ret old, d) \<Rightarrow> (Ret (), d\<lparr>dv_uninstall_data := (dv_uninstall_data d)
             [unat (dv_uninstall_data_i d) := \<lparr>ud_data = old, ud_loc = loc, ud_count = count\<rparr>]\<rparr>)
        | (Bail, d) \<Rightarrow> (Bail, d)
        | (Undefined, d) \<Rightarrow> (Undefined, d))"

definition device_write :: "u8 list \<Rightarrow> u64 \<Rightarrow> u64 \<Rightarrow> unit prog" where
  "device_write buffer loc count d =
     (case (if dv_uninstalling d then (Ret (), d) else save_old loc count d) of
        (Ret _, d) \<Rightarrow>
          (case device_write_loop buffer loc count 0 d of
             (Ret _, d) \<Rightarrow>
               (Ret (), if dv_uninstalling d then d
                        else d\<lparr>dv_uninstall_data_i := dv_uninstall_data_i d + 1\<rparr>)
           | (Bail, d) \<Rightarrow> (Bail, d)
           | (Undefined, d) \<Rightarrow> (Undefined, d))
      | (Bail, d) \<Rightarrow> (Bail, d)
      | (Undefined, d) \<Rightarrow> (Undefined, d))"

section \<open>The bytes behind the cache\<close>

definition dev_view :: "dev \<Rightarrow> u8 list" where
  "dev_view d =
     (if dv_cache_state d = CACHE_DIRTY
      then splice_at (dv_disk d) (unat (dv_cached_block d) * unat (dv_block_size d)) (dv_cache d)
      else dv_disk d)"

text \<open>
  \<open>dev_base\<close> holds from \<open>device_init\<close> on as long as no I/O error occurs; \<open>dev_ok\<close> adds that the
  cache holds its block. A failed read leaves \<open>dev_base\<close> and a clean cache of unknown contents.
\<close>

definition dev_base :: "dev \<Rightarrow> bool" where
  "dev_base d \<longleftrightarrow> dv_block_size d \<in> {512, 2048, 4096} \<and>
     length (dv_cache d) = unat (dv_block_size d) \<and> length (dv_disk d) < 2 ^ 63 \<and> dv_faults d = []"

definition dev_ok :: "dev \<Rightarrow> bool" where
  "dev_ok d \<longleftrightarrow> dev_base d \<and>
     (if dv_cached_block d = - 1 then dv_cache_state d = CACHE_CLEAN
      else (unat (dv_cached_block d) + 1) * unat (dv_block_size d) \<le> length (dv_disk d) \<and>
        (dv_cache_state d = CACHE_CLEAN \<longrightarrow> dv_cache d =
           slice_at (dv_disk d) (unat (dv_cached_block d) * unat (dv_block_size d)) (unat (dv_block_size d))))"

definition dev_failed :: "u8 list \<Rightarrow> dev \<Rightarrow> bool" where
  "dev_failed v d \<longleftrightarrow> dev_base d \<and> dv_cache_state d = CACHE_CLEAN \<and> dv_disk d = v"

definition same_env :: "dev \<Rightarrow> dev \<Rightarrow> bool" where
  "same_env d d' \<longleftrightarrow> dv_block_size d' = dv_block_size d \<and> dv_uninstalling d' = dv_uninstalling d \<and>
     dv_uninstall_data d' = dv_uninstall_data d \<and> dv_uninstall_data_rev d' = dv_uninstall_data_rev d \<and>
     dv_uninstall_data_i d' = dv_uninstall_data_i d \<and> length (dv_disk d') = length (dv_disk d)"

lemma same_env_refl [simp]: "same_env d d"
  by (simp add: same_env_def)

lemma same_env_trans: "same_env d d' \<Longrightarrow> same_env d' d'' \<Longrightarrow> same_env d d''"
  by (simp add: same_env_def)

text \<open>
  Outside the bytes \<open>X\<close> that were written, a step changes nothing that is visible, and a byte of the
  disk is either left alone or brought up to date by a flush.
\<close>

definition carries :: "nat set \<Rightarrow> dev \<Rightarrow> dev \<Rightarrow> bool" where
  "carries X d d' \<longleftrightarrow> length (dv_disk d') = length (dv_disk d) \<and>
     (\<forall>k < length (dv_disk d). k \<notin> X \<longrightarrow> dev_view d' ! k = dev_view d ! k \<and>
        (dv_disk d' ! k = dv_disk d ! k \<or> dv_disk d' ! k = dev_view d ! k))"

lemma carries_refl [simp]: "carries X d d"
  by (simp add: carries_def)

lemma carries_trans: "carries X d d' \<Longrightarrow> carries X d' d'' \<Longrightarrow> carries X d d''"
  unfolding carries_def by metis

lemma carries_mono: "carries X d d' \<Longrightarrow> X \<subseteq> Y \<Longrightarrow> carries Y d d'"
  by (auto simp: carries_def)

lemma carriesI:
  "length (dv_disk d') = length (dv_disk d) \<Longrightarrow> dev_view d' = dev_view d \<Longrightarrow>
   dv_disk d' = dv_disk d \<or> dv_disk d' = dev_view d \<Longrightarrow> carries X d d'"
  by (auto simp: carries_def)

lemma same_env_carries:
  "same_env d d' \<Longrightarrow> dev_view d' = dev_view d \<Longrightarrow> dv_disk d' = dev_view d \<Longrightarrow> carries X d d'"
  by (rule carriesI) (simp_all add: same_env_def)

text \<open>Only whole blocks of the device can be read.\<close>

definition dev_size :: "dev \<Rightarrow> nat" where
  "dev_size d = length (dv_disk d) div unat (dv_block_size d) * unat (dv_block_size d)"

lemma same_env_size: "same_env d d' \<Longrightarrow> dev_size d' = dev_size d"
  by (simp add: same_env_def dev_size_def)

lemma dev_size_le: "dev_size d \<le> length (dv_disk d)"
  by (simp add: dev_size_def div_times_less_eq_dividend)

lemma block_in_range: "0 < n \<Longrightarrow> (x div n + 1) * n \<le> len \<longleftrightarrow> x < len div n * (n :: nat)"
proof -
  assume n: "0 < n"
  have "(x div n + 1) * n \<le> len \<longleftrightarrow> x div n + 1 \<le> len div n"
    using less_eq_div_iff_mult_less_eq [OF n] by metis
  also have "\<dots> \<longleftrightarrow> x < len div n * n"
    using div_less_iff_less_mult [OF n, of x "len div n"] by auto
  finally show ?thesis .
qed

lemma dev_base_block_size:
  "dev_base d \<Longrightarrow> unat (dv_block_size d) \<in> {512, 2048, 4096} \<and> dv_block_size d \<noteq> 0"
  by (auto simp: dev_base_def)

lemma next_fault_none: "dv_faults d = [] \<Longrightarrow> next_fault d = (False, d)"
  by (simp add: next_fault_def)

lemma set_pos_none:
  "dv_faults d = [] \<Longrightarrow>
   set_pos p d = (if 2 ^ 63 \<le> unat p then (False, d) else (True, d\<lparr>dv_pos := unat p\<rparr>))"
  by (simp add: set_pos_def next_fault_none)

lemma block_offset:
  assumes "(unat block + 1) * unat bs \<le> n" "n < 2 ^ 63"
  shows "unat (block * bs :: u64) = unat block * unat bs \<and> unat block * unat bs + unat bs \<le> n"
proof -
  from assms have le: "unat block * unat bs + unat bs \<le> n" by (simp add: algebra_simps)
  with assms(2) have "unat block * unat bs < 2 ^ 64" by simp
  then show ?thesis using le by (simp add: unat_mult_no_wrap)
qed

lemma length_dev_view: "dev_ok d \<Longrightarrow> length (dev_view d) = length (dv_disk d)"
  by (auto simp: dev_view_def dev_ok_def dev_base_def algebra_simps split: if_splits)

lemma flush_ok:
  assumes ok: "dev_ok d"
  shows "\<exists>d'. device_flush_cache d = (True, d') \<and> dev_ok d' \<and> dv_cache_state d' = CACHE_CLEAN \<and>
    dv_disk d' = dev_view d \<and> same_env d d' \<and> dv_cached_block d' = dv_cached_block d \<and>
    dv_cache d' = dv_cache d"
proof (cases "dv_cache_state d")
  case CACHE_CLEAN
  with ok show ?thesis by (simp add: device_flush_cache_def dev_view_def)
next
  case CACHE_DIRTY
  let ?n = "unat (dv_block_size d)" and ?p = "unat (dv_cached_block d) * unat (dv_block_size d)"
  from ok CACHE_DIRTY have base: "dev_base d" and cb: "dv_cached_block d \<noteq> - 1"
    and fits: "(unat (dv_cached_block d) + 1) * ?n \<le> length (dv_disk d)"
    by (auto simp: dev_ok_def split: if_splits)
  from base have len: "length (dv_cache d) = ?n" "length (dv_disk d) < 2 ^ 63" and nf: "dv_faults d = []"
    by (simp_all add: dev_base_def)
  note off = block_offset [OF fits len(2)]
  let ?d' = "d\<lparr>dv_disk := splice_at (dv_disk d) ?p (dv_cache d), dv_pos := ?p + ?n, dv_cache_state := CACHE_CLEAN\<rparr>"
  have "device_flush_cache d = (True, ?d')"
    using CACHE_DIRTY off len nf
    by (simp add: device_flush_cache_def set_pos_none fwrite_cache_def next_fault_none Let_def)
  moreover have "dev_ok ?d'"
    using ok cb off len by (auto simp: dev_ok_def dev_base_def)
  ultimately show ?thesis
    using CACHE_DIRTY off len by (auto simp: dev_view_def same_env_def)
qed

text \<open>The common part of \<open>device_cache_block\<close> when the block is not the cached one.\<close>

lemma cache_block_miss:
  assumes ok: "dev_ok d" and miss: "dv_cached_block d \<noteq> block"
  shows "\<exists>d1. dev_ok d1 \<and> dv_cache_state d1 = CACHE_CLEAN \<and> dv_disk d1 = dev_view d \<and> same_env d d1 \<and>
    device_cache_block block d =
      (case set_pos (block * dv_block_size d1) d1 of
         (False, d) \<Rightarrow> (False, d)
       | (True, d) \<Rightarrow>
           (case fread_cache (unat (dv_block_size d)) d of
              (False, d) \<Rightarrow> (False, d)
            | (True, d) \<Rightarrow> (True, d\<lparr>dv_cached_block := block\<rparr>)))"
proof (cases "dv_cache_state d")
  case CACHE_CLEAN
  with ok miss show ?thesis by (intro exI [of _ d]) (simp add: device_cache_block_def dev_view_def)
next
  case CACHE_DIRTY
  obtain d1 where "device_flush_cache d = (True, d1)" "dev_ok d1" "dv_cache_state d1 = CACHE_CLEAN"
    "dv_disk d1 = dev_view d" "same_env d d1"
    using flush_ok [OF ok] by blast
  with CACHE_DIRTY miss show ?thesis by (intro exI [of _ d1]) (simp add: device_cache_block_def)
qed

lemma cache_block_in:
  assumes ok: "dev_ok d" and fits: "(unat block + 1) * unat (dv_block_size d) \<le> length (dv_disk d)"
  shows "\<exists>d'. device_cache_block block d = (True, d') \<and> dev_ok d' \<and> dv_cached_block d' = block \<and>
    dev_view d' = dev_view d \<and> same_env d d' \<and> carries {} d d' \<and>
    dv_cache d' = slice_at (dev_view d) (unat block * unat (dv_block_size d)) (unat (dv_block_size d))"
proof (cases "dv_cached_block d = block")
  case True
  let ?n = "unat (dv_block_size d)" and ?p = "unat block * unat (dv_block_size d)"
  from ok have base: "dev_base d" by (simp add: dev_ok_def)
  then have len: "length (dv_cache d) = ?n" "length (dv_disk d) < 2 ^ 63" and pos: "0 < ?n"
    using dev_base_block_size [OF base] by (auto simp: dev_base_def)
  have "block \<noteq> - 1"
  proof
    assume b: "block = - 1"
    have "2 ^ 64 * 1 \<le> (unat block + 1) * ?n"
      unfolding b unat_max_word using pos by (intro mult_le_mono) simp_all
    with fits len(2) show False by simp
  qed
  with True ok have "dv_cache_state d = CACHE_CLEAN \<longrightarrow> dv_cache d = slice_at (dv_disk d) ?p ?n"
    by (simp add: dev_ok_def)
  then have "dv_cache d = slice_at (dev_view d) ?p ?n"
    using True block_offset [OF fits len(2)] len by (cases "dv_cache_state d") (simp_all add: dev_view_def)
  with True ok show ?thesis by (auto simp: device_cache_block_def)
next
  case False
  from cache_block_miss [OF ok False] obtain d1 where
    d1: "dev_ok d1" "dv_cache_state d1 = CACHE_CLEAN" "dv_disk d1 = dev_view d" "same_env d d1" and
    eq: "device_cache_block block d =
      (case set_pos (block * dv_block_size d1) d1 of
         (False, d) \<Rightarrow> (False, d)
       | (True, d) \<Rightarrow>
           (case fread_cache (unat (dv_block_size d)) d of
              (False, d) \<Rightarrow> (False, d)
            | (True, d) \<Rightarrow> (True, d\<lparr>dv_cached_block := block\<rparr>)))" by blast
  let ?n = "unat (dv_block_size d)" and ?p = "unat block * unat (dv_block_size d)"
  have bs: "dv_block_size d1 = dv_block_size d" and ld: "length (dv_disk d1) = length (dv_disk d)"
    using d1(4) by (simp_all add: same_env_def)
  from d1(1) have base: "dev_base d1" by (simp add: dev_ok_def)
  then have len: "length (dv_cache d1) = ?n" "length (dv_disk d1) < 2 ^ 63" and nf: "dv_faults d1 = []"
    by (simp_all add: dev_base_def bs)
  note off = block_offset [OF fits [folded ld] len(2)]
  let ?d' = "d1\<lparr>dv_pos := ?p + ?n, dv_cache := slice_at (dv_disk d1) ?p ?n, dv_cached_block := block\<rparr>"
  have "device_cache_block block d = (True, ?d')"
    using off len nf
    by (simp add: eq set_pos_none bs fread_cache_def next_fault_none Let_def splice_at_def)
  moreover have "dev_ok ?d'"
    using d1 off fits ld len by (auto simp: dev_ok_def dev_base_def bs)
  moreover have view: "dev_view ?d' = dev_view d" using d1 by (simp add: dev_view_def)
  moreover have "same_env d ?d'" using d1 by (simp add: same_env_def)
  moreover have "carries {} d ?d'" using same_env_carries [OF calculation(4) view] d1 by simp
  ultimately show ?thesis using d1(3) by (intro exI [of _ ?d']) simp
qed

lemma cache_block_out:
  assumes ok: "dev_ok d" and no_wrap: "unat block * unat (dv_block_size d) < 2 ^ 64"
    and out: "length (dv_disk d) < (unat block + 1) * unat (dv_block_size d)"
  shows "\<exists>d'. device_cache_block block d = (False, d') \<and> dev_failed (dev_view d) d' \<and> same_env d d'"
proof -
  let ?n = "unat (dv_block_size d)" and ?p = "unat block * unat (dv_block_size d)"
  from ok have "dev_base d" by (simp add: dev_ok_def)
  then have n: "2 \<le> ?n" using dev_base_block_size [of d] by auto
  have "block \<noteq> - 1"
  proof
    assume b: "block = - 1"
    have "(2 ^ 64 - 1) * 2 \<le> unat block * ?n"
      unfolding b unat_max_word using n by (intro mult_le_mono) simp_all
    with no_wrap show False by simp
  qed
  with ok out have miss: "dv_cached_block d \<noteq> block" by (auto simp: dev_ok_def)
  from cache_block_miss [OF ok this] obtain d1 where
    d1: "dev_ok d1" "dv_cache_state d1 = CACHE_CLEAN" "dv_disk d1 = dev_view d" "same_env d d1" and
    eq: "device_cache_block block d =
      (case set_pos (block * dv_block_size d1) d1 of
         (False, d) \<Rightarrow> (False, d)
       | (True, d) \<Rightarrow>
           (case fread_cache (unat (dv_block_size d)) d of
              (False, d) \<Rightarrow> (False, d)
            | (True, d) \<Rightarrow> (True, d\<lparr>dv_cached_block := block\<rparr>)))" by blast
  have bs: "dv_block_size d1 = dv_block_size d" and ld: "length (dv_disk d1) = length (dv_disk d)"
    using d1(4) by (simp_all add: same_env_def)
  from d1(1) have base: "dev_base d1" by (simp add: dev_ok_def)
  then have len: "length (dv_cache d1) = ?n" and nf: "dv_faults d1 = []"
    by (simp_all add: dev_base_def bs)
  have mult: "unat (block * dv_block_size d1) = ?p"
    using no_wrap by (simp add: bs unat_mult_no_wrap)
  show ?thesis
  proof (cases "2 ^ 63 \<le> ?p")
    case True
    then have "device_cache_block block d = (False, d1)"
      using nf by (simp add: eq set_pos_none mult)
    with d1 base show ?thesis by (simp add: dev_failed_def)
  next
    case False
    let ?got = "slice_at (dv_disk d1) ?p ?n"
    have short: "length ?got < ?n"
      using out ld n by (simp add: slice_at_def)
    let ?d' = "d1\<lparr>dv_pos := ?p + length ?got, dv_cache := splice_at (dv_cache d1) 0 ?got\<rparr>"
    have "device_cache_block block d = (False, ?d')"
      using nf False short by (simp add: eq set_pos_none mult [unfolded bs] fread_cache_def next_fault_none Let_def bs)
    moreover have "dev_base ?d'"
      using base short len by (simp add: dev_base_def bs)
    ultimately show ?thesis using d1 by (auto simp: dev_failed_def same_env_def)
  qed
qed


section \<open>One turn of a transfer\<close>

lemma word_position:
  assumes "unat (loc :: u64) + unat (progress :: u64) < 2 ^ 64"
  shows "unat ((loc + progress) div bs) = (unat loc + unat progress) div unat bs \<and>
    unat ((loc + progress) mod bs) = (unat loc + unat progress) mod unat bs"
  using assms by (simp add: unat_div unat_mod unat_add_no_wrap)

lemma position_split:
  assumes "0 < (n :: nat)" "a < len div n * n"
  shows "a div n * n + a mod n = a" "(a div n + 1) * n \<le> len" "a mod n < n"
    "k \<le> n - a mod n \<Longrightarrow> a + k \<le> (a div n + 1) * n" "(a div n + 1) * n \<le> len div n * n"
proof -
  show eq: "a div n * n + a mod n = a" by (rule div_mult_mod_eq)
  show "(a div n + 1) * n \<le> len" using block_in_range [OF assms(1), of a len] assms(2) by blast
  show m: "a mod n < n" using assms(1) by simp
  show "a + k \<le> (a div n + 1) * n" if "k \<le> n - a mod n"
  proof -
    have "a + k \<le> a div n * n + (a mod n + (n - a mod n))" using eq that by linarith
    also have "\<dots> = (a div n + 1) * n" using m by simp
    finally show ?thesis .
  qed
  have "a div n < len div n" using assms div_less_iff_less_mult [OF assms(1), of a "len div n"] by simp
  then show "(a div n + 1) * n \<le> len div n * n" by (intro mult_le_mono1) simp
qed

lemma cache_position:
  assumes ok: "dev_ok d" and pos: "unat loc + unat progress < dev_size d" and more: "progress < count"
  defines "bs \<equiv> dv_block_size d" and "a \<equiv> unat loc + unat progress"
  defines "k \<equiv> unat (chunk_size bs loc count progress)" and "off \<equiv> unat ((loc + progress) mod bs)"
  shows "\<exists>d1. device_cache_block ((loc + progress) div bs) d = (True, d1) \<and> dev_ok d1 \<and>
    dev_view d1 = dev_view d \<and> same_env d d1 \<and> carries {} d d1 \<and> dv_cached_block d1 \<noteq> - 1 \<and>
    unat (dv_cached_block d1) * unat bs + off = a \<and>
    dv_cache d1 = slice_at (dev_view d) (a - off) (unat bs) \<and>
    off + k \<le> unat bs \<and> a - off + unat bs \<le> dev_size d \<and> off \<le> a \<and> a + k \<le> dev_size d"
proof -
  let ?n = "unat bs" and ?block = "(loc + progress) div bs"
  from ok have base: "dev_base d" by (simp add: dev_ok_def)
  then have n: "0 < ?n" "bs \<noteq> 0" and len: "length (dv_disk d) < 2 ^ 63"
    using dev_base_block_size [OF base] by (auto simp: dev_base_def bs_def)
  have size: "dev_size d = length (dv_disk d) div ?n * ?n" by (simp add: dev_size_def bs_def)
  have a: "a < length (dv_disk d) div ?n * ?n" using pos by (simp add: a_def size)
  have "a < 2 ^ 64" using pos dev_size_le [of d] len by (simp add: a_def)
  then have blk: "unat ?block = a div ?n" "off = a mod ?n"
    using word_position [of loc progress bs] by (simp_all add: a_def off_def)
  note split = position_split [OF n(1) a]
  obtain d1 where d1: "device_cache_block ?block d = (True, d1)" "dev_ok d1" "dv_cached_block d1 = ?block"
    "dev_view d1 = dev_view d" "same_env d d1" "carries {} d d1" "dv_cache d1 = slice_at (dev_view d) (unat ?block * ?n) ?n"
    using cache_block_in [OF ok, of ?block] split(2) blk(1) unfolding bs_def [symmetric] by auto
  have k: "k \<le> ?n - a mod ?n"
    using chunk_size_bounds(3) [OF n(2) more, of loc] blk(2) by (simp add: k_def off_def)
  have "?block \<noteq> - 1"
  proof
    assume "?block = - 1"
    then have "2 ^ 64 - 1 = a div ?n" using blk(1) unat_max_word [where 'a = 64] by simp
    also have "\<dots> \<le> a" by simp
    finally show False using pos dev_size_le [of d] len by (simp add: a_def)
  qed
  moreover have "a - off = a div ?n * ?n" using split(1) blk(2) by linarith
  moreover have "a - off + ?n \<le> dev_size d" using calculation(2) split(5) by (simp add: size)
  moreover have "a + k \<le> dev_size d" using split(4) [OF k] split(5) by (simp only: size)
  moreover have "off \<le> a" using blk(2) by simp
  moreover have "off + k \<le> ?n" using k split(3) blk(2) by linarith
  moreover have "unat ?block * ?n + off = a" using blk split(1) by simp
  ultimately show ?thesis using d1 blk(1) by (intro exI [of _ d1]) simp
qed


lemma read_step:
  assumes ok: "dev_ok d" and pos: "unat loc + unat progress < dev_size d" and more: "progress < count"
  defines "k \<equiv> chunk_size (dv_block_size d) loc count progress"
  shows "\<exists>d1. dev_ok d1 \<and> dev_view d1 = dev_view d \<and> same_env d d1 \<and> carries {} d d1 \<and>
    unat loc + unat progress + unat k \<le> dev_size d \<and>
    device_read_loop loc count progress buffer d = device_read_loop loc count (progress + k)
      (buffer @ slice_at (dev_view d) (unat loc + unat progress) (unat k)) d1"
proof -
  let ?bs = "dv_block_size d" and ?a = "unat loc + unat progress"
  let ?off = "unat ((loc + progress) mod ?bs)"
  obtain d1 where d1: "device_cache_block ((loc + progress) div ?bs) d = (True, d1)" "dev_ok d1"
    "dev_view d1 = dev_view d" "same_env d d1" "carries {} d d1"
    and cache: "dv_cache d1 = slice_at (dev_view d) (?a - ?off) (unat ?bs)"
    and arith: "?off + unat k \<le> unat ?bs" "?a - ?off + unat ?bs \<le> dev_size d" "?off \<le> ?a"
      "?a + unat k \<le> dev_size d"
    using cache_position [OF ok pos more] unfolding k_def by blast
  have "?a - ?off + unat ?bs \<le> length (dev_view d)"
    using arith(2) dev_size_le [of d] length_dev_view [OF ok] by linarith
  then have "slice_at (dv_cache d1) ?off (unat k) = slice_at (dev_view d) ?a (unat k)"
    using slice_slice [OF arith(1), of "?a - ?off" "dev_view d"] arith(3) by (simp add: cache)
  moreover have "?bs \<noteq> 0" using ok dev_base_block_size by (auto simp: dev_ok_def)
  ultimately have "device_read_loop loc count progress buffer d = device_read_loop loc count (progress + k)
      (buffer @ slice_at (dev_view d) ?a (unat k)) d1"
    using more d1(1) by (simp add: device_read_loop.simps [of loc count progress] Let_def k_def)
  with d1 arith(4) show ?thesis by blast
qed

lemma view_overwrite:
  assumes ok: "dev_ok d" and blk: "dv_cached_block d \<noteq> - 1" and fits: "off + length ys \<le> unat (dv_block_size d)"
    and cache: "dv_cache d = slice_at (dev_view d) (unat (dv_cached_block d) * unat (dv_block_size d)) (unat (dv_block_size d))"
  defines "d' \<equiv> d\<lparr>dv_cache := splice_at (dv_cache d) off ys, dv_cache_state := CACHE_DIRTY\<rparr>"
  shows "dev_ok d'" "same_env d d'"
    "carries {unat (dv_cached_block d) * unat (dv_block_size d) + off ..<
       unat (dv_cached_block d) * unat (dv_block_size d) + off + length ys} d d'"
    "dev_view d' = splice_at (dev_view d) (unat (dv_cached_block d) * unat (dv_block_size d) + off) ys"
proof -
  let ?n = "unat (dv_block_size d)" and ?p = "unat (dv_cached_block d) * unat (dv_block_size d)"
  from ok blk have base: "dev_base d" and e: "?p + ?n \<le> length (dv_disk d)"
    by (auto simp: dev_ok_def algebra_simps)
  from base have len: "length (dv_cache d) = ?n" by (simp add: dev_base_def)
  show "dev_ok d'" using base e blk fits len
    by (simp add: dev_ok_def dev_base_def d'_def algebra_simps)
  show "same_env d d'" by (simp add: same_env_def d'_def)
  have "dev_view d' = splice_at (dv_disk d) ?p (splice_at (dv_cache d) off ys)"
    by (simp add: dev_view_def d'_def)
  also have "\<dots> = splice_at (dev_view d) ?p (splice_at (dv_cache d) off ys)"
    using e len fits by (simp add: dev_view_def splice_splice_over)
  also have "\<dots> = splice_at (dev_view d) (?p + off) ys"
    unfolding cache using e fits length_dev_view [OF ok] by (intro splice_slice_inner) simp_all
  finally show view: "dev_view d' = splice_at (dev_view d) (?p + off) ys" .
  show "carries {?p + off ..< ?p + off + length ys} d d'"
    unfolding carries_def view using e fits length_dev_view [OF ok]
    by (auto simp: nth_splice d'_def)
qed

lemma write_step:
  assumes ok: "dev_ok d" and pos: "unat loc + unat progress < dev_size d" and more: "progress < count"
    and buffer: "length buffer = unat count"
  defines "k \<equiv> chunk_size (dv_block_size d) loc count progress"
  shows "\<exists>d1. dev_ok d1 \<and> same_env d d1 \<and> unat loc + unat progress + unat k \<le> dev_size d \<and>
    carries {unat loc + unat progress ..< unat loc + unat progress + unat k} d d1 \<and>
    dev_view d1 = splice_at (dev_view d) (unat loc + unat progress) (slice_at buffer (unat progress) (unat k)) \<and>
    device_write_loop buffer loc count progress d = device_write_loop buffer loc count (progress + k) d1"
proof -
  let ?bs = "dv_block_size d" and ?a = "unat loc + unat progress"
  let ?off = "unat ((loc + progress) mod ?bs)" and ?ys = "slice_at buffer (unat progress) (unat k)"
  obtain d1 where d1: "device_cache_block ((loc + progress) div ?bs) d = (True, d1)" "dev_ok d1"
    "dev_view d1 = dev_view d" "same_env d d1" "carries {} d d1" "dv_cached_block d1 \<noteq> - 1"
    and blk: "unat (dv_cached_block d1) * unat ?bs + ?off = ?a"
    and cache: "dv_cache d1 = slice_at (dev_view d) (?a - ?off) (unat ?bs)"
    and arith: "?off + unat k \<le> unat ?bs" "?a + unat k \<le> dev_size d"
    using cache_position [OF ok pos more] unfolding k_def by blast
  have bs: "dv_block_size d1 = ?bs" "?bs \<noteq> 0"
    using d1(4) ok dev_base_block_size by (auto simp: dev_ok_def same_env_def)
  have "unat progress + unat k \<le> unat count"
    using chunk_size_bounds(2) [OF bs(2) more, of loc] more by (simp add: k_def word_less_nat_alt)
  then have ys: "length ?ys = unat k" using buffer by simp
  have off: "?a - ?off = unat (dv_cached_block d1) * unat ?bs" using blk by linarith
  let ?d2 = "d1\<lparr>dv_cache := splice_at (dv_cache d1) ?off ?ys, dv_cache_state := CACHE_DIRTY\<rparr>"
  have "?off + length ?ys \<le> unat (dv_block_size d1)"
    "dv_cache d1 = slice_at (dev_view d1) (unat (dv_cached_block d1) * unat (dv_block_size d1)) (unat (dv_block_size d1))"
    using arith ys cache d1(3) by (simp_all add: bs off)
  note over = view_overwrite [OF d1(2,6) this]
  have "device_write_loop buffer loc count progress d = device_write_loop buffer loc count (progress + k) ?d2"
    using more bs(2) d1(1) by (simp add: device_write_loop.simps [of buffer loc count progress] Let_def k_def)
  moreover have "dev_view ?d2 = splice_at (dev_view d) ?a ?ys"
    using over(4) d1(3) by (simp add: bs blk)
  moreover have "carries {?a ..< ?a + unat k} d ?d2"
    using carries_trans [OF carries_mono [OF d1(5)] over(3)] ys by (simp add: bs blk)
  moreover have "same_env d ?d2" using same_env_trans [OF d1(4) over(2)] .
  ultimately show ?thesis using over(1) arith(2) by (intro exI [of _ ?d2]) simp
qed

lemma cache_position_out:
  assumes ok: "dev_ok d" and a: "dev_size d \<le> unat loc + unat progress" "unat loc + unat progress < 2 ^ 64"
  shows "\<exists>d'. device_cache_block ((loc + progress) div dv_block_size d) d = (False, d') \<and>
    dev_failed (dev_view d) d' \<and> same_env d d'"
proof (rule cache_block_out [OF ok])
  let ?n = "unat (dv_block_size d)" and ?a = "unat loc + unat progress"
  from ok have "dev_base d" by (simp add: dev_ok_def)
  then have n: "0 < ?n" using dev_base_block_size [of d] by auto
  have blk: "unat ((loc + progress) div dv_block_size d) = ?a div ?n"
    using word_position [OF a(2)] by simp
  have "?a div ?n * ?n \<le> ?a" by (rule div_times_less_eq_dividend)
  then show "unat ((loc + progress) div dv_block_size d) * ?n < 2 ^ 64" using a(2) by (simp only: blk)
  show "length (dv_disk d) < (unat ((loc + progress) div dv_block_size d) + 1) * ?n"
    using block_in_range [OF n, of ?a "length (dv_disk d)"] a(1) unfolding blk dev_size_def by linarith
qed


section \<open>Reads and writes as operations on the bytes\<close>

abbreviation in_dev :: "dev \<Rightarrow> u64 \<Rightarrow> u64 \<Rightarrow> bool" where
  "in_dev d loc count \<equiv> count = 0 \<or> unat loc + unat count \<le> dev_size d"

lemma read_loop_in:
  assumes "dev_ok d" "unat loc + unat count \<le> dev_size d" "unat progress \<le> unat count"
  shows "\<exists>d'. device_read_loop loc count progress buffer d =
      (Ret (buffer @ slice_at (dev_view d) (unat loc + unat progress) (unat count - unat progress)), d') \<and>
    dev_ok d' \<and> dev_view d' = dev_view d \<and> same_env d d' \<and> carries {} d d'"
  using assms
proof (induction "unat count - unat progress" arbitrary: progress buffer d rule: less_induct)
  case less
  let ?k = "chunk_size (dv_block_size d) loc count progress" and ?a = "unat loc + unat progress"
  show ?case
  proof (cases "progress < count")
    case False
    then have "unat progress = unat count" using less.prems(3) by (simp add: word_less_nat_alt)
    with False less.prems(1) show ?thesis by (simp add: device_read_loop.simps [of loc count progress])
  next
    case True
    then have lt: "unat progress < unat count" by (simp add: word_less_nat_alt)
    then have pos: "?a < dev_size d" using less.prems(2) by linarith
    obtain d1 where d1: "dev_ok d1" "dev_view d1 = dev_view d" "same_env d d1" "carries {} d d1"
      and eq: "device_read_loop loc count progress buffer d = device_read_loop loc count (progress + ?k)
        (buffer @ slice_at (dev_view d) ?a (unat ?k)) d1"
      using read_step [OF less.prems(1) pos True] by blast
    have bs: "dv_block_size d \<noteq> 0" using less.prems(1) dev_base_block_size by (auto simp: dev_ok_def)
    note chunk = chunk_size_bounds(1,2) [OF bs True, of loc] chunk_progress [OF bs True, of loc]
      chunk_decreases [OF bs True, of loc]
    have size: "dev_size d1 = dev_size d" by (rule same_env_size [OF d1(3)])
    have "unat (progress + ?k) \<le> unat count" using chunk lt by linarith
    note IH = less.hyps [OF chunk(4) d1(1) less.prems(2) [folded size] this]
    have fits: "?a + unat ?k + (unat count - unat (progress + ?k)) \<le> length (dev_view d)"
      using chunk lt less.prems(2) dev_size_le [of d] length_dev_view [OF less.prems(1)] by linarith
    have "slice_at (dev_view d) ?a (unat ?k) @
        slice_at (dev_view d) (unat loc + unat (progress + ?k)) (unat count - unat (progress + ?k)) =
      slice_at (dev_view d) ?a (unat count - unat progress)"
      using slice_append_slice [OF fits] chunk lt by (simp add: add.assoc)
    with IH [of "buffer @ slice_at (dev_view d) ?a (unat ?k)"] d1 show ?thesis
      unfolding eq by (auto intro: same_env_trans carries_trans)
  qed
qed

lemma read_loop_out:
  assumes "dev_ok d" "dev_size d < unat loc + unat count" "unat progress < unat count"
    "unat progress = 0 \<or> unat loc + unat progress \<le> dev_size d"
  shows "\<exists>d'. device_read_loop loc count progress buffer d = (Bail, d') \<and>
    dev_failed (dev_view d) d' \<and> same_env d d'"
  using assms
proof (induction "unat count - unat progress" arbitrary: progress buffer d rule: less_induct)
  case less
  let ?k = "chunk_size (dv_block_size d) loc count progress" and ?a = "unat loc + unat progress"
  have more: "progress < count" using less.prems(3) by (simp add: word_less_nat_alt)
  have base: "dev_base d" using less.prems(1) by (simp add: dev_ok_def)
  have bs: "dv_block_size d \<noteq> 0" using dev_base_block_size [OF base] by simp
  show ?case
  proof (cases "?a < dev_size d")
    case False
    have "?a < 2 ^ 64"
      using less.prems(4) dev_size_le [of d] base unsigned_less [of loc, where 'a = nat]
      by (auto simp: dev_base_def)
    moreover have "dev_size d \<le> ?a" using False by simp
    ultimately obtain d' where "device_cache_block ((loc + progress) div dv_block_size d) d = (False, d')"
      "dev_failed (dev_view d) d'" "same_env d d'"
      using cache_position_out [OF less.prems(1)] by blast
    with more bs show ?thesis by (simp add: device_read_loop.simps [of loc count progress] Let_def)
  next
    case True
    obtain d1 where d1: "dev_ok d1" "dev_view d1 = dev_view d" "same_env d d1"
      and le: "?a + unat ?k \<le> dev_size d"
      and eq: "device_read_loop loc count progress buffer d = device_read_loop loc count (progress + ?k)
        (buffer @ slice_at (dev_view d) ?a (unat ?k)) d1"
      using read_step [OF less.prems(1) True more] by blast
    note chunk = chunk_progress [OF bs more, of loc] chunk_decreases [OF bs more, of loc]
    have size: "dev_size d1 = dev_size d" by (rule same_env_size [OF d1(3)])
    have le': "unat loc + unat (progress + ?k) \<le> dev_size d1" using le chunk(1) by (simp add: size)
    then have "unat (progress + ?k) < unat count" using less.prems(2) by (simp add: size)
    from less.hyps [OF chunk(2) d1(1) less.prems(2) [folded size] this disjI2 [OF le']]
    show ?thesis unfolding eq using d1 by (metis same_env_trans)
  qed
qed

lemma device_read_in:
  assumes "dev_ok d" "in_dev d loc count"
  shows "\<exists>d'. device_read loc count d = (Ret (slice_at (dev_view d) (unat loc) (unat count)), d') \<and>
    dev_ok d' \<and> dev_view d' = dev_view d \<and> same_env d d' \<and> carries {} d d'"
proof (cases "count = 0")
  case True
  with assms(1) show ?thesis by (simp add: device_read_def device_read_loop.simps)
next
  case False
  with assms read_loop_in [of d loc count 0 "[]"] show ?thesis by (simp add: device_read_def)
qed

lemma device_read_out:
  assumes "dev_ok d" "\<not> in_dev d loc count"
  shows "\<exists>d'. device_read loc count d = (Bail, d') \<and> dev_failed (dev_view d) d' \<and> same_env d d'"
  using assms read_loop_out [of d loc count 0 "[]"] by (simp add: device_read_def unat_gt_0)


abbreviation byte_range :: "u64 \<Rightarrow> u64 \<Rightarrow> nat set" where
  "byte_range loc count \<equiv> {unat loc ..< unat loc + unat count}"

lemma write_loop_in:
  assumes "dev_ok d" "unat loc + unat count \<le> dev_size d" "unat progress \<le> unat count"
    "length buffer = unat count"
  shows "\<exists>d'. device_write_loop buffer loc count progress d = (Ret (), d') \<and> dev_ok d' \<and>
    dev_view d' = splice_at (dev_view d) (unat loc + unat progress) (drop (unat progress) buffer) \<and>
    same_env d d' \<and> carries (byte_range loc count) d d'"
  using assms
proof (induction "unat count - unat progress" arbitrary: progress d rule: less_induct)
  case less
  let ?k = "chunk_size (dv_block_size d) loc count progress" and ?a = "unat loc + unat progress"
  show ?case
  proof (cases "progress < count")
    case False
    then have "unat progress = unat count" using less.prems(3) by (simp add: word_less_nat_alt)
    with False less.prems(1,4) show ?thesis
      by (simp add: device_write_loop.simps [of buffer loc count progress])
  next
    case True
    then have lt: "unat progress < unat count" by (simp add: word_less_nat_alt)
    then have pos: "?a < dev_size d" using less.prems(2) by linarith
    obtain d1 where d1: "dev_ok d1" "same_env d d1" "?a + unat ?k \<le> dev_size d"
        "carries {?a ..< ?a + unat ?k} d d1"
        "dev_view d1 = splice_at (dev_view d) ?a (slice_at buffer (unat progress) (unat ?k))"
      and eq: "device_write_loop buffer loc count progress d = device_write_loop buffer loc count (progress + ?k) d1"
      using write_step [OF less.prems(1) pos True less.prems(4)] by blast
    have bs: "dv_block_size d \<noteq> 0" using less.prems(1) dev_base_block_size by (auto simp: dev_ok_def)
    note chunk = chunk_size_bounds(1,2) [OF bs True, of loc] chunk_progress [OF bs True, of loc]
      chunk_decreases [OF bs True, of loc]
    have size: "dev_size d1 = dev_size d" by (rule same_env_size [OF d1(2)])
    have sum: "unat progress + unat ?k \<le> unat count" using chunk lt by linarith
    then have le: "unat (progress + ?k) \<le> unat count" by (simp only: chunk(3))
    obtain d2 where d2: "device_write_loop buffer loc count (progress + ?k) d1 = (Ret (), d2)" "dev_ok d2"
      "dev_view d2 = splice_at (dev_view d1) (unat loc + unat (progress + ?k)) (drop (unat (progress + ?k)) buffer)"
      "same_env d1 d2" "carries (byte_range loc count) d1 d2"
      using less.hyps [OF chunk(4) d1(1) less.prems(2) [folded size] le less.prems(4)] by blast
    define ys where "ys = slice_at buffer (unat progress) (unat ?k)"
    define zs where "zs = drop (unat (progress + ?k)) buffer"
    have ys: "length ys = unat ?k" "length zs = unat count - (unat progress + unat ?k)"
      "ys @ zs = drop (unat progress) buffer"
      using sum less.prems(4) by (simp_all add: ys_def zs_def chunk(3) slice_at_def add.commute [of "unat progress"] flip: drop_drop)
    have fits: "?a + length ys + length zs \<le> length (dev_view d)"
      using ys sum less.prems(2) dev_size_le [of d] length_dev_view [OF less.prems(1)] by linarith
    have "dev_view d2 = splice_at (splice_at (dev_view d) ?a ys) (?a + length ys) zs"
      using d2(3) [folded zs_def] d1(5) [folded ys_def] by (simp add: ys(1) chunk(3) add.assoc)
    then have "dev_view d2 = splice_at (dev_view d) ?a (drop (unat progress) buffer)"
      using splice_append [OF fits] ys(3) by simp
    moreover have "carries (byte_range loc count) d d2"
      using carries_trans [OF carries_mono [OF d1(4)] d2(5)] sum by auto
    ultimately show ?thesis unfolding eq using d2 same_env_trans [OF d1(2) d2(4)] by blast
  qed
qed

text \<open>The log entry of a write, and the write itself while an installation is running.\<close>

definition log_entry :: "dev \<Rightarrow> u64 \<Rightarrow> u64 \<Rightarrow> uninstall_data" where
  "log_entry d loc count =
     \<lparr>ud_data = slice_at (dev_view d) (unat loc) (unat count), ud_loc = loc, ud_count = count\<rparr>"

lemma raw_write_in:
  assumes "dev_ok d" "in_dev d loc count" "length buffer = unat count"
  shows "\<exists>d'. device_write_loop buffer loc count 0 d = (Ret (), d') \<and> dev_ok d' \<and>
    dev_view d' = splice_at (dev_view d) (unat loc) buffer \<and> same_env d d' \<and> carries (byte_range loc count) d d'"
proof (cases "count = 0")
  case True
  with assms show ?thesis by (simp add: device_write_loop.simps)
next
  case False
  with assms write_loop_in [of d loc count 0 buffer] show ?thesis by simp
qed

definition logs :: "dev \<Rightarrow> dev \<Rightarrow> uninstall_data \<Rightarrow> bool" where
  "logs d d' e \<longleftrightarrow> dv_block_size d' = dv_block_size d \<and> dv_uninstalling d' = dv_uninstalling d \<and>
     dv_uninstall_data d' = (dv_uninstall_data d)[unat (dv_uninstall_data_i d) := e] \<and>
     dv_uninstall_data_rev d' = dv_uninstall_data_rev d \<and>
     unat (dv_uninstall_data_i d') = unat (dv_uninstall_data_i d) + 1 \<and>
     length (dv_disk d') = length (dv_disk d)"

lemma dev_ok_log: "dev_ok (d\<lparr>dv_uninstall_data := l, dv_uninstall_data_i := i\<rparr>) = dev_ok d"
  by (simp add: dev_ok_def dev_base_def)

lemma dev_view_log: "dev_view (d\<lparr>dv_uninstall_data := l, dv_uninstall_data_i := i\<rparr>) = dev_view d"
  by (simp add: dev_view_def)

lemma dev_log_simps [simp]:
  "dev_ok (d\<lparr>dv_uninstall_data := l\<rparr>) = dev_ok d" "dev_ok (d\<lparr>dv_uninstall_data_i := i\<rparr>) = dev_ok d"
  "dev_view (d\<lparr>dv_uninstall_data := l\<rparr>) = dev_view d" "dev_view (d\<lparr>dv_uninstall_data_i := i\<rparr>) = dev_view d"
  "dev_size (d\<lparr>dv_uninstall_data := l\<rparr>) = dev_size d" "dev_size (d\<lparr>dv_uninstall_data_i := i\<rparr>) = dev_size d"
  "carries X (d\<lparr>dv_uninstall_data := l\<rparr>) d' = carries X d d'" "carries X d (d'\<lparr>dv_uninstall_data_i := i\<rparr>) = carries X d d'"
  "carries X d (d'\<lparr>dv_uninstall_data := l\<rparr>) = carries X d d'"
  by (simp_all add: dev_ok_def dev_base_def dev_view_def dev_size_def carries_def)

lemma save_old_in:
  assumes ok: "dev_ok d" and fits: "in_dev d loc count" and room: "dv_uninstall_data_i d < UNINSTALL_DATA_MAX"
  shows "\<exists>d1. save_old loc count d = (Ret (), d1\<lparr>dv_uninstall_data := (dv_uninstall_data d)
      [unat (dv_uninstall_data_i d) := log_entry d loc count]\<rparr>) \<and>
    dev_ok d1 \<and> dev_view d1 = dev_view d \<and> same_env d d1 \<and> carries {} d d1"
proof -
  have nf: "dv_faults d = []" using ok by (simp add: dev_ok_def dev_base_def)
  obtain d1 where d1: "device_read loc count d = (Ret (slice_at (dev_view d) (unat loc) (unat count)), d1)"
    "dev_ok d1" "dev_view d1 = dev_view d" "same_env d d1" "carries {} d d1"
    using device_read_in [OF ok fits] by blast
  moreover have "dv_uninstall_data d1 = dv_uninstall_data d" "dv_uninstall_data_i d1 = dv_uninstall_data_i d"
    using d1(4) by (simp_all add: same_env_def)
  ultimately show ?thesis
    using room nf by (intro exI [of _ d1]) (simp add: save_old_def next_fault_none log_entry_def not_le)
qed

lemma device_write_in:
  assumes ok: "dev_ok d" and inst: "\<not> dv_uninstalling d" and fits: "in_dev d loc count"
    and buffer: "length buffer = unat count" and room: "dv_uninstall_data_i d < UNINSTALL_DATA_MAX"
  shows "\<exists>d'. device_write buffer loc count d = (Ret (), d') \<and> dev_ok d' \<and>
    dev_view d' = splice_at (dev_view d) (unat loc) buffer \<and> logs d d' (log_entry d loc count) \<and>
    carries (byte_range loc count) d d'"
proof -
  let ?l = "(dv_uninstall_data d)[unat (dv_uninstall_data_i d) := log_entry d loc count]"
  obtain d1 where save: "save_old loc count d = (Ret (), d1\<lparr>dv_uninstall_data := ?l\<rparr>)"
    and d1: "dev_ok d1" "dev_view d1 = dev_view d" "same_env d d1" "carries {} d d1"
    using save_old_in [OF ok fits room] by blast
  let ?d1 = "d1\<lparr>dv_uninstall_data := ?l\<rparr>"
  have ok1: "dev_ok ?d1" and fits1: "in_dev ?d1 loc count"
    using d1 fits same_env_size [OF d1(3)] by simp_all
  obtain d2 where d2: "device_write_loop buffer loc count 0 ?d1 = (Ret (), d2)" "dev_ok d2"
    "dev_view d2 = splice_at (dev_view ?d1) (unat loc) buffer" "same_env ?d1 d2"
    "carries (byte_range loc count) ?d1 d2"
    using raw_write_in [OF ok1 fits1 buffer] by blast
  let ?d' = "d2\<lparr>dv_uninstall_data_i := dv_uninstall_data_i d2 + 1\<rparr>"
  have un: "\<not> dv_uninstalling d2" using inst d1(3) d2(4) by (simp add: same_env_def)
  have "device_write buffer loc count d = (Ret (), ?d')"
    using inst un by (simp add: device_write_def save d2(1))
  moreover have "unat (dv_uninstall_data_i d + 1) = unat (dv_uninstall_data_i d) + 1"
    using room by (subst unat_add_no_wrap) (simp_all add: word_less_nat_alt UNINSTALL_DATA_MAX_def)
  then have "logs d ?d' (log_entry d loc count)"
    using d1(3) d2(4) by (simp add: same_env_def logs_def)
  moreover have "carries (byte_range loc count) d ?d'"
    using carries_trans [OF carries_mono [OF d1(4)]] d2(5) by simp
  ultimately show ?thesis using d2(2,3) d1(2) by (intro exI [of _ ?d']) simp
qed

lemma device_write_fails:
  assumes ok: "dev_ok d" and inst: "\<not> dv_uninstalling d"
    and no: "\<not> in_dev d loc count \<or> \<not> dv_uninstall_data_i d < UNINSTALL_DATA_MAX"
  shows "\<exists>d'. device_write buffer loc count d = (Bail, d') \<and> same_env d d' \<and>
    (dev_failed (dev_view d) d' \<or> d' = d)"
proof -
  have nf: "dv_faults d = []" using ok by (simp add: dev_ok_def dev_base_def)
  have "\<exists>d'. save_old loc count d = (Bail, d') \<and> same_env d d' \<and> (dev_failed (dev_view d) d' \<or> d' = d)"
  proof (cases "dv_uninstall_data_i d < UNINSTALL_DATA_MAX")
    case True
    with no device_read_out [OF ok, of count loc] obtain d' where
      "device_read loc count d = (Bail, d')" "dev_failed (dev_view d) d'" "same_env d d'" by blast
    with True nf show ?thesis by (intro exI [of _ d']) (simp add: save_old_def next_fault_none)
  qed (simp add: save_old_def not_less)
  then show ?thesis using inst by (auto simp: device_write_def)
qed


section \<open>Opening the device\<close>

lemma device_init_small:
  "dv_faults d = [] \<Longrightarrow> length (dv_disk d) < 512 \<Longrightarrow> fst (device_init d) = False"
  by (simp add: device_init_def next_fault_none fread_cache_def slice_at_def Let_def)

lemma device_init_ok:
  assumes "dv_faults d = []" "512 \<le> length (dv_disk d)" "length (dv_disk d) < 2 ^ 63"
  shows "\<exists>d'. device_init d = (True, d') \<and> dev_ok d' \<and> dev_view d' = dv_disk d \<and> dv_disk d' = dv_disk d \<and>
    dv_block_size d' = 512 \<and> dv_uninstalling d' = dv_uninstalling d \<and>
    dv_uninstall_data d' = dv_uninstall_data d \<and> dv_uninstall_data_rev d' = dv_uninstall_data_rev d \<and>
    dv_uninstall_data_i d' = dv_uninstall_data_i d"
proof -
  let ?d' = "d\<lparr>dv_pos := 512, dv_cache := slice_at (dv_disk d) 0 512, dv_block_size := 512,
    dv_cache_state := CACHE_CLEAN, dv_cached_block := 0\<rparr>"
  have "device_init d = (True, ?d')"
    using assms by (simp add: device_init_def next_fault_none fread_cache_def Let_def splice_at_def)
  moreover have "dev_ok ?d'" using assms by (simp add: dev_ok_def dev_base_def)
  ultimately show ?thesis by (simp add: dev_view_def)
qed

section \<open>The interface of a byte store\<close>

text \<open>
  What the installer relies on: in range, a read returns the bytes and changes none, and a write
  replaces exactly its range and takes one place in the log, as long as there is room.
\<close>

fun write_all ::
    "(u8 list \<Rightarrow> u64 \<Rightarrow> u64 \<Rightarrow> 's \<Rightarrow> unit outcome \<times> 's) \<Rightarrow> (u8 list \<times> u64) list \<Rightarrow> 's \<Rightarrow> unit outcome \<times> 's" where
  "write_all wr [] s = (Ret (), s)"
| "write_all wr ((buffer, loc) # ws) s =
     (case wr buffer loc (of_nat (length buffer)) s of
        (Ret _, s) \<Rightarrow> write_all wr ws s
      | (Bail, s) \<Rightarrow> (Bail, s)
      | (Undefined, s) \<Rightarrow> (Undefined, s))"

lemma write_all_pbind:
  "write_all wr ((buffer, loc) # ws) = pbind (wr buffer loc (of_nat (length buffer))) (\<lambda>_. write_all wr ws)"
  by (auto simp: pbind_def split: outcome.splits prod.splits)

definition apply_writes :: "(u8 list \<times> u64) list \<Rightarrow> u8 list \<Rightarrow> u8 list" where
  "apply_writes ws v = foldl (\<lambda>v (buffer, loc). splice_at v (unat loc) buffer) v ws"

definition writes_fit :: "nat \<Rightarrow> (u8 list \<times> u64) list \<Rightarrow> bool" where
  "writes_fit n ws \<longleftrightarrow> (\<forall>(buffer, loc) \<in> set ws. length buffer < 2 ^ 64 \<and> unat loc + length buffer \<le> n)"

lemma apply_writes_simps [simp]:
  "apply_writes [] v = v"
  "apply_writes ((buffer, loc) # ws) v = apply_writes ws (splice_at v (unat loc) buffer)"
  by (simp_all add: apply_writes_def)

lemma writes_fit_simps [simp]:
  "writes_fit n []"
  "writes_fit n ((buffer, loc) # ws) \<longleftrightarrow>
     length buffer < 2 ^ 64 \<and> unat loc + length buffer \<le> n \<and> writes_fit n ws"
  by (auto simp: writes_fit_def)

lemma length_apply_writes: "writes_fit n ws \<Longrightarrow> n \<le> length v \<Longrightarrow> length (apply_writes ws v) = length v"
  by (induction ws arbitrary: v) auto

text \<open>A byte no write touches keeps its value; a later disjoint run keeps what was written.\<close>

lemma slice_apply_writes:
  "writes_fit n ws \<Longrightarrow> n \<le> length v \<Longrightarrow> i + k \<le> length v \<Longrightarrow>
   \<forall>(buffer, loc) \<in> set ws. i + k \<le> unat loc \<or> unat loc + length buffer \<le> i \<Longrightarrow>
   slice_at (apply_writes ws v) i k = slice_at v i k"
  by (induction ws arbitrary: v) (auto simp: slice_splice_other)

locale byte_store =
  fixes rd :: "u64 \<Rightarrow> u64 \<Rightarrow> 's \<Rightarrow> u8 list outcome \<times> 's"
    and wr :: "u8 list \<Rightarrow> u64 \<Rightarrow> u64 \<Rightarrow> 's \<Rightarrow> unit outcome \<times> 's"
    and ok :: "'s \<Rightarrow> bool" and bytes :: "'s \<Rightarrow> u8 list" and extent :: "'s \<Rightarrow> nat" and room :: "'s \<Rightarrow> nat"
  assumes read_law: "ok s \<Longrightarrow> unat loc + unat count \<le> extent s \<Longrightarrow>
      \<exists>s'. rd loc count s = (Ret (slice_at (bytes s) (unat loc) (unat count)), s') \<and> ok s' \<and>
        bytes s' = bytes s \<and> extent s' = extent s \<and> room s' = room s"
    and write_law: "ok s \<Longrightarrow> unat loc + unat count \<le> extent s \<Longrightarrow> length buffer = unat count \<Longrightarrow> 0 < room s \<Longrightarrow>
      \<exists>s'. wr buffer loc count s = (Ret (), s') \<and> ok s' \<and>
        bytes s' = splice_at (bytes s) (unat loc) buffer \<and> extent s' = extent s \<and> room s' = room s - 1"
    and extent_law: "ok s \<Longrightarrow> extent s \<le> length (bytes s)"
begin

lemma write_all_ok:
  "ok s \<Longrightarrow> writes_fit (extent s) ws \<Longrightarrow> length ws \<le> room s \<Longrightarrow>
   \<exists>s'. write_all wr ws s = (Ret (), s') \<and> ok s' \<and> bytes s' = apply_writes ws (bytes s) \<and>
     extent s' = extent s \<and> room s' = room s - length ws"
proof (induction ws arbitrary: s)
  case Nil
  then show ?case by simp
next
  case (Cons w ws)
  obtain buffer loc where w: "w = (buffer, loc)" by (cases w)
  have len: "unat (of_nat (length buffer) :: u64) = length buffer"
    using Cons.prems(2) by (intro unat_of_nat_lt) (simp add: w)
  from Cons.prems obtain s1 where s1: "wr buffer loc (of_nat (length buffer)) s = (Ret (), s1)" "ok s1"
    "bytes s1 = splice_at (bytes s) (unat loc) buffer" "extent s1 = extent s" "room s1 = room s - 1"
    using write_law [of s loc "of_nat (length buffer)" buffer] len by (auto simp: w)
  have "writes_fit (extent s1) ws" "length ws \<le> room s1"
    using Cons.prems(2,3) s1(4,5) by (simp_all add: w)
  with Cons.IH [OF s1(2)] s1 show ?case by (fastforce simp: w)
qed

lemma read_after_write:
  assumes "ok s" "unat loc + unat count \<le> extent s" "length buffer = unat count" "0 < room s"
  shows "\<exists>s' s''. wr buffer loc count s = (Ret (), s') \<and> rd loc count s' = (Ret buffer, s'') \<and> ok s'' \<and>
    bytes s'' = splice_at (bytes s) (unat loc) buffer"
proof -
  obtain s' where s': "wr buffer loc count s = (Ret (), s')" "ok s'"
    "bytes s' = splice_at (bytes s) (unat loc) buffer" "extent s' = extent s"
    using write_law [OF assms] by blast
  moreover have "unat loc + length buffer \<le> length (bytes s)"
    using assms(2,3) extent_law [OF assms(1)] by simp
  ultimately show ?thesis
    using read_law [OF s'(2), of loc count] assms(2,3) by auto
qed

end

text \<open>The cached device provides it while an installation is running.\<close>

interpretation cached: byte_store device_read device_write "\<lambda>d. dev_ok d \<and> \<not> dv_uninstalling d"
  dev_view dev_size "\<lambda>d. unat UNINSTALL_DATA_MAX - unat (dv_uninstall_data_i d)"
proof unfold_locales
  fix d and loc count :: u64
  assume d: "dev_ok d \<and> \<not> dv_uninstalling d" and fits: "unat loc + unat count \<le> dev_size d"
  then obtain d' where "device_read loc count d = (Ret (slice_at (dev_view d) (unat loc) (unat count)), d')"
    "dev_ok d'" "dev_view d' = dev_view d" "same_env d d'" using device_read_in [of d count loc] by blast
  with d same_env_size [of d d'] show "\<exists>d'. device_read loc count d = (Ret (slice_at (dev_view d) (unat loc) (unat count)), d') \<and>
    (dev_ok d' \<and> \<not> dv_uninstalling d') \<and> dev_view d' = dev_view d \<and> dev_size d' = dev_size d \<and>
    unat UNINSTALL_DATA_MAX - unat (dv_uninstall_data_i d') = unat UNINSTALL_DATA_MAX - unat (dv_uninstall_data_i d)"
    by (intro exI [of _ d']) (simp add: same_env_def)
next
  fix d and loc count :: u64 and buffer :: "u8 list"
  assume d: "dev_ok d \<and> \<not> dv_uninstalling d" and fits: "unat loc + unat count \<le> dev_size d"
    and len: "length buffer = unat count" and room: "0 < unat UNINSTALL_DATA_MAX - unat (dv_uninstall_data_i d)"
  then obtain d' where "device_write buffer loc count d = (Ret (), d')" "dev_ok d'"
    "dev_view d' = splice_at (dev_view d) (unat loc) buffer" "logs d d' (log_entry d loc count)"
    using device_write_in [of d count loc buffer] by (auto simp: word_less_nat_alt)
  with d show "\<exists>d'. device_write buffer loc count d = (Ret (), d') \<and> (dev_ok d' \<and> \<not> dv_uninstalling d') \<and>
    dev_view d' = splice_at (dev_view d) (unat loc) buffer \<and> dev_size d' = dev_size d \<and>
    unat UNINSTALL_DATA_MAX - unat (dv_uninstall_data_i d') = unat UNINSTALL_DATA_MAX - unat (dv_uninstall_data_i d) - 1"
    by (intro exI [of _ d']) (simp add: logs_def dev_size_def)
qed (simp add: length_dev_view dev_size_le)

section \<open>Properties\<close>

text \<open>C15: The cache is invisible: once the device is open and I/O succeeds, a read of any range of
  whole blocks returns the bytes of the device as changed by all earlier writes, a write
  replaces exactly its range, whatever block boundaries the ranges straddle, and the flush
  leaves precisely these bytes on the disk.\<close>

theorem device_is_byte_store:
  assumes "dev_ok d" "\<not> dv_uninstalling d" "unat (dv_uninstall_data_i d) < 256"
    "unat loc + unat count \<le> dev_size d" "length buffer = unat count"
    "unat loc' + unat count' \<le> dev_size d"
  shows "\<exists>d1 d2 d3. device_write buffer loc count d = (Ret (), d1) \<and>
    device_read loc' count' d1 =
      (Ret (slice_at (splice_at (dev_view d) (unat loc) buffer) (unat loc') (unat count')), d2) \<and>
    device_flush_cache d2 = (True, d3) \<and> dv_disk d3 = splice_at (dev_view d) (unat loc) buffer"
proof -
  obtain d1 where d1: "device_write buffer loc count d = (Ret (), d1)" "dev_ok d1 \<and> \<not> dv_uninstalling d1"
    "dev_view d1 = splice_at (dev_view d) (unat loc) buffer" "dev_size d1 = dev_size d"
    using cached.write_law [of d loc count buffer] assms by (auto simp: UNINSTALL_DATA_MAX_def)
  moreover obtain d2 where "device_read loc' count' d1 =
      (Ret (slice_at (dev_view d1) (unat loc') (unat count')), d2)" "dev_ok d2" "dev_view d2 = dev_view d1"
    using cached.read_law [OF d1(2), of loc' count'] d1(4) assms(6) by auto
  ultimately show ?thesis using flush_ok [of d2] by auto
qed

theorem device_is_byte_store_witness:
  "\<exists>d0 d1 d2 d3. device_init (dev_open (replicate 1100 7) []) = (True, d0) \<and>
    device_write [1, 2, 3, 4] 510 4 d0 = (Ret (), d1) \<and>
    device_read 511 2 d1 = (Ret [2, 3], d2) \<and> device_flush_cache d2 = (True, d3) \<and>
    dv_disk d3 = splice_at (replicate 1100 7) 510 [1, 2, 3, 4]"
proof -
  obtain d0 where d0: "device_init (dev_open (replicate 1100 7) []) = (True, d0)" "dev_ok d0"
    "dev_view d0 = replicate 1100 7" "dv_disk d0 = replicate 1100 7" "dv_block_size d0 = 512"
    "\<not> dv_uninstalling d0" "dv_uninstall_data_i d0 = 0"
    using device_init_ok [of "dev_open (replicate 1100 7) []"] by (auto simp: dev_open_def)
  moreover have "slice_at (splice_at (replicate 1100 7) 510 [1, 2, 3, 4 :: u8]) 511 2 = [2, 3]"
    by (simp add: slice_at_def splice_at_def)
  moreover have "dev_size d0 = 1024" using d0 by (simp add: dev_size_def)
  ultimately show ?thesis
    using device_is_byte_store [of d0 510 4 "[1, 2, 3, 4]" 511 2] by (simp add: word_less_nat_alt)
qed

end
