(* ===== verification/Limine_Undo.thy ===== *)
theory Limine_Undo
  imports Limine_Device
begin

text \<open>
  Undoing an installation (\<open>limine.c\<close>): the log that the writes of an installation build is
  reversed, kept in a file for a later \<open>--uninstall\<close> or replayed at once when the installation
  fails. The theory ends with the invariant that the log and the device satisfy at every point of
  an installation, and with rules that carry it through a program built from reads and writes.
\<close>

section \<open>Operations\<close>

text \<open>\<open>reverse_uninstall_data\<close>: \<open>i\<close> counts up and \<open>j\<close> down; the \<open>memcpy\<close> follows.\<close>

definition reverse_uninstall_data :: "dev \<Rightarrow> dev" where
  "reverse_uninstall_data d =
     (let n = unat (dv_uninstall_data_i d);
          r = foldl (\<lambda>r i. r[n - 1 - i := dv_uninstall_data d ! i]) (dv_uninstall_data_rev d) [0..<n]
      in d\<lparr>dv_uninstall_data_rev := r, dv_uninstall_data := splice_at (dv_uninstall_data d) 0 (take n r)\<rparr>)"

text \<open>
  \<open>free_uninstall_data\<close> has no effect on this state, but its loop runs off the static array when the
  counter, which a log file sets, is larger than the array.
\<close>

definition free_uninstall_data :: "unit prog" where
  "free_uninstall_data d =
     (if dv_uninstall_data_i d > UNINSTALL_DATA_MAX then (Undefined, d) else (Ret (), d))"

text \<open>Writing the log file. \<open>fwrite\<close> of one item of no bytes returns 0, which counts as an error.\<close>

definition ud_fwrite :: "u8 list \<Rightarrow> u8 list \<Rightarrow> dev \<Rightarrow> (bool \<times> u8 list) \<times> dev" where
  "ud_fwrite bytes out d =
     (case next_fault d of (bad, d) \<Rightarrow>
        if bad \<or> bytes = [] then ((False, out), d) else ((True, out @ bytes), d))"

fun store_entries :: "bool \<Rightarrow> uninstall_data list \<Rightarrow> u8 list \<Rightarrow> dev \<Rightarrow> (bool \<times> u8 list) \<times> dev" where
  "store_entries be [] out d = ((True, out), d)"
| "store_entries be (ud # uds) out d =
     (case ud_fwrite (store_host be 8 (ud_loc ud)) out d of
        ((False, out), d) \<Rightarrow> ((False, out), d)
      | ((True, out), d) \<Rightarrow>
     (case ud_fwrite (store_host be 8 (ud_count ud)) out d of
        ((False, out), d) \<Rightarrow> ((False, out), d)
      | ((True, out), d) \<Rightarrow>
     (case ud_fwrite (ud_data ud) out d of
        ((False, out), d) \<Rightarrow> ((False, out), d)
      | ((True, out), d) \<Rightarrow> store_entries be uds out d)))"

text \<open>The result is whether it succeeded, and the contents of the file unless it could not be opened.\<close>

definition store_uninstall_data :: "bool \<Rightarrow> dev \<Rightarrow> (bool \<times> u8 list option) \<times> dev" where
  "store_uninstall_data be d =
     (case next_fault d of (bad, d) \<Rightarrow>
        if bad then ((False, None), d)
        else case ud_fwrite (store_host be 8 (dv_uninstall_data_i d)) [] d of
          ((False, out), d) \<Rightarrow> ((False, Some out), d)
        | ((True, out), d) \<Rightarrow>
            (case store_entries be (take (unat (dv_uninstall_data_i d)) (dv_uninstall_data d)) out d of
               ((ok, out), d) \<Rightarrow> ((ok, Some out), d)))"

text \<open>Reading it back: \<open>fread\<close> of one item of \<open>n\<close> bytes fails if fewer are left, or if \<open>n\<close> is 0.\<close>

definition ud_fread :: "nat \<Rightarrow> u8 list \<Rightarrow> dev \<Rightarrow> (u8 list \<times> u8 list) option \<times> dev" where
  "ud_fread n bytes d =
     (case next_fault d of (bad, d) \<Rightarrow>
        if bad \<or> n = 0 \<or> length bytes < n then (None, d) else (Some (take n bytes, drop n bytes), d))"

definition load_entry :: "bool \<Rightarrow> nat \<Rightarrow> u8 list \<Rightarrow> u8 list prog" where
  "load_entry be i bytes d =
     (if i \<ge> length (dv_uninstall_data d) then (Undefined, d)
      else case ud_fread 8 bytes d of
        (None, d) \<Rightarrow> (Bail, d)
      | (Some (loc, bytes), d) \<Rightarrow>
     (case ud_fread 8 bytes d of
        (None, d) \<Rightarrow> (Bail, d)
      | (Some (count, bytes), d) \<Rightarrow>
     (case next_fault d of (bad, d) \<Rightarrow>
        if bad then (Bail, d)
        else case ud_fread (unat (load_host be count :: u64)) bytes d of
          (None, d) \<Rightarrow> (Bail, d)
        | (Some (data, bytes), d) \<Rightarrow>
            (Ret bytes, d\<lparr>dv_uninstall_data := (dv_uninstall_data d)
               [i := \<lparr>ud_data = data, ud_loc = load_host be loc, ud_count = load_host be count\<rparr>]\<rparr>))))"

function load_entries :: "bool \<Rightarrow> nat \<Rightarrow> nat \<Rightarrow> u8 list \<Rightarrow> unit prog" where
  "load_entries be n i bytes d =
     (if i < n then
        case load_entry be i bytes d of
          (Ret bytes, d) \<Rightarrow> load_entries be n (i + 1) bytes d
        | (Bail, d) \<Rightarrow> (Bail, d)
        | (Undefined, d) \<Rightarrow> (Undefined, d)
      else (Ret (), d))"
  by pat_completeness auto
termination by (relation "measure (\<lambda>(be, n, i, bytes, d). n - i)") auto

declare load_entries.simps [simp del]

text \<open>\<open>file\<close> holds the bytes of the file, if it can be opened.\<close>

definition load_uninstall_data :: "bool \<Rightarrow> u8 list option \<Rightarrow> unit prog" where
  "load_uninstall_data be file d =
     (case file of
        None \<Rightarrow> (Bail, d)
      | Some bytes \<Rightarrow>
          (case ud_fread 8 bytes d of
             (None, d) \<Rightarrow> (Bail, d)
           | (Some (n, bytes), d) \<Rightarrow>
               (let d = d\<lparr>dv_uninstall_data_i := load_host be n\<rparr>
                in load_entries be (unat (dv_uninstall_data_i d)) 0 bytes d)))"

text \<open>
  \<open>uninstall\<close>: an entry that fails to write is tried once more after the cache has been flushed and
  forgotten. The flags are \<open>print_cache_flush_fail\<close> and \<open>print_write_fail\<close>.
\<close>

definition forget_cache :: "dev \<Rightarrow> dev" where
  "forget_cache d = d\<lparr>dv_cache_state := CACHE_CLEAN, dv_cached_block := - 1\<rparr>"

function restore_entry :: "bool \<Rightarrow> uninstall_data \<Rightarrow> bool \<times> bool \<Rightarrow> (bool \<times> bool) prog" where
  "restore_entry retry ud (flush_fail, write_fail) d =
     (case device_write (ud_data ud) (ud_loc ud) (ud_count ud) d of
        (Ret _, d) \<Rightarrow> (Ret (flush_fail, write_fail), d)
      | (Undefined, d) \<Rightarrow> (Undefined, d)
      | (Bail, d) \<Rightarrow>
          if retry then (Ret (flush_fail, True), d)
          else (case device_flush_cache d of (ok, d) \<Rightarrow>
            restore_entry True ud (flush_fail \<or> \<not> ok, write_fail) (forget_cache d)))"
  by pat_completeness auto
termination by (relation "measure (\<lambda>(retry, ud, fl, d). if retry then 0 else 1)") auto

declare restore_entry.simps [simp del]

fun restore_entries :: "nat list \<Rightarrow> bool \<times> bool \<Rightarrow> (bool \<times> bool) prog" where
  "restore_entries [] fl d = (Ret fl, d)"
| "restore_entries (i # js) fl d =
     (if i \<ge> length (dv_uninstall_data d) then (Undefined, d)
      else case restore_entry False (dv_uninstall_data d ! i) fl d of
        (Ret fl, d) \<Rightarrow> restore_entries js fl d
      | (Bail, d) \<Rightarrow> (Bail, d)
      | (Undefined, d) \<Rightarrow> (Undefined, d))"

definition uninstall :: "bool prog" where
  "uninstall d =
     (let d = forget_cache (d\<lparr>dv_uninstalling := True\<rparr>) in
      case restore_entries [0..<unat (dv_uninstall_data_i d)] (False, False) d of
        (Ret (flush_fail, write_fail), d) \<Rightarrow>
          (case device_flush_cache d of (ok, d) \<Rightarrow>
             (Ret (\<not> write_fail \<and> \<not> (flush_fail \<or> \<not> ok)), d))
      | (Bail, d) \<Rightarrow> (Bail, d)
      | (Undefined, d) \<Rightarrow> (Undefined, d))"

section \<open>Reversal\<close>

lemma reverse_loop:
  assumes "n \<le> length xs" "n \<le> length r" "k \<le> n"
  shows "take n (foldl (\<lambda>r i. r[n - 1 - i := xs ! i]) r [0..<k]) = take (n - k) r @ rev (take k xs)"
  using assms
proof (induction k)
  case 0
  then show ?case by simp
next
  case (Suc k)
  let ?f = "foldl (\<lambda>r i. r[n - 1 - i := xs ! i]) r [0..<k]"
  have IH: "take n ?f = take (n - k) r @ rev (take k xs)" using Suc by simp
  have "take n (?f[n - 1 - k := xs ! k]) = (take (n - k) r @ rev (take k xs))[n - 1 - k := xs ! k]"
    by (simp only: take_update_swap IH)
  also have "\<dots> = (take (n - k) r @ rev (take k xs))[n - Suc k := xs ! k]" by simp
  also have "\<dots> = (take (n - k) r)[n - Suc k := xs ! k] @ rev (take k xs)"
    using Suc.prems by (subst list_update_append1) simp_all
  also have "take (n - k) r = take (n - Suc k) r @ [r ! (n - Suc k)]"
    using Suc.prems take_Suc_conv_app_nth [of "n - Suc k" r] by (simp add: Suc_diff_Suc)
  finally show ?case
    using Suc.prems by (simp add: list_update_append take_Suc_conv_app_nth)
qed

lemma length_reverse_loop: "length (foldl (\<lambda>r i. r[n - 1 - i := xs ! i]) r js) = length r"
  by (induction js arbitrary: r) auto

lemma reverse_uninstall_data_eq:
  assumes "unat (dv_uninstall_data_i d) \<le> length (dv_uninstall_data d)"
    "unat (dv_uninstall_data_i d) \<le> length (dv_uninstall_data_rev d)"
  shows "take (unat (dv_uninstall_data_i d)) (dv_uninstall_data (reverse_uninstall_data d)) =
    rev (take (unat (dv_uninstall_data_i d)) (dv_uninstall_data d)) \<and>
    length (dv_uninstall_data (reverse_uninstall_data d)) = length (dv_uninstall_data d)"
  using reverse_loop [OF assms order_refl] assms
    length_reverse_loop [of "unat (dv_uninstall_data_i d)" "dv_uninstall_data d"]
  by (simp add: reverse_uninstall_data_def Let_def splice_at_def)

lemma reverse_uninstall_data_frame [simp]:
  "dv_disk (reverse_uninstall_data d) = dv_disk d" "dv_faults (reverse_uninstall_data d) = dv_faults d"
  "dv_uninstall_data_i (reverse_uninstall_data d) = dv_uninstall_data_i d"
  "dv_block_size (reverse_uninstall_data d) = dv_block_size d"
  "dv_cache (reverse_uninstall_data d) = dv_cache d"
  by (simp_all add: reverse_uninstall_data_def Let_def)


section \<open>What a log undoes\<close>

definition undo :: "uninstall_data list \<Rightarrow> u8 list \<Rightarrow> u8 list" where
  "undo es v = foldr (\<lambda>e v. splice_at v (unat (ud_loc e)) (ud_data e)) es v"

abbreviation ud_range :: "uninstall_data \<Rightarrow> nat set" where
  "ud_range e \<equiv> byte_range (ud_loc e) (ud_count e)"

definition covered :: "uninstall_data list \<Rightarrow> nat set" where
  "covered es = (\<Union>e \<in> set es. ud_range e)"

definition entry_ok :: "nat \<Rightarrow> uninstall_data \<Rightarrow> bool" where
  "entry_ok n e \<longleftrightarrow> length (ud_data e) = unat (ud_count e) \<and>
     (ud_count e = 0 \<or> unat (ud_loc e) + unat (ud_count e) \<le> n)"

definition agree :: "nat set \<Rightarrow> u8 list \<Rightarrow> u8 list \<Rightarrow> bool" where
  "agree X v w \<longleftrightarrow> length v = length w \<and> (\<forall>k < length w. k \<notin> X \<longrightarrow> v ! k = w ! k)"

definition log_ok :: "nat \<Rightarrow> u8 list \<Rightarrow> uninstall_data list \<Rightarrow> bool" where
  "log_ok n orig es \<longleftrightarrow> n \<le> length orig \<and> (\<forall>e \<in> set es. entry_ok n e) \<and>
     (\<forall>v. agree (covered es) v orig \<longrightarrow> undo es v = orig)"

lemma undo_simps [simp]:
  "undo [] v = v" "undo (e # es) v = splice_at (undo es v) (unat (ud_loc e)) (ud_data e)"
  "undo (es @ fs) v = undo es (undo fs v)"
  by (simp_all add: undo_def)

lemma covered_simps [simp]:
  "covered [] = {}" "covered (es @ [e]) = covered es \<union> ud_range e"
  by (auto simp: covered_def)

lemma covered_rev [simp]: "covered (rev es) = covered es"
  by (simp add: covered_def)

lemma agree_empty: "agree {} v w \<longleftrightarrow> v = w"
  by (auto simp: agree_def list_eq_iff_nth_eq)

lemma agree_refl [simp]: "agree X v v"
  by (simp add: agree_def)

lemma agree_mono: "agree X v w \<Longrightarrow> X \<subseteq> Y \<Longrightarrow> agree Y v w"
  by (auto simp: agree_def)

lemma log_ok_Nil: "n \<le> length orig \<Longrightarrow> log_ok n orig []"
  by (simp add: log_ok_def agree_empty)

text \<open>A new entry holds what its range shows, and what is shown is original where the log is silent.\<close>

lemma log_ok_snoc:
  assumes log: "log_ok n orig es" and view: "agree (covered es) view orig"
    and e: "unat (ud_loc e) + unat (ud_count e) \<le> n \<or> ud_count e = 0"
      "ud_data e = slice_at view (unat (ud_loc e)) (unat (ud_count e))"
  shows "log_ok n orig (es @ [e])"
proof (cases "ud_count e = 0")
  case True
  with log e(2) show ?thesis by (auto simp: log_ok_def entry_ok_def)
next
  case False
  with e(1) log view have fits: "unat (ud_loc e) + unat (ud_count e) \<le> length view"
    by (auto simp: agree_def log_ok_def)
  then have len: "length (ud_data e) = unat (ud_count e)" by (simp add: e(2))
  have "undo es (splice_at v (unat (ud_loc e)) (ud_data e)) = orig"
    if v: "agree (covered (es @ [e])) v orig" for v
  proof -
    have "agree (covered es) (splice_at v (unat (ud_loc e)) (ud_data e)) orig"
      using v view fits len by (auto simp: agree_def nth_splice e(2) nth_slice)
    with log show ?thesis by (simp add: log_ok_def)
  qed
  with log e(1) len show ?thesis by (auto simp: log_ok_def entry_ok_def)
qed

section \<open>Replaying a log\<close>

lemma dev_ok_forget: "dev_base d \<Longrightarrow> dev_ok (forget_cache d)"
  by (simp add: dev_ok_def dev_base_def forget_cache_def)

lemma restore_write:
  assumes "dev_ok d" "dv_uninstalling d" "entry_ok (dev_size d) e"
  shows "\<exists>d'. device_write (ud_data e) (ud_loc e) (ud_count e) d = (Ret (), d') \<and> dev_ok d' \<and>
    dev_view d' = splice_at (dev_view d) (unat (ud_loc e)) (ud_data e) \<and> same_env d d'"
proof -
  have "in_dev d (ud_loc e) (ud_count e)" "length (ud_data e) = unat (ud_count e)"
    using assms(3) by (auto simp: entry_ok_def)
  from raw_write_in [OF assms(1) this] obtain d' where
    d': "device_write_loop (ud_data e) (ud_loc e) (ud_count e) 0 d = (Ret (), d')" "dev_ok d'"
    "dev_view d' = splice_at (dev_view d) (unat (ud_loc e)) (ud_data e)" "same_env d d'" by blast
  moreover have "dv_uninstalling d'" using d'(4) assms(2) by (simp add: same_env_def)
  ultimately show ?thesis
    using assms(2) by (intro exI [of _ d']) (simp add: device_write_def)
qed

lemma restore_entries_ok:
  assumes "dev_ok d" "dv_uninstalling d"
    "\<forall>i \<in> set js. i < length (dv_uninstall_data d) \<and> entry_ok (dev_size d) (dv_uninstall_data d ! i)"
  shows "\<exists>d'. restore_entries js fl d = (Ret fl, d') \<and> dev_ok d' \<and> same_env d d' \<and>
    dev_view d' = undo (rev (map ((!) (dv_uninstall_data d)) js)) (dev_view d)"
  using assms
proof (induction js arbitrary: d)
  case Nil
  then show ?case by simp
next
  case (Cons i js)
  obtain a b where fl: "fl = (a, b)" by (cases fl)
  let ?e = "dv_uninstall_data d ! i"
  obtain d1 where d1: "device_write (ud_data ?e) (ud_loc ?e) (ud_count ?e) d = (Ret (), d1)" "dev_ok d1"
    "dev_view d1 = splice_at (dev_view d) (unat (ud_loc ?e)) (ud_data ?e)" "same_env d d1"
    using restore_write [of d ?e] Cons.prems by auto
  have env: "dv_uninstalling d1" "dv_uninstall_data d1 = dv_uninstall_data d" "dev_size d1 = dev_size d"
    using d1(4) Cons.prems(2) same_env_size [OF d1(4)] by (simp_all add: same_env_def)
  obtain d2 where d2: "restore_entries js fl d1 = (Ret fl, d2)" "dev_ok d2" "same_env d1 d2"
    "dev_view d2 = undo (rev (map ((!) (dv_uninstall_data d)) js)) (dev_view d1)"
    using Cons.IH [OF d1(2) env(1)] Cons.prems(3) env by auto
  have "restore_entries (i # js) fl d = (Ret fl, d2)"
    using Cons.prems(3) d1(1) d2(1) by (simp add: fl restore_entry.simps [of False])
  with d2 d1(3) same_env_trans [OF d1(4) d2(3)] show ?case by auto
qed

text \<open>\<open>uninstall\<close> with a log whose newest entry comes first.\<close>

lemma uninstall_ok:
  assumes base: "dev_base d" and n: "unat (dv_uninstall_data_i d) \<le> length (dv_uninstall_data d)"
    and es: "take (unat (dv_uninstall_data_i d)) (dv_uninstall_data d) = rev es"
    and log: "log_ok (dev_size d) orig es" and disk: "agree (covered es) (dv_disk d) orig"
  shows "\<exists>d'. uninstall d = (Ret True, d') \<and> dv_disk d' = orig \<and> dv_uninstall_data_i d' = dv_uninstall_data_i d"
proof -
  let ?n = "unat (dv_uninstall_data_i d)" and ?d0 = "forget_cache (d\<lparr>dv_uninstalling := True\<rparr>)"
  have d0: "dev_ok ?d0" "dv_uninstalling ?d0" "dev_view ?d0 = dv_disk d" "dev_size ?d0 = dev_size d"
    "dv_uninstall_data ?d0 = dv_uninstall_data d"
    using base dev_ok_forget [of "d\<lparr>dv_uninstalling := True\<rparr>"]
    by (simp_all add: forget_cache_def dev_view_def dev_size_def dev_base_def)
  have es': "map ((!) (dv_uninstall_data d)) [0..<?n] = rev es"
    unfolding es [symmetric] by (rule nth_equalityI) (use n in simp_all)
  have "\<forall>i \<in> set [0..<?n]. i < length (dv_uninstall_data d) \<and> entry_ok (dev_size d) (dv_uninstall_data d ! i)"
  proof
    fix i assume "i \<in> set [0..<?n]"
    then have "dv_uninstall_data d ! i \<in> set (map ((!) (dv_uninstall_data d)) [0..<?n])" "i < ?n" by auto
    with log n show "i < length (dv_uninstall_data d) \<and> entry_ok (dev_size d) (dv_uninstall_data d ! i)"
      unfolding es' by (auto simp: log_ok_def)
  qed
  then obtain d1 where d1: "restore_entries [0..<?n] (False, False) ?d0 = (Ret (False, False), d1)" "dev_ok d1"
    "dev_view d1 = undo es (dv_disk d)" "same_env ?d0 d1"
    using restore_entries_ok [of ?d0 "[0..<?n]" "(False, False)"] d0 by (auto simp: es')
  moreover have "undo es (dv_disk d) = orig" using log disk by (simp add: log_ok_def)
  ultimately obtain d2 where "device_flush_cache d1 = (True, d2)" "dv_disk d2 = orig" "same_env d1 d2"
    using flush_ok [of d1] by auto
  moreover from this d1(4) have "dv_uninstall_data_i d2 = dv_uninstall_data_i d"
    by (simp add: same_env_def forget_cache_def)
  ultimately show ?thesis using d1(1) by (simp add: uninstall_def Let_def forget_cache_def)
qed


section \<open>The invariant of an installation\<close>

definition dev_log :: "dev \<Rightarrow> uninstall_data list" where
  "dev_log d = take (unat (dv_uninstall_data_i d)) (dv_uninstall_data d)"

text \<open>\<open>orig\<close> is the device before the installation. Neither the disk nor the cache need agree with the
  other; both agree with \<open>orig\<close> where the log is silent.\<close>

definition inst_inv :: "u8 list \<Rightarrow> dev \<Rightarrow> bool" where
  "inst_inv orig d \<longleftrightarrow> dev_base d \<and> \<not> dv_uninstalling d \<and>
     length (dv_uninstall_data d) = unat UNINSTALL_DATA_MAX \<and>
     length (dv_uninstall_data_rev d) = unat UNINSTALL_DATA_MAX \<and>
     dv_uninstall_data_i d \<le> UNINSTALL_DATA_MAX \<and> log_ok (dev_size d) orig (dev_log d) \<and>
     agree (covered (dev_log d)) (dv_disk d) orig \<and> agree (covered (dev_log d)) (dev_view d) orig"

text \<open>\<open>ub\<close> tells whether the program may run into undefined behaviour, \<open>R\<close> what holds of its result.\<close>

definition keeps :: "bool \<Rightarrow> u8 list \<Rightarrow> 'a prog \<Rightarrow> ('a \<Rightarrow> bool) \<Rightarrow> bool" where
  "keeps ub orig m R \<longleftrightarrow> (\<forall>d. dev_ok d \<and> inst_inv orig d \<longrightarrow>
     (case m d of
        (Ret x, d') \<Rightarrow> dev_ok d' \<and> inst_inv orig d' \<and> R x
      | (Bail, d') \<Rightarrow> inst_inv orig d'
      | (Undefined, d') \<Rightarrow> ub))"

lemma keepsI:
  "(\<And>d. dev_ok d \<Longrightarrow> inst_inv orig d \<Longrightarrow>
     (\<exists>x d'. m d = (Ret x, d') \<and> dev_ok d' \<and> inst_inv orig d' \<and> R x) \<or>
     (\<exists>d'. m d = (Bail, d') \<and> inst_inv orig d') \<or> fst (m d) = Undefined \<and> ub) \<Longrightarrow> keeps ub orig m R"
  unfolding keeps_def by (fastforce split: outcome.splits prod.splits)

lemma keepsD:
  assumes "keeps ub orig m R" "dev_ok d" "inst_inv orig d"
  shows "m d = (Ret x, d') \<Longrightarrow> dev_ok d' \<and> inst_inv orig d' \<and> R x" "m d = (Bail, d') \<Longrightarrow> inst_inv orig d'"
    "m d = (Undefined, d') \<Longrightarrow> ub"
  using assms unfolding keeps_def by (drule_tac spec [of _ d], simp)+

lemma keeps_weaken:
  assumes m: "keeps ub orig m R" and R: "\<And>x. R x \<Longrightarrow> R' x"
  shows "keeps ub orig m R'"
proof (rule keepsI)
  fix d assume d: "dev_ok d" "inst_inv orig d"
  show "(\<exists>x d'. m d = (Ret x, d') \<and> dev_ok d' \<and> inst_inv orig d' \<and> R' x) \<or>
     (\<exists>d'. m d = (Bail, d') \<and> inst_inv orig d') \<or> fst (m d) = Undefined \<and> ub"
  proof (cases "m d")
    case (Pair r d1)
    with keepsD [OF m d] R show ?thesis by (cases r) simp_all
  qed
qed

lemma keeps_pret: "R x \<Longrightarrow> keeps ub orig (pret x) R"
  by (simp add: keeps_def pret_def)

lemma keeps_pbail: "keeps ub orig pbail R"
  by (simp add: keeps_def pbail_def)

lemma keeps_pundefined: "keeps True orig pundefined R"
  by (simp add: keeps_def pundefined_def)

lemma keeps_pbind:
  assumes m: "keeps ub orig m R" and f: "\<And>x. R x \<Longrightarrow> keeps ub orig (f x) R'"
  shows "keeps ub orig (pbind m f) R'"
proof (rule keepsI)
  fix d assume d: "dev_ok d" "inst_inv orig d"
  show "(\<exists>x d'. pbind m f d = (Ret x, d') \<and> dev_ok d' \<and> inst_inv orig d' \<and> R' x) \<or>
    (\<exists>d'. pbind m f d = (Bail, d') \<and> inst_inv orig d') \<or> fst (pbind m f d) = Undefined \<and> ub"
  proof (cases "m d")
    case (Pair r d1)
    show ?thesis
    proof (cases r)
      case (Ret x)
      then have d1: "dev_ok d1" "inst_inv orig d1" and R: "R x" using keepsD(1) [OF m d] Pair by auto
      note f' = keepsD [OF f [OF R] d1]
      show ?thesis
      proof (cases "f x d1")
        case (Pair r2 d2)
        with f' \<open>m d = (r, d1)\<close> Ret show ?thesis by (cases r2) (simp_all add: pbind_def)
      qed
    next
      case Bail
      with keepsD(2) [OF m d] Pair show ?thesis by (simp add: pbind_def)
    next
      case Undefined
      with keepsD(3) [OF m d] Pair show ?thesis by (simp add: pbind_def)
    qed
  qed
qed

lemma keeps_if:
  "(b \<Longrightarrow> keeps ub orig m R) \<Longrightarrow> (\<not> b \<Longrightarrow> keeps ub orig m' R) \<Longrightarrow> keeps ub orig (if b then m else m') R"
  by simp

lemma keeps_option:
  "(x = None \<Longrightarrow> keeps ub orig m R) \<Longrightarrow> (\<And>y. x = Some y \<Longrightarrow> keeps ub orig (f y) R) \<Longrightarrow>
   keeps ub orig (case x of None \<Rightarrow> m | Some y \<Rightarrow> f y) R"
  by (cases x) simp_all

lemma keeps_pair: "(\<And>a b. x = (a, b) \<Longrightarrow> keeps ub orig (f a b) R) \<Longrightarrow> keeps ub orig (case x of (a, b) \<Rightarrow> f a b) R"
  by (cases x) simp

lemma same_env_log: "same_env d d' \<Longrightarrow> dev_log d' = dev_log d"
  by (simp add: same_env_def dev_log_def)

lemma agree_carries:
  "carries X d d' \<Longrightarrow> X \<subseteq> Y \<Longrightarrow> agree Y (dv_disk d) orig \<Longrightarrow> agree Y (dev_view d) orig \<Longrightarrow>
   length (dev_view d') = length (dv_disk d') \<Longrightarrow> agree Y (dv_disk d') orig \<and> agree Y (dev_view d') orig"
  unfolding agree_def carries_def by (metis subsetD)

lemma inst_inv_same:
  assumes inv: "inst_inv orig d" and env: "same_env d d'" "carries {} d d'" and ok: "dev_ok d'"
  shows "inst_inv orig d'"
  using inv ok agree_carries [OF env(2), of "covered (dev_log d)" orig] length_dev_view [OF ok]
    same_env_log [OF env(1)] same_env_size [OF env(1)] env(1)
  by (simp add: inst_inv_def same_env_def dev_ok_def)

lemma inst_inv_failed:
  assumes inv: "inst_inv orig d" and env: "same_env d d'" "dev_failed (dev_view d) d'"
  shows "inst_inv orig d'"
  using inv same_env_log [OF env(1)] same_env_size [OF env(1)] env
  by (simp add: inst_inv_def same_env_def dev_failed_def dev_view_def)

lemma keeps_read: "keeps ub orig (device_read loc count) (\<lambda>b. length b = unat count)"
proof (rule keepsI)
  fix d assume d: "dev_ok d" "inst_inv orig d"
  show "(\<exists>x d'. device_read loc count d = (Ret x, d') \<and> dev_ok d' \<and> inst_inv orig d' \<and> length x = unat count) \<or>
    (\<exists>d'. device_read loc count d = (Bail, d') \<and> inst_inv orig d') \<or> fst (device_read loc count d) = Undefined \<and> ub"
  proof (cases "in_dev d loc count")
    case True
    then have "length (slice_at (dev_view d) (unat loc) (unat count)) = unat count"
      using dev_size_le [of d] length_dev_view [OF d(1)] by auto
    with True device_read_in [OF d(1) True] inst_inv_same [OF d(2)] show ?thesis by metis
  next
    case False
    from device_read_out [OF d(1) this] inst_inv_failed [OF d(2)] show ?thesis by metis
  qed
qed

lemma inst_inv_write:
  assumes inv: "inst_inv orig d" and ok: "dev_ok d" "dev_ok d'" and fits: "in_dev d loc count"
    and room: "dv_uninstall_data_i d < UNINSTALL_DATA_MAX"
    and logs: "logs d d' (log_entry d loc count)" and carries: "carries (byte_range loc count) d d'"
  shows "inst_inv orig d'"
proof -
  let ?i = "unat (dv_uninstall_data_i d)" and ?e = "log_entry d loc count"
  have i: "?i < length (dv_uninstall_data d)" "unat (dv_uninstall_data_i d') = ?i + 1"
    using inv room logs by (simp_all add: inst_inv_def word_less_nat_alt logs_def)
  then have log: "dev_log d' = dev_log d @ [?e]"
    using logs by (simp add: dev_log_def logs_def take_Suc_conv_app_nth)
  have size: "dev_size d' = dev_size d" using logs by (simp add: logs_def dev_size_def)
  have "log_ok (dev_size d) orig (dev_log d @ [?e])"
    using inv fits by (intro log_ok_snoc [where view = "dev_view d"]) (auto simp: inst_inv_def log_entry_def)
  moreover have "agree (covered (dev_log d @ [?e])) (dv_disk d') orig \<and> agree (covered (dev_log d @ [?e])) (dev_view d') orig"
    by (rule agree_carries [OF carries])
       (use inv length_dev_view [OF ok(2)] in \<open>auto simp: inst_inv_def log_entry_def intro: agree_mono\<close>)
  moreover have "dv_uninstall_data_i d' \<le> UNINSTALL_DATA_MAX"
    using i room by (simp add: word_less_nat_alt word_le_nat_alt)
  ultimately show ?thesis
    using inv ok(2) logs log size by (simp add: inst_inv_def dev_ok_def logs_def)
qed

lemma keeps_write:
  assumes len: "length buffer = unat count"
  shows "keeps ub orig (device_write buffer loc count) (\<lambda>_. True)"
proof (rule keepsI)
  fix d assume d: "dev_ok d" "inst_inv orig d"
  then have un: "\<not> dv_uninstalling d" by (simp add: inst_inv_def)
  show "(\<exists>x d'. device_write buffer loc count d = (Ret x, d') \<and> dev_ok d' \<and> inst_inv orig d' \<and> True) \<or>
    (\<exists>d'. device_write buffer loc count d = (Bail, d') \<and> inst_inv orig d') \<or>
    fst (device_write buffer loc count d) = Undefined \<and> ub"
  proof (cases "in_dev d loc count \<and> dv_uninstall_data_i d < UNINSTALL_DATA_MAX")
    case True
    then have fits: "in_dev d loc count" and room: "dv_uninstall_data_i d < UNINSTALL_DATA_MAX" by blast+
    from device_write_in [OF d(1) un fits len room] inst_inv_write [OF d(2,1) _ fits room] show ?thesis by metis
  next
    case False
    then have "\<not> in_dev d loc count \<or> \<not> dv_uninstall_data_i d < UNINSTALL_DATA_MAX" by blast
    from device_write_fails [OF d(1) un this, of buffer] obtain d' where
      d': "device_write buffer loc count d = (Bail, d')" "same_env d d'" "dev_failed (dev_view d) d' \<or> d' = d" by blast
    then have "inst_inv orig d'" using d(2) inst_inv_failed [OF d(2) d'(2)] by blast
    with d'(1) show ?thesis by blast
  qed
qed

lemma keeps_write_all:
  assumes "\<forall>(buffer, loc) \<in> set ws. length buffer < 2 ^ 64"
  shows "keeps ub orig (write_all device_write ws) (\<lambda>_. True)"
  using assms
proof (induction ws)
  case Nil
  then show ?case by (simp add: keeps_def)
next
  case (Cons w ws)
  obtain buffer loc where w: "w = (buffer, loc)" by (cases w)
  have "unat (of_nat (length buffer) :: u64) = length buffer"
    using Cons.prems by (intro unat_of_nat_lt) (simp add: w)
  with Cons show ?case
    unfolding w write_all_pbind by (intro keeps_pbind [OF keeps_write]) auto
qed


text \<open>\<open>if (!...) goto cleanup\<close> around a device operation.\<close>

definition or_cleanup :: "(dev \<Rightarrow> bool \<times> dev) \<Rightarrow> unit prog" where
  "or_cleanup op d = (case op d of (True, d) \<Rightarrow> (Ret (), d) | (False, d) \<Rightarrow> (Bail, d))"

lemma keeps_flush: "keeps ub orig (or_cleanup device_flush_cache) (\<lambda>_. True)"
proof (rule keepsI)
  fix d assume d: "dev_ok d" "inst_inv orig d"
  from flush_ok [OF d(1)] obtain d' where d': "device_flush_cache d = (True, d')" "dev_ok d'"
    "dv_cache_state d' = CACHE_CLEAN" "dv_disk d' = dev_view d" "same_env d d'" by blast
  then have "carries {} d d'" by (intro same_env_carries) (simp_all add: dev_view_def [of d'])
  with d d' inst_inv_same [OF d(2) d'(5)]
  show "(\<exists>x d'. or_cleanup device_flush_cache d = (Ret x, d') \<and> dev_ok d' \<and> inst_inv orig d' \<and> True) \<or>
    (\<exists>d'. or_cleanup device_flush_cache d = (Bail, d') \<and> inst_inv orig d') \<or>
    fst (or_cleanup device_flush_cache d) = Undefined \<and> ub"
    by (simp add: or_cleanup_def)
qed

lemma keeps_any: "keeps ub orig m R \<Longrightarrow> keeps ub orig m (\<lambda>_. True)"
  by (erule keeps_weaken) simp

lemma keeps_read_bind:
  "(\<And>b. length b = unat count \<Longrightarrow> keeps ub orig (f b) R) \<Longrightarrow>
   keeps ub orig (pbind (device_read loc count) f) R"
  by (rule keeps_pbind [OF keeps_read])

lemma keeps_bind_any:
  "keeps ub orig m (\<lambda>_. True) \<Longrightarrow> (\<And>x. keeps ub orig (f x) R) \<Longrightarrow> keeps ub orig (pbind m f) R"
  by (rule keeps_pbind) blast+

text \<open>The rules in the order in which a program is taken apart.\<close>

lemmas keeps_rules = keeps_read_bind keeps_bind_any keeps_if keeps_option keeps_pair keeps_pret
  keeps_pbail keeps_pundefined keeps_write keeps_write_all keeps_flush

lemma inst_inv_start:
  assumes "dev_ok d" "\<not> dv_uninstalling d" "dev_view d = dv_disk d" "dv_uninstall_data_i d = 0"
    "length (dv_uninstall_data d) = unat UNINSTALL_DATA_MAX" "length (dv_uninstall_data_rev d) = unat UNINSTALL_DATA_MAX"
  shows "inst_inv (dv_disk d) d"
  using assms dev_size_le [of d] by (simp add: inst_inv_def dev_ok_def dev_log_def log_ok_Nil)

lemma device_init_inv:
  assumes "512 \<le> length disk" "length disk < 2 ^ 63"
  shows "\<exists>d. device_init (dev_open disk []) = (True, d) \<and> dev_ok d \<and> inst_inv disk d \<and>
    dev_view d = disk \<and> dv_disk d = disk \<and> dv_block_size d = 512 \<and> dv_uninstall_data_i d = 0"
proof -
  obtain d where d: "device_init (dev_open disk []) = (True, d)" "dev_ok d"
    "dev_view d = disk" "dv_disk d = disk" "dv_block_size d = 512" "\<not> dv_uninstalling d" "dv_uninstall_data_i d = 0"
    "length (dv_uninstall_data d) = unat UNINSTALL_DATA_MAX" "length (dv_uninstall_data_rev d) = unat UNINSTALL_DATA_MAX"
    using device_init_ok [of "dev_open disk []"] assms by (auto simp: dev_open_def)
  with inst_inv_start [of d] show ?thesis by simp
qed

lemma rollback:
  assumes inv: "inst_inv orig d"
  shows "\<exists>d'. uninstall (reverse_uninstall_data d) = (Ret True, d') \<and> dv_disk d' = orig \<and>
    dv_uninstall_data_i d' = dv_uninstall_data_i d"
proof -
  let ?r = "reverse_uninstall_data d"
  have len: "unat (dv_uninstall_data_i d) \<le> length (dv_uninstall_data d)"
    "unat (dv_uninstall_data_i d) \<le> length (dv_uninstall_data_rev d)"
    using inv by (simp_all add: inst_inv_def word_le_nat_alt)
  note r = reverse_uninstall_data_eq [OF len]
  have size: "dev_size ?r = dev_size d" by (simp add: dev_size_def)
  have "\<exists>d'. uninstall ?r = (Ret True, d') \<and> dv_disk d' = orig \<and> dv_uninstall_data_i d' = dv_uninstall_data_i ?r"
  proof (rule uninstall_ok)
    show "dev_base ?r" using inv by (simp add: inst_inv_def dev_base_def)
    show "unat (dv_uninstall_data_i ?r) \<le> length (dv_uninstall_data ?r)" using r len by simp
    show "take (unat (dv_uninstall_data_i ?r)) (dv_uninstall_data ?r) = rev (dev_log d)"
      using r by (simp add: dev_log_def)
    show "log_ok (dev_size ?r) orig (dev_log d)" using inv unfolding size by (simp add: inst_inv_def)
    show "agree (covered (dev_log d)) (dv_disk ?r) orig" using inv by (simp add: inst_inv_def)
  qed
  then show ?thesis by simp
qed

section \<open>The log file\<close>

definition entry_bytes :: "bool \<Rightarrow> uninstall_data \<Rightarrow> u8 list" where
  "entry_bytes be e = store_host be 8 (ud_loc e) @ store_host be 8 (ud_count e) @ ud_data e"

lemma ud_fwrite_ok:
  "dv_faults d = [] \<Longrightarrow> ud_fwrite bytes out d =
     (if bytes = [] then ((False, out), d) else ((True, out @ bytes), d))"
  by (simp add: ud_fwrite_def next_fault_none)

lemma ud_fread_ok:
  "dv_faults d = [] \<Longrightarrow> ud_fread n bytes d =
     (if n = 0 \<or> length bytes < n then (None, d) else (Some (take n bytes, drop n bytes), d))"
  by (simp add: ud_fread_def next_fault_none)

lemma store_host_nonempty [simp]: "store_host be 8 w \<noteq> []"
  using length_store_host [of be 8 w] by (metis list.size(3) zero_neq_numeral)

lemma store_entries_ok:
  "dv_faults d = [] \<Longrightarrow> \<forall>e \<in> set es. ud_data e \<noteq> [] \<Longrightarrow>
   store_entries be es out d = ((True, out @ concat (map (entry_bytes be) es)), d)"
  by (induction es arbitrary: out) (simp_all add: ud_fwrite_ok entry_bytes_def)

lemma store_entries_empty:
  "dv_faults d = [] \<Longrightarrow> \<exists>e \<in> set es. ud_data e = [] \<Longrightarrow> \<exists>out'. store_entries be es out d = ((False, out'), d)"
  by (induction es arbitrary: out) (auto simp: ud_fwrite_ok)

lemma load_entry_ok:
  assumes nf: "dv_faults d = []" and i: "i < length (dv_uninstall_data d)"
    and e: "length (ud_data e) = unat (ud_count e)" "ud_data e \<noteq> []"
  shows "load_entry be i (entry_bytes be e @ rest) d =
    (Ret rest, d\<lparr>dv_uninstall_data := (dv_uninstall_data d)[i := e]\<rparr>)"
proof -
  have "load_host be (store_host be 8 w) = w" for w :: u64 by (rule load_store_host) simp
  moreover have "unat (ud_count e) \<noteq> 0" using e by (metis length_0_conv)
  ultimately show ?thesis
    using nf i e by (cases e) (simp add: load_entry_def ud_fread_ok next_fault_none entry_bytes_def)
qed

lemma load_entries_ok:
  assumes "dv_faults d = []" "i + length es = n" "n \<le> length (dv_uninstall_data d)"
    "\<forall>e \<in> set es. length (ud_data e) = unat (ud_count e) \<and> ud_data e \<noteq> []"
  shows "load_entries be n i (concat (map (entry_bytes be) es)) d =
    (Ret (), d\<lparr>dv_uninstall_data := splice_at (dv_uninstall_data d) i es\<rparr>)"
  using assms
proof (induction es arbitrary: i d)
  case Nil
  then show ?case by (simp add: load_entries.simps)
next
  case (Cons e es)
  let ?d1 = "d\<lparr>dv_uninstall_data := (dv_uninstall_data d)[i := e]\<rparr>"
  have i: "i < length (dv_uninstall_data d)" "i < n" using Cons.prems by simp_all
  have "load_entries be n (i + 1) (concat (map (entry_bytes be) es)) ?d1 =
      (Ret (), ?d1\<lparr>dv_uninstall_data := splice_at (dv_uninstall_data ?d1) (i + 1) es\<rparr>)"
    using Cons.prems by (intro Cons.IH) simp_all
  moreover have "splice_at ((dv_uninstall_data d)[i := e]) (i + 1) es = splice_at (dv_uninstall_data d) i (e # es)"
    using i by (simp add: splice_at_def take_Suc_conv_app_nth)
  ultimately show ?case
    using i load_entry_ok [of d i e be "concat (map (entry_bytes be) es)"] Cons.prems(1,4)
    by (simp add: load_entries.simps [of be n i])
qed

lemma store_uninstall_data_ok:
  assumes "dv_faults d = []" "\<forall>e \<in> set (dev_log d). ud_data e \<noteq> []"
  shows "store_uninstall_data be d = ((True, Some (store_host be 8 (dv_uninstall_data_i d) @
    concat (map (entry_bytes be) (dev_log d)))), d)"
  using assms store_entries_ok [OF assms, of be]
  by (simp add: store_uninstall_data_def next_fault_none ud_fwrite_ok dev_log_def)

lemma store_uninstall_data_cases:
  assumes "dv_faults d = []" "store_uninstall_data be d = ((True, file), d')"
  shows "(\<forall>e \<in> set (dev_log d). ud_data e \<noteq> []) \<and> d' = d \<and>
    file = Some (store_host be 8 (dv_uninstall_data_i d) @ concat (map (entry_bytes be) (dev_log d)))"
proof (cases "\<forall>e \<in> set (dev_log d). ud_data e \<noteq> []")
  case True
  with assms store_uninstall_data_ok [of d be] show ?thesis by auto
next
  case False
  with store_entries_empty [OF assms(1), of "dev_log d" be "store_host be 8 (dv_uninstall_data_i d)"] assms
  show ?thesis by (auto simp: store_uninstall_data_def next_fault_none ud_fwrite_ok dev_log_def)
qed

lemma load_stored:
  assumes nf: "dv_faults d = []" and len: "length es \<le> length (dv_uninstall_data d)" "length es < 2 ^ 64"
    and es: "\<forall>e \<in> set es. length (ud_data e) = unat (ud_count e) \<and> ud_data e \<noteq> []"
  shows "load_uninstall_data be (Some (store_host be 8 (of_nat (length es) :: u64) @ concat (map (entry_bytes be) es))) d =
    (Ret (), d\<lparr>dv_uninstall_data_i := of_nat (length es), dv_uninstall_data := splice_at (dv_uninstall_data d) 0 es\<rparr>)"
proof -
  let ?i = "of_nat (length es) :: u64" and ?d1 = "d\<lparr>dv_uninstall_data_i := of_nat (length es)\<rparr>"
  have "load_host be (store_host be 8 ?i) = ?i" by (rule load_store_host) simp
  moreover have "unat ?i = length es" using len(2) by (intro unat_of_nat_lt) simp
  moreover have "load_entries be (length es) 0 (concat (map (entry_bytes be) es)) ?d1 =
      (Ret (), ?d1\<lparr>dv_uninstall_data := splice_at (dv_uninstall_data ?d1) 0 es\<rparr>)"
    using nf len es by (intro load_entries_ok) simp_all
  ultimately show ?thesis
    using nf by (simp add: load_uninstall_data_def ud_fread_ok Let_def)
qed


text \<open>The log of a stored installation, replayed in a later run of the tool.\<close>

lemma log_entry_lengths: "log_ok n orig es \<Longrightarrow> \<forall>e \<in> set es. length (ud_data e) = unat (ud_count e)"
  by (auto simp: log_ok_def entry_ok_def)

lemma dev_log_reverse:
  assumes "inst_inv orig d"
  shows "dev_log (reverse_uninstall_data d) = rev (dev_log d)" "length (dev_log d) = unat (dv_uninstall_data_i d)"
  using reverse_uninstall_data_eq [of d] assms by (simp_all add: inst_inv_def dev_log_def word_le_nat_alt)

lemma sectors_bound: "k * 512 \<le> n \<Longrightarrow> k * 512 \<le> n div 512 * (512 :: nat)"
  using less_eq_div_iff_mult_less_eq [of 512 k n] by simp

text \<open>A device of 512-byte blocks has no smaller readable size than one of larger blocks.\<close>

lemma dev_size_mono:
  assumes "dev_base d" "dv_block_size d0 = 512" "length (dv_disk d0) = length (dv_disk d)"
  shows "dev_size d \<le> dev_size d0"
proof -
  have "\<exists>k. unat (dv_block_size d) = k * 512"
    using dev_base_block_size [OF assms(1)] exI [of "\<lambda>k. unat (dv_block_size d) = k * 512" 1]
      exI [of "\<lambda>k. unat (dv_block_size d) = k * 512" 4] exI [of "\<lambda>k. unat (dv_block_size d) = k * 512" 8]
    by auto
  then obtain k where k: "unat (dv_block_size d) = k * 512" ..
  have "dev_size d = (length (dv_disk d) div (k * 512) * k) * 512" by (simp add: dev_size_def k)
  moreover from this have "(length (dv_disk d) div (k * 512) * k) * 512 \<le> length (dv_disk d)"
    using dev_size_le [of d] by simp
  ultimately show ?thesis
    using sectors_bound [of "length (dv_disk d) div (k * 512) * k" "length (dv_disk d)"] assms(2,3)
    by (simp add: dev_size_def)
qed

lemma log_ok_mono: "log_ok m orig es \<Longrightarrow> m \<le> n \<Longrightarrow> n \<le> length orig \<Longrightarrow> log_ok n orig es"
  by (auto simp: log_ok_def entry_ok_def)

lemma later_uninstall:
  assumes inv: "inst_inv orig d"
    and len: "512 \<le> length orig" "length orig < 2 ^ 63"
    and store: "store_uninstall_data be (reverse_uninstall_data d) = ((True, file), d')"
  shows "\<exists>d0 d1 d2. device_init (dev_open (dv_disk d) []) = (True, d0) \<and>
    load_uninstall_data be file d0 = (Ret (), d1) \<and> uninstall d1 = (Ret True, d2) \<and> dv_disk d2 = orig \<and>
    dv_uninstall_data_i d2 \<le> UNINSTALL_DATA_MAX"
proof -
  let ?es = "rev (dev_log d)"
  have disk: "length (dv_disk d) = length orig" using inv by (simp add: inst_inv_def agree_def)
  obtain d0 where d0: "device_init (dev_open (dv_disk d) []) = (True, d0)" "dev_ok d0" "inst_inv (dv_disk d) d0"
    "dv_disk d0 = dv_disk d" "dv_block_size d0 = 512"
    using device_init_inv [of "dv_disk d"] len disk by auto
  have nf: "dv_faults d0 = []" "dv_faults (reverse_uninstall_data d) = []"
    using d0(2) inv by (simp_all add: dev_ok_def dev_base_def inst_inv_def)
  have log: "log_ok (dev_size d) orig (dev_log d)" using inv by (simp add: inst_inv_def)
  note r = dev_log_reverse [OF inv]
  have n: "length ?es = unat (dv_uninstall_data_i d)" "length ?es \<le> 256"
    using r inv by (simp_all add: inst_inv_def word_le_nat_alt UNINSTALL_DATA_MAX_def)
  have i: "of_nat (length ?es) = dv_uninstall_data_i d" using n(1) by simp
  have stored: "file = Some (store_host be 8 (of_nat (length ?es) :: u64) @ concat (map (entry_bytes be) ?es))"
    and data: "\<forall>e \<in> set ?es. length (ud_data e) = unat (ud_count e) \<and> ud_data e \<noteq> []"
    using store_uninstall_data_cases [OF nf(2) store] log_entry_lengths [OF log] i by (simp_all add: r)
  let ?d1 = "d0\<lparr>dv_uninstall_data_i := of_nat (length ?es), dv_uninstall_data := splice_at (dv_uninstall_data d0) 0 ?es\<rparr>"
  have room: "length ?es \<le> length (dv_uninstall_data d0)"
    using d0(3) n(2) by (simp add: inst_inv_def UNINSTALL_DATA_MAX_def)
  then have load: "load_uninstall_data be file d0 = (Ret (), ?d1)"
    unfolding stored using nf(1) data n(2) by (intro load_stored) simp_all
  have "\<exists>d2. uninstall ?d1 = (Ret True, d2) \<and> dv_disk d2 = orig \<and>
      dv_uninstall_data_i d2 = dv_uninstall_data_i ?d1"
  proof (rule uninstall_ok)
    have u: "unat (of_nat (length ?es) :: u64) = length ?es" using n(2) by (intro unat_of_nat_lt) simp
    show "dev_base ?d1" using d0(2) by (simp add: dev_ok_def dev_base_def)
    show "unat (dv_uninstall_data_i ?d1) \<le> length (dv_uninstall_data ?d1)"
      using room u by simp
    show "take (unat (dv_uninstall_data_i ?d1)) (dv_uninstall_data ?d1) = rev (dev_log d)"
      using u by (simp add: splice_at_def)
    have "dev_size d \<le> dev_size d0"
      using inv d0(4,5) by (intro dev_size_mono) (simp_all add: inst_inv_def)
    then have "log_ok (dev_size d0) orig (dev_log d)"
      using dev_size_le [of d0] disk d0(4) by (intro log_ok_mono [OF log]) simp_all
    then show "log_ok (dev_size ?d1) orig (dev_log d)" by (simp add: dev_size_def)
    show "agree (covered (dev_log d)) (dv_disk ?d1) orig" using inv d0(4) by (simp add: inst_inv_def)
  qed
  moreover have "dv_uninstall_data_i ?d1 \<le> UNINSTALL_DATA_MAX" using inv i by (simp add: inst_inv_def)
  ultimately show ?thesis using d0(1) load by metis
qed

section \<open>Properties\<close>



text \<open>C23: The log file: what \<open>store_uninstall_data\<close> writes for the current log,
  \<open>load_uninstall_data\<close> reads back entry by entry, and it succeeds whenever no entry is empty and
  I/O succeeds.\<close>

theorem uninstall_file_roundtrip:
  assumes "dv_faults d = []" "dv_faults d0 = []" "dev_log d = es" "length es = unat (dv_uninstall_data_i d)"
    "\<forall>e \<in> set es. length (ud_data e) = unat (ud_count e) \<and> ud_data e \<noteq> []"
    "length es \<le> length (dv_uninstall_data d0)"
  shows "\<exists>file d1. store_uninstall_data be d = ((True, Some file), d) \<and>
    load_uninstall_data be (Some file) d0 = (Ret (), d1) \<and> dev_log d1 = es \<and>
    dv_uninstall_data_i d1 = dv_uninstall_data_i d \<and> dv_disk d1 = dv_disk d0"
proof -
  have i: "dv_uninstall_data_i d = of_nat (length es)" using assms(4) by simp
  have lt: "length es < 2 ^ 64" using assms(4) unsigned_less [of "dv_uninstall_data_i d", where 'a = nat] by simp
  then have "unat (of_nat (length es) :: u64) = length es" by (intro unat_of_nat_lt) simp
  then show ?thesis
    using store_uninstall_data_ok [of d be] load_stored [OF assms(2,6) lt assms(5)] assms(1,3,5)
    by (simp add: i dev_log_def splice_at_def)
qed

theorem uninstall_file_roundtrip_witness:
  "let e = \<lparr>ud_data = [5, 6], ud_loc = 440, ud_count = 2\<rparr>;
       d = (dev_open [] [])\<lparr>dv_uninstall_data := [e], dv_uninstall_data_i := 1\<rparr>
   in \<exists>file d1. store_uninstall_data True d = ((True, Some file), d) \<and>
     load_uninstall_data True (Some file) (dev_open [] []) = (Ret (), d1) \<and> dev_log d1 = [e] \<and>
     dv_uninstall_data_i d1 = dv_uninstall_data_i d \<and> dv_disk d1 = dv_disk (dev_open [] [])"
  unfolding Let_def
  by (rule uninstall_file_roundtrip) (simp_all add: dev_open_def dev_log_def UNINSTALL_DATA_MAX_def)

end
