(* ===== verification/Cell_Schedule.thy ===== *)
theory Cell_Schedule
  imports Cell_Prelude
begin

text \<open>
  Two processors that take turns on one shared state. The interface \<open>two_cpus\<close> asks that a step either
  belongs to a processor that waits, and then changes nothing, or keeps an invariant and leaves less
  work; and that both wait only in a final state. It follows that the invariant holds under every
  interleaving and that every fair schedule ends in a final state within as many rounds as there is
  work.
\<close>

datatype cpu = BSP | AP

locale two_cpus =
  fixes step :: "cpu \<Rightarrow> 's \<Rightarrow> 's"
    and inv :: "'s \<Rightarrow> bool"
    and waits :: "cpu \<Rightarrow> 's \<Rightarrow> bool"
    and work :: "'s \<Rightarrow> nat"
    and final :: "'s \<Rightarrow> bool"
  assumes step_good: "inv s \<Longrightarrow> waits c s \<and> step c s = s \<or> inv (step c s) \<and> work (step c s) < work s"
    and waits_final: "inv s \<Longrightarrow> waits BSP s \<Longrightarrow> waits AP s \<Longrightarrow> final s"
    and final_stays: "final s \<Longrightarrow> step c s = s"
begin

lemma step_inv: "inv s \<Longrightarrow> inv (step c s)"
  using step_good [of s c] by auto

lemma run_inv: "inv s \<Longrightarrow> inv (fold step cs s)"
  by (induction cs arbitrary: s) (auto intro: step_inv)

lemma run_work: "inv s \<Longrightarrow> work (fold step cs s) \<le> work s"
proof (induction cs arbitrary: s)
  case (Cons c cs)
  from Cons.IH [OF step_inv [OF Cons.prems, of c]] step_good [OF Cons.prems, of c] show ?case by auto
qed simp

lemma run_final: "final s \<Longrightarrow> fold step cs s = s"
  by (induction cs) (simp_all add: final_stays)

lemma round_progress:
  assumes inv: "inv s" and fair: "{BSP, AP} \<subseteq> set cs"
  shows "work (fold step cs s) < work s \<or> final s"
proof (cases "\<exists>c \<in> set cs. step c s \<noteq> s")
  case True
  then obtain pre c post where cs: "cs = pre @ c # post" "step c s \<noteq> s" "\<forall>c \<in> set pre. step c s = s"
    by (rule split_list_first_propE) auto
  have "fold step pre s = s" using cs(3) by (induction pre) auto
  then have "fold step cs s = fold step post (step c s)" by (simp add: cs(1))
  moreover have "work (fold step post (step c s)) \<le> work (step c s)"
    by (rule run_work [OF step_inv [OF inv]])
  ultimately show ?thesis using step_good [OF inv, of c] cs(2) by auto
next
  case False
  then have "step c s = s" for c using fair by (cases c) auto
  then have "waits c s" for c using step_good [OF inv, of c] by auto
  with waits_final [OF inv] show ?thesis by blast
qed

lemma rounds_final:
  "inv s \<Longrightarrow> \<forall>cs \<in> set rounds. {BSP, AP} \<subseteq> set cs \<Longrightarrow> work s \<le> length rounds \<Longrightarrow>
   final (fold step (concat rounds) s)"
proof (induction rounds arbitrary: s)
  case Nil
  then have "waits c s" for c using step_good [OF Nil(1), of c] by simp
  with waits_final [OF Nil(1)] show ?case by simp
next
  case (Cons cs rounds)
  have "{BSP, AP} \<subseteq> set cs" using Cons.prems(2) by simp
  from round_progress [OF Cons.prems(1) this] show ?case
  proof (elim disjE)
    assume "final s"
    then show ?thesis by (simp only: run_final)
  next
    assume "work (fold step cs s) < work s"
    then show ?thesis using Cons.prems Cons.IH [OF run_inv] by simp
  qed
qed

end

end
