(* ===== verification/Cell_Float.thy ===== *)
theory Cell_Float
  imports Cell_Prelude
begin

text \<open>
  The single-precision arithmetic that the kernel's reduction uses, on the bit patterns of \<open>f32\<close>:
  addition with rounding to the nearest value, ties to even, conversion of an integer, and
  equality. Every finite \<open>f32\<close> is an integer multiple of the smallest subnormal \<open>2\<^sup>-\<^sup>1\<^sup>4\<^sup>9\<close>, so that sums
  are computed exactly on these multiples and rounded once.
\<close>

section \<open>Decoding and rounding\<close>

definition f32_sign :: "u32 \<Rightarrow> bool" where
  "f32_sign b = bit b 31"

definition f32_exponent :: "u32 \<Rightarrow> nat" where
  "f32_exponent b = unat b div 2 ^ 23 mod 256"

definition f32_fraction :: "u32 \<Rightarrow> nat" where
  "f32_fraction b = unat b mod 2 ^ 23"

definition f32_is_nan :: "u32 \<Rightarrow> bool" where
  "f32_is_nan b \<longleftrightarrow> f32_exponent b = 255 \<and> f32_fraction b \<noteq> 0"

definition f32_is_inf :: "u32 \<Rightarrow> bool" where
  "f32_is_inf b \<longleftrightarrow> f32_exponent b = 255 \<and> f32_fraction b = 0"

text \<open>The magnitude of a finite number in units of the smallest subnormal.\<close>

definition f32_magnitude :: "u32 \<Rightarrow> nat" where
  "f32_magnitude b =
     (if f32_exponent b = 0 then f32_fraction b
      else (2 ^ 23 + f32_fraction b) * 2 ^ (f32_exponent b - 1))"

definition f32_value :: "u32 \<Rightarrow> int" where
  "f32_value b = (if f32_sign b then - int (f32_magnitude b) else int (f32_magnitude b))"

definition round_half_even :: "nat \<Rightarrow> nat \<Rightarrow> nat" where
  "round_half_even n d =
     (let q = n div d; r = n mod d in if 2 * r < d \<or> (2 * r = d \<and> even q) then q else q + 1)"

text \<open>Number of binary digits that do not fit into the 24 bits of a significand.\<close>

function excess_bits :: "nat \<Rightarrow> nat" where
  "excess_bits n = (if n < 2 ^ 24 then 0 else Suc (excess_bits (n div 2)))"
  by pat_completeness auto
termination by (relation "measure id") auto

declare excess_bits.simps [simp del]

text \<open>A significand that is rounded up to \<open>2\<^sup>2\<^sup>4\<close> carries into the exponent by itself.\<close>

definition f32_round :: "nat \<Rightarrow> u32" where
  "f32_round n =
     (let s = excess_bits n; bits = s * 2 ^ 23 + round_half_even n (2 ^ s)
      in if bits < 0x7f800000 then of_nat bits else 0x7f800000)"

section \<open>Operations\<close>

definition f32_nan :: u32 where "f32_nan = 0x7fc00000"

definition f32_add :: "u32 \<Rightarrow> u32 \<Rightarrow> u32" where
  "f32_add a b =
     (if f32_is_nan a \<or> f32_is_nan b then f32_nan
      else if f32_is_inf a then (if f32_is_inf b \<and> f32_sign a \<noteq> f32_sign b then f32_nan else a)
      else if f32_is_inf b then b
      else let v = f32_value a + f32_value b in
        if v = 0 then (if f32_sign a \<and> f32_sign b then 0x80000000 else 0)
        else if 0 < v then f32_round (nat v)
        else 0x80000000 OR f32_round (nat (- v)))"

definition f32_of_usize :: "usize \<Rightarrow> u32" where
  "f32_of_usize n = f32_round (unat n * 2 ^ 149)"

definition f32_eq :: "u32 \<Rightarrow> u32 \<Rightarrow> bool" where
  "f32_eq a b \<longleftrightarrow> \<not> f32_is_nan a \<and> \<not> f32_is_nan b \<and> (a = b \<or> f32_magnitude a = 0 \<and> f32_magnitude b = 0)"

definition f32_from_bytes :: "u8 list \<Rightarrow> u32" where
  "f32_from_bytes bs = of_nat (le_nat bs)"

text \<open>The loop \<open>for value in values { sum += *value; }\<close> from 0.0.\<close>

definition f32_sum :: "u32 list \<Rightarrow> u32" where
  "f32_sum values = foldl f32_add 0 values"

section \<open>Exact values\<close>

lemma excess_bits_range: "2 ^ (23 + s) \<le> n \<Longrightarrow> n < 2 ^ (24 + s) \<Longrightarrow> excess_bits n = s"
proof (induction s arbitrary: n)
  case 0
  then show ?case by (subst excess_bits.simps) simp
next
  case (Suc s)
  have "(2 ^ 24 :: nat) \<le> 2 ^ (23 + Suc s)" by (intro power_increasing) simp_all
  then have "\<not> n < 2 ^ 24" using Suc.prems(1) by linarith
  moreover have "2 ^ (23 + s) * 2 \<le> n" "n < 2 ^ (24 + s) * 2"
    using Suc.prems by (simp_all flip: power_Suc2)
  then have "excess_bits (n div 2) = s" by (intro Suc.IH) linarith+
  ultimately show ?case by (subst excess_bits.simps) simp
qed

lemma excess_bits_shift:
  assumes "2 ^ 23 \<le> q" "q < 2 ^ 24"
  shows "excess_bits (q * 2 ^ s) = s"
proof (rule excess_bits_range)
  show "2 ^ (23 + s) \<le> q * 2 ^ s" unfolding power_add using assms(1) by (rule mult_le_mono1)
  show "q * 2 ^ s < 2 ^ (24 + s)" unfolding power_add using assms(2) by (rule mult_less_mono1) simp
qed

lemma f32_round_exact:
  assumes q: "2 ^ 23 \<le> q" "q < 2 ^ 24" and s: "s < 254"
  shows "unat (f32_round (q * 2 ^ s)) = s * 2 ^ 23 + q"
proof -
  have "round_half_even (q * 2 ^ s) (2 ^ s) = q" by (simp add: round_half_even_def)
  moreover have "s * 2 ^ 23 \<le> 253 * 2 ^ 23" using s by (intro mult_le_mono1) simp
  then have "s * 2 ^ 23 + q < 0x7f800000" using q by simp
  ultimately have "f32_round (q * 2 ^ s) = of_nat (s * 2 ^ 23 + q)"
    using excess_bits_shift [OF q, of s] by (simp add: f32_round_def)
  then show ?thesis using \<open>s * 2 ^ 23 + q < 0x7f800000\<close> by (simp only:) (rule unat_of_nat_lt, simp)
qed

lemma f32_decode:
  assumes b: "unat b = s * 2 ^ 23 + q" and q: "2 ^ 23 \<le> q" "q < 2 ^ 24" and s: "s < 254"
  shows "f32_exponent b = s + 1" "f32_fraction b = q - 2 ^ 23" "f32_magnitude b = q * 2 ^ s"
    "\<not> f32_sign b" "\<not> f32_is_nan b" "\<not> f32_is_inf b" "f32_value b = int (q * 2 ^ s)"
proof -
  have eq: "unat b = (q - 2 ^ 23) + (s + 1) * 2 ^ 23" using b q by simp
  have r: "q - 2 ^ 23 < 2 ^ 23" using q by simp
  have div: "unat b div 2 ^ 23 = s + 1" unfolding eq using r by (subst div_mult_self1) simp_all
  then show e: "f32_exponent b = s + 1" using s by (simp add: f32_exponent_def)
  show f: "f32_fraction b = q - 2 ^ 23" unfolding f32_fraction_def eq using r by (simp only: mod_mult_self1 mod_less)
  show m: "f32_magnitude b = q * 2 ^ s" using e f q by (simp add: f32_magnitude_def)
  have "unat b < 2 ^ 31"
  proof -
    have "(s + 1) * 2 ^ 23 \<le> 254 * 2 ^ 23" using s by (intro mult_le_mono1) simp
    then show ?thesis unfolding eq using r by simp
  qed
  then have "b div 2 ^ 31 = 0" by (simp add: word_unat_eq_iff unat_div)
  then show sg: "\<not> f32_sign b" by (simp add: f32_sign_def bit_iff_odd)
  show "\<not> f32_is_nan b" "\<not> f32_is_inf b" using e s by (simp_all add: f32_is_nan_def f32_is_inf_def)
  show "f32_value b = int (q * 2 ^ s)" using sg m by (simp add: f32_value_def)
qed

text \<open>Integers up to \<open>2\<^sup>2\<^sup>4\<close> are represented exactly.\<close>

lemma normalized:
  fixes n :: nat
  assumes "0 < n" "n < 2 ^ 24"
  obtains q s where "n * 2 ^ 149 = q * 2 ^ s" "2 ^ 23 \<le> q" "q < 2 ^ 24" "126 \<le> s" "s \<le> 149"
proof -
  have "\<exists>q s. n * 2 ^ k = q * 2 ^ s \<and> 2 ^ 23 \<le> q \<and> q < 2 ^ 24 \<and> k - 23 \<le> s \<and> s \<le> k" if "23 \<le> k" for k
  proof -
    have "\<exists>j \<le> 23. 2 ^ 23 \<le> n * 2 ^ j \<and> n * 2 ^ j < 2 ^ 24"
    proof -
      let ?P = "\<lambda>j. 2 ^ 23 \<le> n * 2 ^ j"
      define j where "j = (LEAST j. ?P j)"
      have P: "?P 23" using assms(1) by simp
      have "?P j" unfolding j_def using P by (rule LeastI)
      moreover have "j \<le> 23" unfolding j_def using P by (rule Least_le)
      moreover have "n * 2 ^ j < 2 ^ 24"
      proof (cases j)
        case 0
        then show ?thesis using assms(2) by simp
      next
        case (Suc i)
        then have "\<not> ?P i" unfolding j_def using not_less_Least [of i ?P] by simp
        then show ?thesis using Suc by simp
      qed
      ultimately show ?thesis by blast
    qed
    then obtain j where j: "j \<le> 23" "2 ^ 23 \<le> n * 2 ^ j" "n * 2 ^ j < 2 ^ 24" by blast
    have "n * 2 ^ k = (n * 2 ^ j) * 2 ^ (k - j)"
      using j(1) that by (simp flip: power_add)
    then show ?thesis using j that by (intro exI [of _ "n * 2 ^ j"] exI [of _ "k - j"]) auto
  qed
  from this [of 149] that show ?thesis by auto
qed

definition f32_nat :: "nat \<Rightarrow> u32" where
  "f32_nat n = f32_round (n * 2 ^ 149)"

lemma f32_nat_decode:
  assumes "n < 2 ^ 24"
  shows "f32_value (f32_nat n) = int (n * 2 ^ 149)" "\<not> f32_is_nan (f32_nat n)" "\<not> f32_is_inf (f32_nat n)"
    "\<not> f32_sign (f32_nat n)"
proof -
  have "f32_value (f32_nat n) = int (n * 2 ^ 149) \<and> \<not> f32_is_nan (f32_nat n) \<and> \<not> f32_is_inf (f32_nat n) \<and>
      \<not> f32_sign (f32_nat n)"
  proof (cases "n = 0")
    case True
    then show ?thesis
      by (simp add: f32_nat_def f32_round_def excess_bits.simps [of 0] round_half_even_def f32_value_def f32_magnitude_def
          f32_fraction_def f32_exponent_def f32_is_nan_def f32_is_inf_def f32_sign_def)
  next
    case False
    then obtain q s where q: "n * 2 ^ 149 = q * 2 ^ s" "2 ^ 23 \<le> q" "q < 2 ^ 24" "126 \<le> s" "s \<le> 149"
      using normalized [of n] assms by auto
    then have s: "s < 254" by simp
    note dec = f32_decode [OF f32_round_exact [OF q(2,3) s] q(2,3) s]
    show ?thesis unfolding f32_nat_def q(1) using dec by simp
  qed
  then show "f32_value (f32_nat n) = int (n * 2 ^ 149)" "\<not> f32_is_nan (f32_nat n)" "\<not> f32_is_inf (f32_nat n)"
    "\<not> f32_sign (f32_nat n)" by simp_all
qed

lemma f32_add_nat:
  assumes "a < 2 ^ 24" "b < 2 ^ 24" "0 < a + b"
  shows "f32_add (f32_nat a) (f32_nat b) = f32_nat (a + b)"
proof -
  have sum: "f32_value (f32_nat a) + f32_value (f32_nat b) = int ((a + b) * 2 ^ 149)"
    using f32_nat_decode(1) assms(1,2) by (simp add: distrib_right)
  have "0 < (a + b) * 2 ^ 149" using assms(3) by (intro mult_pos_pos) simp_all
  then have "0 < int ((a + b) * 2 ^ 149)" "int ((a + b) * 2 ^ 149) \<noteq> 0"
    by (simp_all only: of_nat_0_less_iff of_nat_eq_0_iff neq0_conv)
  then show ?thesis
    unfolding f32_add_def Let_def sum
    using f32_nat_decode(2,3) assms(1,2) by (simp only: if_False if_True simp_thms f32_nat_def nat_int)
qed

lemma f32_sum_ones:
  "n < 2 ^ 24 \<Longrightarrow> f32_sum (replicate n (f32_nat 1)) = f32_nat n"
proof -
  assume n: "n < 2 ^ 24"
  have "k + n < 2 ^ 24 \<Longrightarrow> foldl f32_add (f32_nat k) (replicate n (f32_nat 1)) = f32_nat (k + n)" for k
  proof (induction n arbitrary: k)
    case (Suc n)
    then have "f32_add (f32_nat k) (f32_nat 1) = f32_nat (k + 1)" by (intro f32_add_nat) simp_all
    with Suc.IH [of "k + 1"] Suc.prems show ?case by simp
  qed simp
  from this [of 0] n show ?thesis
    by (simp add: f32_sum_def f32_nat_def f32_round_def excess_bits.simps [of 0] round_half_even_def)
qed

lemma f32_one: "f32_nat 1 = 0x3f800000"
proof -
  have "unat (f32_nat 1) = 126 * 2 ^ 23 + 2 ^ 23"
    using f32_round_exact [of "2 ^ 23" 126] by (simp add: f32_nat_def)
  then show ?thesis by (simp add: word_unat_eq_iff)
qed

text \<open>At \<open>2\<^sup>2\<^sup>4\<close> adding one is a tie that rounds back.\<close>

lemma f32_add_one_limit: "f32_add (f32_nat (2 ^ 24)) (f32_nat 1) = f32_nat (2 ^ 24)"
proof -
  have big: "f32_nat (2 ^ 24) = f32_round (2 ^ 23 * 2 ^ 150)" by (simp add: f32_nat_def)
  have val: "f32_value (f32_nat (2 ^ 24)) = int (2 ^ 24 * 2 ^ 149)" "\<not> f32_is_nan (f32_nat (2 ^ 24))"
    "\<not> f32_is_inf (f32_nat (2 ^ 24))"
    unfolding big using f32_decode [OF f32_round_exact [of "2 ^ 23" 150]] by simp_all
  have one: "f32_value (f32_nat 1) = int (2 ^ 149)" "\<not> f32_is_nan (f32_nat 1)" "\<not> f32_is_inf (f32_nat 1)"
    using f32_nat_decode [of 1] by simp_all
  have "excess_bits (2 ^ 24 * 2 ^ 149 + 2 ^ 149) = 150" by (rule excess_bits_range) simp_all
  moreover have "round_half_even (2 ^ 24 * 2 ^ 149 + 2 ^ 149) (2 ^ 150) = 2 ^ 23"
    by (simp add: round_half_even_def)
  ultimately have "f32_round (2 ^ 24 * 2 ^ 149 + 2 ^ 149) = f32_nat (2 ^ 24)"
    using excess_bits_shift [of "2 ^ 23" 150] unfolding big by (simp add: f32_round_def round_half_even_def)
  moreover have sum: "f32_value (f32_nat (2 ^ 24)) + f32_value (f32_nat 1) = int (2 ^ 24 * 2 ^ 149 + 2 ^ 149)"
    by (simp only: val one of_nat_add)
  have "0 < int (2 ^ 24 * 2 ^ 149 + 2 ^ 149)" "int (2 ^ 24 * 2 ^ 149 + 2 ^ 149) \<noteq> 0" by simp_all
  then have "f32_add (f32_nat (2 ^ 24)) (f32_nat 1) = f32_round (2 ^ 24 * 2 ^ 149 + 2 ^ 149)"
    unfolding f32_add_def Let_def sum using val(2,3) one(2,3) by (simp only: if_False if_True simp_thms nat_int)
  ultimately show ?thesis by simp
qed

section \<open>Properties\<close>

text \<open>C30: The reduction counts: adding \<open>n\<close> times 1.0 in single precision gives exactly \<open>n\<close> up to
  \<open>2\<^sup>2\<^sup>4\<close> and stays there for every larger \<open>n\<close>.\<close>

theorem f32_sum_counts_ones:
  "f32_sum (replicate n 0x3f800000) = f32_of_usize (of_nat (min n (2 ^ 24)))"
proof -
  have of: "f32_of_usize (of_nat (min n (2 ^ 24))) = f32_nat (min n (2 ^ 24))"
    by (simp add: f32_of_usize_def f32_nat_def unat_of_nat_lt min_def)
  show ?thesis
  proof (cases "n < 2 ^ 24")
    case True
    then show ?thesis using f32_sum_ones [OF True] of unfolding f32_one by (simp add: min_def)
  next
    case False
    then obtain k where k: "n = (2 ^ 24 - 1) + Suc k" using less_imp_Suc_add [of "2 ^ 24 - 1" n] by auto
    have "foldl f32_add (f32_nat (2 ^ 24)) (replicate k (f32_nat 1)) = f32_nat (2 ^ 24)" for k
      by (induction k) (simp_all only: replicate.simps foldl.simps f32_add_one_limit)
    moreover have "f32_add (f32_nat (2 ^ 24 - 1)) (f32_nat 1) = f32_nat (2 ^ 24 - 1 + 1)"
      by (rule f32_add_nat) simp_all
    moreover have "f32_sum (replicate (2 ^ 24 - 1) (f32_nat 1)) = f32_nat (2 ^ 24 - 1)"
      by (rule f32_sum_ones) simp
    ultimately have "f32_sum (replicate n (f32_nat 1)) = f32_nat (2 ^ 24)"
      unfolding k replicate_add f32_sum_def foldl_append replicate_Suc foldl_Cons by simp
    then show ?thesis using of False unfolding f32_one by (simp add: min_def)
  qed
qed

end
