(* ===== verification/Cell_Kernel.thy ===== *)
theory Cell_Kernel
  imports Cell_Schedule Cell_Tensor Cell_Pmm Cell_Supervisor Spsc_Queue Cell_Float
begin

text \<open>
  The kernel proper (\<open>crates/cell-baremetal/src/main.rs\<close>): the boot sequence of the bootstrap
  processor, which ends by starting one application processor, and the pipeline the two run from
  then on, as one step function per processor over the shared statics. A step is one access to a
  shared queue or flag together with the local work behind it; a turn of a spin loop is a step that
  changes nothing. Every line on the serial port, which a lock keeps in one piece, is an element
  of \<open>kn_serial\<close> with its arguments. Port I/O and the idle \<open>hlt\<close> loop are not modelled.
\<close>

section \<open>Serial lines\<close>

datatype log_line =
  PipelineActive | NoMemoryMap | PmmStatsLine usize usize usize | ProbeAllocFailed | ProbeAllocated usize u64
| ProbeFreeFailed | ProbeReturned | NoHhdm | TensorPrepared usize u64 | NoSmp | NoAp
| PipelineOnline | FeedbackActive | TensorQueueFull | TensorSum u32 usize | TraceOk u64
| FaultCaptured u16 u64 string | BatchCompleted | BatchInvariantFailed u32 u32 usize
| ApOnline | Reduced u64 usize usize | ReductionFailed | KernelPanic panic

section \<open>Constants\<close>

definition PACKET_COUNT :: usize where "PACKET_COUNT = 10"
definition TENSOR_ELEMENTS :: usize where "TENSOR_ELEMENTS = 1024"

definition INTER_CORE_CAP :: usize where "INTER_CORE_CAP = 16"
definition COMPLETION_CAP :: usize where "COMPLETION_CAP = 32"
definition TENSOR_CAP :: usize where "TENSOR_CAP = 2"

text \<open>\<open>1.0_f32.to_ne_bytes()\<close> on the little-endian target, and \<open>b"CELL data"\<close>.\<close>

definition one_bytes :: "u8 list" where
  "one_bytes = [0x00, 0x00, 0x80, 0x3f]"

definition cell_data :: "u8 list" where
  "cell_data = [0x43, 0x45, 0x4c, 0x4c, 0x20, 0x64, 0x61, 0x74, 0x61]"

section \<open>The two processors and their shared state\<close>

datatype bsp_loc =
  BspWaitReady ready_chunk
| BspSend usize ready_chunk
| BspPushTensor ready_chunk
| BspWaitTensor
| BspCollect supervisor usize u32 u32
| BspHalted
| BspPanicked panic

datatype ap_loc =
  ApEntry
| ApLoop
| ApPush work_result
| ApCount
| ApTensor
| ApReduce ready_chunk
| ApRelease trace_context usize u32 usize
| ApSignal
| ApHalted
| ApPanicked panic

record machine =
  kn_pmm :: bitmap_pmm
  kn_memory :: memory
  kn_inter :: "raw_payload spsc_queue"
  kn_completion :: "work_result spsc_queue"
  kn_tensor :: "ready_chunk spsc_queue"
  kn_ap_ready :: bool
  kn_ap_processed :: usize
  kn_tensor_complete :: bool
  kn_tensor_sum_bits :: usize
  kn_serial :: "log_line list"
  kn_bsp :: bsp_loc
  kn_ap :: ap_loc

definition println :: "log_line \<Rightarrow> machine \<Rightarrow> machine" where
  "println line m = m\<lparr>kn_serial := kn_serial m @ [line]\<rparr>"

definition bsp_panic :: "panic \<Rightarrow> machine \<Rightarrow> machine" where
  "bsp_panic e m = println (KernelPanic e) (m\<lparr>kn_bsp := BspPanicked e\<rparr>)"

definition ap_panic :: "panic \<Rightarrow> machine \<Rightarrow> machine" where
  "ap_panic e m = println (KernelPanic e) (m\<lparr>kn_ap := ApPanicked e\<rparr>)"

section \<open>Boot\<close>

datatype 'a boot = Halted | Panicked panic | Booted 'a

type_synonym 'a boot_prog = "log_line list \<times> 'a boot"

definition boot_bind :: "'a boot_prog \<Rightarrow> ('a \<Rightarrow> 'b boot_prog) \<Rightarrow> 'b boot_prog" where
  "boot_bind p f =
     (case p of
        (log, Booted x) \<Rightarrow> (log @ fst (f x), snd (f x))
      | (log, Halted) \<Rightarrow> (log, Halted)
      | (log, Panicked e) \<Rightarrow> (log, Panicked e))"

definition say :: "log_line \<Rightarrow> unit boot_prog" where
  "say line = ([line], Booted ())"

definition of_res :: "'a res \<Rightarrow> 'a boot_prog" where
  "of_res r = (case r of Inl e \<Rightarrow> ([KernelPanic e], Panicked e) | Inr x \<Rightarrow> ([], Booted x))"

definition require :: "log_line list \<Rightarrow> 'a option \<Rightarrow> 'a boot_prog" where
  "require log x = (case x of None \<Rightarrow> (log, Halted) | Some y \<Rightarrow> ([], Booted y))"

text \<open>The responses of the boot loader and the memory behind the direct map.\<close>

record boot_env =
  be_memmap :: "limine_memmap_response option"
  be_hhdm :: "limine_hhdm_response option"
  be_smp :: "limine_smp_response option"
  be_memory :: memory

text \<open>\<open>chunks_exact_mut\<close> visits the whole chunks of a view; each is overwritten with \<open>bs\<close>.\<close>

definition fill_chunks :: "memory \<Rightarrow> usize \<times> nat \<Rightarrow> u8 list \<Rightarrow> memory" where
  "fill_chunks m view bs =
     fold (\<lambda>i m. mem_write m (fst view + of_nat (i * length bs)) bs) [0..<snd view div length bs] m"

text \<open>From \<open>_start\<close> to the loop that looks for an application processor.\<close>

definition boot_memory :: "boot_env \<Rightarrow> bitmap_pmm boot_prog" where
  "boot_memory env =
     boot_bind (say PipelineActive) (\<lambda>_.
     boot_bind (require [NoMemoryMap] (be_memmap env)) (\<lambda>memory_map.
     boot_bind (of_res (pmm_initialize bitmap_pmm_new (mr_entries memory_map))) (\<lambda>(stats, pmm).
     boot_bind (say (PmmStatsLine (st_usable_frames stats) (st_free_frames stats) (st_max_frame stats))) (\<lambda>_.
     boot_bind (of_res (pmm_allocate pmm)) (\<lambda>(probe, pmm).
     boot_bind (require [ProbeAllocFailed] probe) (\<lambda>probe_frame.
     boot_bind (of_res (frame_address probe_frame)) (\<lambda>address.
     boot_bind (say (ProbeAllocated (pf_number probe_frame) address)) (\<lambda>_.
     boot_bind (of_res (pmm_free pmm probe_frame)) (\<lambda>(returned, pmm).
     boot_bind (require [ProbeFreeFailed] (if returned then Some () else None)) (\<lambda>_.
     boot_bind (say ProbeReturned) (\<lambda>_. ([], Booted pmm))))))))))))"

definition boot_tensor :: "boot_env \<Rightarrow> bitmap_pmm \<Rightarrow> (bitmap_pmm \<times> memory \<times> ready_chunk) boot_prog" where
  "boot_tensor env pmm =
     boot_bind (require [NoHhdm] (be_hhdm env)) (\<lambda>hhdm.
     boot_bind (of_res (pmm_allocate pmm)) (\<lambda>(frame, pmm).
     boot_bind (require [] frame) (\<lambda>tensor_frame.
     boot_bind (of_res (frame_address tensor_frame)) (\<lambda>address.
     boot_bind (require [] (checked_add (hr_offset hhdm) address)) (\<lambda>tensor_virtual.
     boot_bind (of_res (tensor_chunk_new (trace_context_new 100 100 0) address tensor_virtual
       (new_1d TENSOR_ELEMENTS) F32)) (\<lambda>tensor.
     let memory = fill_chunks (be_memory env) (as_mut_slice tensor) one_bytes in
     boot_bind (say (TensorPrepared TENSOR_ELEMENTS address)) (\<lambda>_.
       ([], Booted (pmm, memory, freeze tensor)))))))))"

definition boot_smp :: "boot_env \<Rightarrow> unit boot_prog" where
  "boot_smp env =
     boot_bind (require [NoSmp] (be_smp env)) (\<lambda>response.
       if \<exists>cpu \<in> set (sr_cpus response). si_lapic_id cpu \<noteq> sr_bsp_lapic_id response then ([], Booted ())
       else ([NoAp], Halted))"

definition start_machine :: "bitmap_pmm \<Rightarrow> memory \<Rightarrow> ready_chunk \<Rightarrow> machine" where
  "start_machine pmm memory tensor =
     \<lparr>kn_pmm = pmm, kn_memory = memory, kn_inter = spsc_new INTER_CORE_CAP,
       kn_completion = spsc_new COMPLETION_CAP, kn_tensor = spsc_new TENSOR_CAP,
       kn_ap_ready = False, kn_ap_processed = 0, kn_tensor_complete = False, kn_tensor_sum_bits = 0,
       kn_serial = [], kn_bsp = BspWaitReady tensor, kn_ap = ApEntry\<rparr>"

definition bsp_boot :: "boot_env \<Rightarrow> machine boot_prog" where
  "bsp_boot env =
     boot_bind (boot_memory env) (\<lambda>pmm.
     boot_bind (boot_tensor env pmm) (\<lambda>(pmm, memory, tensor).
     boot_bind (boot_smp env) (\<lambda>_. ([], Booted (start_machine pmm memory tensor)))))"

section \<open>The bootstrap processor\<close>

definition packet :: "usize \<Rightarrow> work_result + raw_payload" where
  "packet tid =
     raw_payload_new (trace_context_new tid tid 0) (if tid = 4 then [] else cell_data)"

definition bsp_send :: "usize \<Rightarrow> ready_chunk \<Rightarrow> machine \<Rightarrow> machine" where
  "bsp_send tid tensor m =
     (if tid > PACKET_COUNT then m\<lparr>kn_bsp := BspPushTensor tensor\<rparr>
      else case packet tid of
        Inl _ \<Rightarrow> m\<lparr>kn_bsp := BspHalted\<rparr>
      | Inr raw \<Rightarrow>
          (case push_inner INTER_CORE_CAP (kn_inter m) raw of
             Inl e \<Rightarrow> bsp_panic e m
           | Inr (Inl QueueFull, _) \<Rightarrow> m
           | Inr (Inr _, q) \<Rightarrow> m\<lparr>kn_inter := q, kn_bsp := BspSend (tid + 1) tensor\<rparr>))"

definition bsp_push_tensor :: "ready_chunk \<Rightarrow> machine \<Rightarrow> machine" where
  "bsp_push_tensor tensor m =
     (case push_inner TENSOR_CAP (kn_tensor m) tensor of
        Inl e \<Rightarrow> bsp_panic e m
      | Inr (Inl QueueFull, _) \<Rightarrow> println TensorQueueFull (m\<lparr>kn_bsp := BspHalted\<rparr>)
      | Inr (Inr _, q) \<Rightarrow> m\<lparr>kn_tensor := q, kn_bsp := BspWaitTensor\<rparr>)"

definition bsp_report :: "supervisor \<Rightarrow> usize \<Rightarrow> u32 \<Rightarrow> u32 \<Rightarrow> work_result \<Rightarrow> machine \<Rightarrow> machine" where
  "bsp_report sv reports succeeded failed result m =
     (case result of
        Completed context \<Rightarrow>
          println (TraceOk (trace_id context)) (m\<lparr>kn_bsp := BspCollect sv (reports + 1) (succeeded + 1) failed\<rparr>)
      | Failed context node_id reason \<Rightarrow>
          (case observe PACKET_COUNT sv result of
             Inl e \<Rightarrow> bsp_panic e m
           | Inr (_, sv) \<Rightarrow>
               println (FaultCaptured node_id (trace_id context) reason)
                 (m\<lparr>kn_bsp := BspCollect sv (reports + 1) succeeded (failed + 1)\<rparr>)))"

definition bsp_collect :: "supervisor \<Rightarrow> usize \<Rightarrow> u32 \<Rightarrow> u32 \<Rightarrow> machine \<Rightarrow> machine" where
  "bsp_collect sv reports succeeded failed m =
     (if reports < PACKET_COUNT then
        (case pop_inner COMPLETION_CAP (kn_completion m) of
           Inl e \<Rightarrow> bsp_panic e m
         | Inr (None, _) \<Rightarrow> m
         | Inr (Some result, q) \<Rightarrow> bsp_report sv reports succeeded failed result (m\<lparr>kn_completion := q\<rparr>))
      else println (if succeeded = 9 \<and> failed = 1 \<and> failure_count sv = 1 then BatchCompleted
                    else BatchInvariantFailed succeeded failed (failure_count sv)) (m\<lparr>kn_bsp := BspHalted\<rparr>))"

definition bsp_step :: "machine \<Rightarrow> machine" where
  "bsp_step m =
     (case kn_bsp m of
        BspWaitReady tensor \<Rightarrow>
          if kn_ap_ready m
          then println FeedbackActive (println PipelineOnline (m\<lparr>kn_bsp := BspSend 1 tensor\<rparr>)) else m
      | BspSend tid tensor \<Rightarrow> bsp_send tid tensor m
      | BspPushTensor tensor \<Rightarrow> bsp_push_tensor tensor m
      | BspWaitTensor \<Rightarrow>
          if kn_tensor_complete m
          then println (TensorSum (ucast (kn_tensor_sum_bits m)) TENSOR_ELEMENTS)
            (m\<lparr>kn_bsp := BspCollect (supervisor_new PACKET_COUNT) 0 0 0\<rparr>)
          else m
      | BspCollect sv reports succeeded failed \<Rightarrow> bsp_collect sv reports succeeded failed m
      | BspHalted \<Rightarrow> m
      | BspPanicked _ \<Rightarrow> m)"

section \<open>The application processor\<close>

definition ap_process :: "raw_payload \<Rightarrow> work_result" where
  "ap_process raw =
     (let verifier = validator_capability_new 0xCE112021 in
      if raw_payload_is_empty raw then Failed (rp_context raw) 1 ''Corrupted payload in AP1''
      else Completed (vp_context (raw_payload_validate raw verifier)))"

definition ap_loop :: "machine \<Rightarrow> machine" where
  "ap_loop m =
     (if kn_ap_processed m < PACKET_COUNT then
        (case pop_inner INTER_CORE_CAP (kn_inter m) of
           Inl e \<Rightarrow> ap_panic e m
         | Inr (None, _) \<Rightarrow> m
         | Inr (Some raw, q) \<Rightarrow> m\<lparr>kn_inter := q, kn_ap := ApPush (ap_process raw)\<rparr>)
      else m\<lparr>kn_ap := ApTensor\<rparr>)"

definition ap_push :: "work_result \<Rightarrow> machine \<Rightarrow> machine" where
  "ap_push result m =
     (case push_inner COMPLETION_CAP (kn_completion m) result of
        Inl e \<Rightarrow> ap_panic e m
      | Inr (Inl QueueFull, _) \<Rightarrow> m
      | Inr (Inr _, q) \<Rightarrow> m\<lparr>kn_completion := q, kn_ap := ApCount\<rparr>)"

definition ap_tensor :: "machine \<Rightarrow> machine" where
  "ap_tensor m =
     (case pop_inner TENSOR_CAP (kn_tensor m) of
        Inl e \<Rightarrow> ap_panic e m
      | Inr (None, _) \<Rightarrow> m
      | Inr (Some tensor, q) \<Rightarrow> m\<lparr>kn_tensor := q, kn_ap := ApReduce tensor\<rparr>)"

definition ap_reduce :: "ready_chunk \<Rightarrow> machine \<Rightarrow> machine" where
  "ap_reduce tensor m =
     (case as_slice (kn_memory m) 4 4 tensor of
        Inl e \<Rightarrow> ap_panic e m
      | Inr values \<Rightarrow>
          (let tensor_sum = f32_sum (map f32_from_bytes values);
               (context, phys_addr) = deconstruct tensor
           in m\<lparr>kn_tensor_sum_bits := ucast tensor_sum,
                kn_ap := ApRelease context phys_addr tensor_sum (of_nat (length values))\<rparr>))"

definition ap_release :: "trace_context \<Rightarrow> usize \<Rightarrow> u32 \<Rightarrow> usize \<Rightarrow> machine \<Rightarrow> machine" where
  "ap_release context phys_addr tensor_sum element_count m =
     (case pmm_free (kn_pmm m) (from_address phys_addr) of
        Inl e \<Rightarrow> ap_panic e m
      | Inr (returned, pmm) \<Rightarrow>
          println (if returned \<and> f32_eq tensor_sum (f32_of_usize TENSOR_ELEMENTS)
                   then Reduced (trace_id context) element_count phys_addr else ReductionFailed)
            (m\<lparr>kn_pmm := pmm, kn_ap := ApSignal\<rparr>))"

definition ap_step :: "machine \<Rightarrow> machine" where
  "ap_step m =
     (case kn_ap m of
        ApEntry \<Rightarrow> println ApOnline (m\<lparr>kn_ap_ready := True, kn_ap := ApLoop\<rparr>)
      | ApLoop \<Rightarrow> ap_loop m
      | ApPush result \<Rightarrow> ap_push result m
      | ApCount \<Rightarrow> m\<lparr>kn_ap_processed := kn_ap_processed m + 1, kn_ap := ApLoop\<rparr>
      | ApTensor \<Rightarrow> ap_tensor m
      | ApReduce tensor \<Rightarrow> ap_reduce tensor m
      | ApRelease context phys_addr tensor_sum element_count \<Rightarrow> ap_release context phys_addr tensor_sum element_count m
      | ApSignal \<Rightarrow> m\<lparr>kn_tensor_complete := True, kn_ap := ApHalted\<rparr>
      | ApHalted \<Rightarrow> m
      | ApPanicked _ \<Rightarrow> m)"

section \<open>Interleavings\<close>

fun cpu_step :: "cpu \<Rightarrow> machine \<Rightarrow> machine" where
  "cpu_step BSP m = bsp_step m"
| "cpu_step AP m = ap_step m"

inductive kernel_step :: "machine \<Rightarrow> machine \<Rightarrow> bool" where
  step: "kernel_step m (cpu_step c m)"

inductive_cases kernel_stepE: "kernel_step m m'"

text \<open>A schedule is the list of the processors that take the steps.\<close>

definition run :: "cpu list \<Rightarrow> machine \<Rightarrow> machine" where
  "run sched m = fold cpu_step sched m"

end
