(* ===== verification/Cell_Pipeline.thy ===== *)
theory Cell_Pipeline
  imports Cell_Kernel
begin

text \<open>
  The two processors of \<open>Cell_Kernel\<close> under every interleaving: an invariant over the reachable
  states, a measure that every step which is not a turn of a spin loop decreases, and the boot
  sequence that establishes the invariant. The queues are used through \<open>bounded_fifo\<close> only, the
  frame allocator through \<open>frame_allocator\<close>.
\<close>

section \<open>What the packets become\<close>

lemma capacities [simp]:
  "unat INTER_CORE_CAP = 16" "unat COMPLETION_CAP = 32" "unat TENSOR_CAP = 2" "unat PACKET_COUNT = 10"
  by (simp_all add: INTER_CORE_CAP_def COMPLETION_CAP_def TENSOR_CAP_def PACKET_COUNT_def)

definition packet_context :: "nat \<Rightarrow> trace_context" where
  "packet_context n = trace_context_new (of_nat n) (of_nat n) 0"

definition pkt :: "nat \<Rightarrow> raw_payload" where
  "pkt n = projr (packet (of_nat n))"

definition verdict :: "nat \<Rightarrow> work_result" where
  "verdict n = (if n = 4 then Failed (packet_context n) 1 ''Corrupted payload in AP1'' else Completed (packet_context n))"

definition fault_record :: failure_record where
  "fault_record = \<lparr>fr_context = packet_context 4, fr_node_id = 1, fr_reason = ''Corrupted payload in AP1''\<rparr>"

lemma packet_pkt: "packet (of_nat n) = Inr (pkt n)"
  by (cases "packet (of_nat n)") (auto simp: pkt_def packet_def raw_payload_new_Inl cell_data_def split: if_splits)

lemma ap_process_pkt:
  assumes "n < 2 ^ 64"
  shows "ap_process (pkt n) = verdict n"
proof -
  have n: "of_nat n = (4 :: usize) \<longleftrightarrow> n = 4" using assms by (simp add: word_unat_eq_iff unat_of_nat_lt)
  have new: "raw_payload_new (packet_context n) (if n = 4 then [] else cell_data) = Inr (pkt n)"
    using packet_pkt [of n] n by (simp add: packet_def packet_context_def)
  then have "raw_payload_is_empty (pkt n) \<longleftrightarrow> n = 4"
    using raw_payload_is_empty_new [OF new] by (simp add: cell_data_def)
  moreover have "rp_context (pkt n) = packet_context n" using new by (auto simp: raw_payload_new_Inr)
  ultimately show ?thesis by (cases "n = 4") (simp_all add: ap_process_def verdict_def raw_payload_validate_def)
qed

text \<open>What the supervisor has seen after \<open>r\<close> reports.\<close>

definition oks :: "nat \<Rightarrow> nat" where "oks r = (if r < 4 then r else r - 1)"
definition faults :: "nat \<Rightarrow> failure_record list" where "faults r = (if r < 4 then [] else [fault_record])"

lemma oks_Suc: "oks (Suc r) = (if r = 3 then oks r else Suc (oks r))"
  by (auto simp: oks_def)

lemma faults_Suc: "faults (Suc r) = (if r = 3 then faults r @ [fault_record] else faults r)"
  by (auto simp: faults_def)

definition report :: "nat \<Rightarrow> log_line" where
  "report n = (if n = 4 then FaultCaptured 1 4 ''Corrupted payload in AP1'' else TraceOk (of_nat n))"

fun is_report :: "log_line \<Rightarrow> bool" where
  "is_report (TraceOk _) = True"
| "is_report (FaultCaptured _ _ _) = True"
| "is_report _ = False"

fun is_bad :: "log_line \<Rightarrow> bool" where
  "is_bad TensorQueueFull = True"
| "is_bad (BatchInvariantFailed _ _ _) = True"
| "is_bad ReductionFailed = True"
| "is_bad (KernelPanic _) = True"
| "is_bad _ = False"

section \<open>The invariant\<close>

text \<open>Packets sent, reports collected, packets taken and results produced, by the locations.\<close>

fun sent :: "bsp_loc \<Rightarrow> nat" where
  "sent (BspWaitReady _) = 0"
| "sent (BspSend tid _) = unat tid - 1"
| "sent _ = 10"

fun collected :: "bsp_loc \<Rightarrow> nat" where
  "collected (BspCollect _ reports _ _) = unat reports"
| "collected BspHalted = 10"
| "collected _ = 0"

fun taken :: "ap_loc \<Rightarrow> nat \<Rightarrow> nat" where
  "taken (ApPush _) p = Suc p"
| "taken ApCount p = Suc p"
| "taken _ p = p"

fun produced :: "ap_loc \<Rightarrow> nat \<Rightarrow> nat" where
  "produced ApCount p = Suc p"
| "produced _ p = p"

fun waits_ready :: "bsp_loc \<Rightarrow> bool" where
  "waits_ready (BspWaitReady _) = True"
| "waits_ready _ = False"

fun tensor_sent :: "bsp_loc \<Rightarrow> bool" where
  "tensor_sent BspWaitTensor = True"
| "tensor_sent (BspCollect _ _ _ _) = True"
| "tensor_sent BspHalted = True"
| "tensor_sent _ = False"

fun past_wait :: "bsp_loc \<Rightarrow> bool" where
  "past_wait (BspCollect _ _ _ _) = True"
| "past_wait BspHalted = True"
| "past_wait _ = False"

fun tensor_taken :: "ap_loc \<Rightarrow> bool" where
  "tensor_taken (ApReduce _) = True"
| "tensor_taken (ApRelease _ _ _ _) = True"
| "tensor_taken ApSignal = True"
| "tensor_taken ApHalted = True"
| "tensor_taken _ = False"

fun reduced :: "ap_loc \<Rightarrow> bool" where
  "reduced (ApRelease _ _ _ _) = True"
| "reduced ApSignal = True"
| "reduced ApHalted = True"
| "reduced _ = False"

fun released :: "ap_loc \<Rightarrow> bool" where
  "released ApSignal = True"
| "released ApHalted = True"
| "released _ = False"

fun bsp_ok :: "ready_chunk \<Rightarrow> bsp_loc \<Rightarrow> bool" where
  "bsp_ok chunk (BspWaitReady c) = (c = chunk)"
| "bsp_ok chunk (BspSend tid c) = (c = chunk \<and> 1 \<le> unat tid \<and> unat tid \<le> 11)"
| "bsp_ok chunk (BspPushTensor c) = (c = chunk)"
| "bsp_ok chunk BspWaitTensor = True"
| "bsp_ok chunk (BspCollect sv r s f) = (unat r \<le> 10 \<and> supervisor_ok PACKET_COUNT sv \<and>
     supervisor_log sv = faults (unat r) \<and> s = of_nat (oks (unat r)) \<and> f = of_nat (length (faults (unat r))))"
| "bsp_ok chunk BspHalted = True"
| "bsp_ok chunk (BspPanicked _) = False"

fun ap_ok :: "ready_chunk \<Rightarrow> nat \<Rightarrow> ap_loc \<Rightarrow> bool" where
  "ap_ok chunk p ApEntry = (p = 0)"
| "ap_ok chunk p ApLoop = (p \<le> 10)"
| "ap_ok chunk p (ApPush w) = (p < 10 \<and> w = verdict (Suc p))"
| "ap_ok chunk p ApCount = (p < 10)"
| "ap_ok chunk p ApTensor = (p = 10)"
| "ap_ok chunk p (ApReduce c) = (p = 10 \<and> c = chunk)"
| "ap_ok chunk p (ApRelease ctx a s n) = (p = 10 \<and> deconstruct chunk = (ctx, a) \<and> s = f32_nat 1024 \<and> n = 1024)"
| "ap_ok chunk p ApSignal = (p = 10)"
| "ap_ok chunk p ApHalted = (p = 10)"
| "ap_ok chunk p (ApPanicked _) = False"

definition locs_inv :: "ready_chunk \<Rightarrow> machine \<Rightarrow> bool" where
  "locs_inv chunk m \<longleftrightarrow> bsp_ok chunk (kn_bsp m) \<and> ap_ok chunk (unat (kn_ap_processed m)) (kn_ap m) \<and>
     (kn_ap_ready m \<longleftrightarrow> kn_ap m \<noteq> ApEntry) \<and> (\<not> waits_ready (kn_bsp m) \<longrightarrow> kn_ap_ready m) \<and>
     (kn_tensor_complete m \<longleftrightarrow> kn_ap m = ApHalted) \<and> (past_wait (kn_bsp m) \<longrightarrow> kn_tensor_complete m) \<and>
     (reduced (kn_ap m) \<longrightarrow> kn_tensor_sum_bits m = ucast (f32_nat 1024))"

definition queues_inv :: "ready_chunk \<Rightarrow> machine \<Rightarrow> bool" where
  "queues_inv chunk m \<longleftrightarrow>
     (let a = kn_ap m; b = kn_bsp m; p = unat (kn_ap_processed m) in
      spsc_inv INTER_CORE_CAP (kn_inter m) \<and> taken a p \<le> sent b \<and>
      spsc_contents INTER_CORE_CAP (kn_inter m) = map pkt [Suc (taken a p)..<Suc (sent b)] \<and>
      spsc_inv COMPLETION_CAP (kn_completion m) \<and> collected b \<le> produced a p \<and>
      spsc_contents COMPLETION_CAP (kn_completion m) = map verdict [Suc (collected b)..<Suc (produced a p)] \<and>
      spsc_inv TENSOR_CAP (kn_tensor m) \<and> (tensor_taken a \<longrightarrow> tensor_sent b) \<and>
      spsc_contents TENSOR_CAP (kn_tensor m) = (if tensor_sent b \<and> \<not> tensor_taken a then [chunk] else []))"

definition memory_inv :: "ready_chunk \<Rightarrow> nat set \<Rightarrow> machine \<Rightarrow> bool" where
  "memory_inv chunk U m \<longleftrightarrow>
     (let n = unat (pf_number (from_address (snd (deconstruct chunk)))) in
      as_slice (kn_memory m) 4 4 chunk = Inr (replicate 1024 one_bytes) \<and> pmm_ok (kn_pmm m) \<and> n \<in> U \<and>
      usable_set (kn_pmm m) = U \<and> free_set (kn_pmm m) = (if released (kn_ap m) then U else U - {n}))"

definition serial_inv :: "machine \<Rightarrow> bool" where
  "serial_inv m \<longleftrightarrow> filter is_report (kn_serial m) = map report [1..<Suc (collected (kn_bsp m))] \<and>
     (kn_bsp m = BspHalted \<longrightarrow> BatchCompleted \<in> set (kn_serial m)) \<and> (\<forall>line \<in> set (kn_serial m). \<not> is_bad line)"

definition pipe_inv :: "ready_chunk \<Rightarrow> nat set \<Rightarrow> machine \<Rightarrow> bool" where
  "pipe_inv chunk U m \<longleftrightarrow> locs_inv chunk m \<and> queues_inv chunk m \<and> memory_inv chunk U m \<and> serial_inv m"

lemmas inv_defs = pipe_inv_def locs_inv_def queues_inv_def memory_inv_def serial_inv_def

section \<open>The measure\<close>

fun bsp_rank :: "bsp_loc \<Rightarrow> nat" where
  "bsp_rank (BspWaitReady _) = 25"
| "bsp_rank (BspSend tid _) = 25 - unat tid"
| "bsp_rank (BspPushTensor _) = 13"
| "bsp_rank BspWaitTensor = 12"
| "bsp_rank (BspCollect _ r _ _) = 11 - unat r"
| "bsp_rank _ = 0"

fun ap_rank :: "ap_loc \<Rightarrow> nat \<Rightarrow> nat" where
  "ap_rank ApEntry p = 37"
| "ap_rank ApLoop p = 36 - 3 * p"
| "ap_rank (ApPush _) p = 35 - 3 * p"
| "ap_rank ApCount p = 34 - 3 * p"
| "ap_rank ApTensor p = 5"
| "ap_rank (ApReduce _) p = 4"
| "ap_rank (ApRelease _ _ _ _) p = 3"
| "ap_rank ApSignal p = 2"
| "ap_rank _ p = 0"

definition rank_of :: "machine \<Rightarrow> nat" where
  "rank_of m = bsp_rank (kn_bsp m) + ap_rank (kn_ap m) (unat (kn_ap_processed m))"

text \<open>When a processor waits; a step then changes nothing, and otherwise the work left becomes less.\<close>

definition bsp_waits :: "machine \<Rightarrow> bool" where
  "bsp_waits m \<longleftrightarrow> (case kn_bsp m of
      BspWaitReady _ \<Rightarrow> \<not> kn_ap_ready m
    | BspWaitTensor \<Rightarrow> \<not> kn_tensor_complete m
    | BspHalted \<Rightarrow> True
    | _ \<Rightarrow> False)"

definition ap_waits :: "machine \<Rightarrow> bool" where
  "ap_waits m \<longleftrightarrow> (case kn_ap m of
      ApLoop \<Rightarrow> unat (kn_ap_processed m) < 10 \<and> sent (kn_bsp m) = unat (kn_ap_processed m)
    | ApTensor \<Rightarrow> \<not> tensor_sent (kn_bsp m)
    | ApHalted \<Rightarrow> True
    | _ \<Rightarrow> False)"

definition good_step :: "ready_chunk \<Rightarrow> nat set \<Rightarrow> bool \<Rightarrow> machine \<Rightarrow> machine \<Rightarrow> bool" where
  "good_step chunk U waits m m' \<longleftrightarrow> waits \<and> m' = m \<or> pipe_inv chunk U m' \<and> rank_of m' < rank_of m"

lemma good_stepI: "pipe_inv chunk U m' \<Longrightarrow> rank_of m' < rank_of m \<Longrightarrow> good_step chunk U waits m m'"
  by (simp add: good_step_def)

lemma good_step_waits: "waits \<Longrightarrow> good_step chunk U waits m m"
  by (simp add: good_step_def)

lemma println_fields [simp]:
  "kn_pmm (println l m) = kn_pmm m" "kn_memory (println l m) = kn_memory m" "kn_inter (println l m) = kn_inter m"
  "kn_completion (println l m) = kn_completion m" "kn_tensor (println l m) = kn_tensor m"
  "kn_ap_ready (println l m) = kn_ap_ready m" "kn_ap_processed (println l m) = kn_ap_processed m"
  "kn_tensor_complete (println l m) = kn_tensor_complete m" "kn_tensor_sum_bits (println l m) = kn_tensor_sum_bits m"
  "kn_bsp (println l m) = kn_bsp m" "kn_ap (println l m) = kn_ap m" "kn_serial (println l m) = kn_serial m @ [l]"
  by (simp_all add: println_def)

lemma packets_Cons: "i < j \<Longrightarrow> map f [Suc i..<Suc j] = f (Suc i) # map f [Suc (Suc i)..<Suc j]"
  by (simp add: upt_conv_Cons del: upt_Suc)

lemma packets_snoc: "i \<le> j \<Longrightarrow> map f [Suc i..<Suc (Suc j)] = map f [Suc i..<Suc j] @ [f (Suc j)]"
  by simp

lemma unat_Suc: "unat (x :: usize) < 100 \<Longrightarrow> unat (x + 1) = Suc (unat x)"
  using unat_add_no_wrap [of x 1] by simp

section \<open>Steps of the bootstrap processor\<close>

lemma bsp_wait_ready_good:
  assumes "pipe_inv chunk U m" "kn_bsp m = BspWaitReady c"
  shows "good_step chunk U (bsp_waits m) m (bsp_step m)"
proof (cases "kn_ap_ready m")
  case True
  show ?thesis
    unfolding bsp_step_def assms(2) bsp_loc.case if_P [OF True]
    by (rule good_stepI) (use assms True in \<open>auto simp: inv_defs Let_def rank_of_def\<close>)
qed (use assms in \<open>simp add: bsp_step_def bsp_waits_def good_step_waits\<close>)

lemma bsp_send_good:
  assumes inv: "pipe_inv chunk U m" and loc: "kn_bsp m = BspSend tid c"
  shows "good_step chunk U (bsp_waits m) m (bsp_step m)"
proof -
  let ?p = "unat (kn_ap_processed m)"
  have tid: "1 \<le> unat tid" "unat tid \<le> 11" "c = chunk" using inv loc by (simp_all add: inv_defs)
  show ?thesis
  proof (cases "tid > PACKET_COUNT")
    case True
    then have "unat tid = 11" using tid by (simp add: word_less_nat_alt)
    then show ?thesis
      using inv loc True tid(3)
      by (simp add: bsp_step_def bsp_send_def) (rule good_stepI, auto simp: inv_defs Let_def rank_of_def)
  next
    case False
    then have le: "unat tid \<le> 10" by (simp add: word_less_nat_alt not_less)
    obtain n where n: "unat tid = Suc n" using tid(1) by (cases "unat tid") auto
    have "packet tid = Inr (pkt (unat tid))" using packet_pkt [of "unat tid"] by simp
    then have raw: "packet tid = Inr (pkt (Suc n))" by (simp only: n)
    have q: "spsc_inv INTER_CORE_CAP (kn_inter m)" "taken (kn_ap m) ?p \<le> n"
      "spsc_contents INTER_CORE_CAP (kn_inter m) = map pkt [Suc (taken (kn_ap m) ?p)..<Suc n]"
      using inv loc n by (simp_all add: inv_defs Let_def)
    have "length (spsc_contents INTER_CORE_CAP (kn_inter m)) < unat INTER_CORE_CAP"
      unfolding q(3) using le n by (simp del: upt_Suc)
    from spsc.push_room [OF q(1) this, of "pkt (Suc n)"] obtain q' where
      q': "push_inner INTER_CORE_CAP (kn_inter m) (pkt (Suc n)) = Inr (Inr (), q')" "spsc_inv INTER_CORE_CAP q'"
      "spsc_contents INTER_CORE_CAP q' = spsc_contents INTER_CORE_CAP (kn_inter m) @ [pkt (Suc n)]" by blast
    have step: "bsp_step m = m\<lparr>kn_inter := q', kn_bsp := BspSend (tid + 1) chunk\<rparr>"
      using False raw q'(1) tid(3) by (simp add: bsp_step_def loc bsp_send_def)
    have Suc: "unat (tid + 1) = Suc (Suc n)" using unat_Suc [of tid] le n by simp
    have "spsc_contents INTER_CORE_CAP q' = map pkt [Suc (taken (kn_ap m) ?p)..<Suc (Suc n)]"
      unfolding q'(3) q(3) using q(2) by simp
    then show ?thesis
      unfolding step using inv loc q' Suc n le q(2)
      by (intro good_stepI) (auto simp: inv_defs Let_def rank_of_def)
  qed
qed

lemma bsp_push_tensor_good:
  assumes inv: "pipe_inv chunk U m" and loc: "kn_bsp m = BspPushTensor c"
  shows "good_step chunk U (bsp_waits m) m (bsp_step m)"
proof -
  have q: "spsc_inv TENSOR_CAP (kn_tensor m)" "spsc_contents TENSOR_CAP (kn_tensor m) = []" "c = chunk"
    "\<not> tensor_taken (kn_ap m)"
    using inv loc by (auto simp: inv_defs Let_def)
  then have "length (spsc_contents TENSOR_CAP (kn_tensor m)) < unat TENSOR_CAP" by simp
  from spsc.push_room [OF q(1) this, of chunk] obtain q' where
    q': "push_inner TENSOR_CAP (kn_tensor m) chunk = Inr (Inr (), q')" "spsc_inv TENSOR_CAP q'"
    "spsc_contents TENSOR_CAP q' = [chunk]" using q(2) by auto
  have step: "bsp_step m = m\<lparr>kn_tensor := q', kn_bsp := BspWaitTensor\<rparr>"
    using q'(1) q(3) by (simp add: bsp_step_def loc bsp_push_tensor_def)
  show ?thesis
    unfolding step using inv loc q' q
    by (intro good_stepI) (auto simp: inv_defs Let_def rank_of_def)
qed

lemma bsp_wait_tensor_good:
  assumes inv: "pipe_inv chunk U m" and loc: "kn_bsp m = BspWaitTensor"
  shows "good_step chunk U (bsp_waits m) m (bsp_step m)"
proof (cases "kn_tensor_complete m")
  case True
  show ?thesis
    unfolding bsp_step_def loc bsp_loc.case if_P [OF True]
    by (rule good_stepI)
       (use inv loc True in \<open>auto simp: inv_defs Let_def rank_of_def supervisor_new_ok faults_def oks_def\<close>)
qed (use loc in \<open>simp add: bsp_step_def bsp_waits_def good_step_waits\<close>)

text \<open>One report.\<close>

lemma bsp_report_eq:
  assumes r: "unat r = k" "k < 10" and sv: "supervisor_ok PACKET_COUNT sv" "supervisor_log sv = faults k"
    and counts: "s = of_nat (oks k)" "f = of_nat (length (faults k))"
  shows "\<exists>sv'. bsp_report sv r s f (verdict (Suc k)) m =
      println (report (Suc k)) (m\<lparr>kn_bsp := BspCollect sv' (r + 1) (of_nat (oks (Suc k))) (of_nat (length (faults (Suc k))))\<rparr>) \<and>
    supervisor_ok PACKET_COUNT sv' \<and> supervisor_log sv' = faults (Suc k)"
proof (cases "k = 3")
  case True
  obtain sv' where sv': "observe PACKET_COUNT sv (verdict 4) = Inr (record_of (verdict 4), sv')"
    "supervisor_ok PACKET_COUNT sv'"
    "supervisor_log sv' = take (unat PACKET_COUNT) (supervisor_log sv @ (case record_of (verdict 4) of None \<Rightarrow> [] | Some f \<Rightarrow> [f]))"
    using sv_log.obs_log [OF sv(1), of "verdict 4"] by blast
  have "record_of (verdict 4) = Some fault_record" by (simp add: verdict_def fault_record_def)
  then have "supervisor_log sv' = faults (Suc k)"
    using sv'(3) sv(2) True by (simp add: faults_def)
  moreover have "bsp_report sv r s f (verdict (Suc k)) m =
      println (report (Suc k)) (m\<lparr>kn_bsp := BspCollect sv' (r + 1) (of_nat (oks (Suc k))) (of_nat (length (faults (Suc k))))\<rparr>)"
    using True sv'(1) counts
    by (simp add: bsp_report_def verdict_def report_def oks_def faults_def packet_context_def trace_context_new_def)
  ultimately show ?thesis using sv'(2) by blast
next
  case False
  then have "verdict (Suc k) = Completed (packet_context (Suc k))" "report (Suc k) = TraceOk (of_nat (Suc k))"
    by (simp_all add: verdict_def report_def)
  with False counts sv show ?thesis
    by (intro exI [of _ sv]) (simp add: bsp_report_def oks_Suc faults_Suc packet_context_def trace_context_new_def add.commute)
qed

lemma bsp_collect_good:
  assumes inv: "pipe_inv chunk U m" and loc: "kn_bsp m = BspCollect sv r s f"
  shows "good_step chunk U (bsp_waits m) m (bsp_step m)"
proof -
  let ?p = "unat (kn_ap_processed m)"
  define k where "k = unat r"
  have sv: "supervisor_ok PACKET_COUNT sv" "supervisor_log sv = faults k" "k \<le> 10"
    and counts: "s = of_nat (oks k)" "f = of_nat (length (faults k))" and halted: "kn_ap m = ApHalted" "?p = 10"
    using inv loc by (auto simp: inv_defs k_def)
  show ?thesis
  proof (cases "r < PACKET_COUNT")
    case True
    then have k: "k < 10" by (simp add: word_less_nat_alt k_def)
    have q: "spsc_inv COMPLETION_CAP (kn_completion m)"
      "spsc_contents COMPLETION_CAP (kn_completion m) = map verdict [Suc k..<11]"
      using inv loc halted by (simp_all add: inv_defs Let_def k_def del: upt_Suc)
    then have "spsc_contents COMPLETION_CAP (kn_completion m) = verdict (Suc k) # map verdict [Suc (Suc k)..<11]"
      using k by (simp add: upt_conv_Cons)
    from spsc.pop_cons [OF q(1) this] obtain q' where
      q': "pop_inner COMPLETION_CAP (kn_completion m) = Inr (Some (verdict (Suc k)), q')" "spsc_inv COMPLETION_CAP q'"
      "spsc_contents COMPLETION_CAP q' = map verdict [Suc (Suc k)..<11]" by blast
    obtain sv' where sv': "bsp_report sv r s f (verdict (Suc k)) (m\<lparr>kn_completion := q'\<rparr>) =
        println (report (Suc k)) (m\<lparr>kn_completion := q', kn_bsp := BspCollect sv' (r + 1) (of_nat (oks (Suc k))) (of_nat (length (faults (Suc k))))\<rparr>)"
      "supervisor_ok PACKET_COUNT sv'" "supervisor_log sv' = faults (Suc k)"
      using bsp_report_eq [OF k_def [symmetric] k sv(1,2) counts, of "m\<lparr>kn_completion := q'\<rparr>"] by auto
    have Suc: "unat (r + 1) = Suc k" using unat_Suc [of r] k by (simp add: k_def)
    have step: "bsp_step m = println (report (Suc k)) (m\<lparr>kn_completion := q',
        kn_bsp := BspCollect sv' (r + 1) (of_nat (oks (Suc k))) (of_nat (length (faults (Suc k))))\<rparr>)"
      using True q'(1) sv'(1) by (simp add: bsp_step_def loc bsp_collect_def)
    have line: "is_report (report (Suc k))" "\<not> is_bad (report (Suc k))" by (simp_all add: report_def)
    show ?thesis
      unfolding step
    proof (rule good_stepI)
      show "rank_of (println (report (Suc k)) (m\<lparr>kn_completion := q',
          kn_bsp := BspCollect sv' (r + 1) (of_nat (oks (Suc k))) (of_nat (length (faults (Suc k))))\<rparr>)) < rank_of m"
        using k Suc loc by (simp add: rank_of_def k_def)
    qed (use inv loc q' sv' Suc k halted line in \<open>auto simp: inv_defs Let_def k_def simp del: upt_Suc simp: packets_snoc [of 0, simplified]\<close>)
  next
    case False
    then have k: "k = 10" using sv(3) by (simp add: word_less_nat_alt k_def)
    have "unat (failure_count sv) = length (supervisor_log sv)"
      using length_supervisor_log [OF sv(1)] by (simp add: failure_count_def)
    then have "failure_count sv = 1" using sv(2) k by (simp add: faults_def word_unat_eq_iff)
    then have step: "bsp_step m = println BatchCompleted (m\<lparr>kn_bsp := BspHalted\<rparr>)"
      using False counts k by (simp add: bsp_step_def loc bsp_collect_def oks_def faults_def)
    show ?thesis
      unfolding step using inv loc k halted
      by (intro good_stepI) (auto simp: inv_defs Let_def rank_of_def k_def simp del: upt_Suc)
  qed
qed

lemma bsp_step_good:
  assumes "pipe_inv chunk U m"
  shows "good_step chunk U (bsp_waits m) m (bsp_step m)"
proof (cases "kn_bsp m")
  case BspHalted
  then show ?thesis by (simp add: bsp_step_def bsp_waits_def good_step_waits)
next
  case (BspPanicked e)
  then show ?thesis using assms by (simp add: inv_defs)
qed (use assms in \<open>blast intro: bsp_wait_ready_good bsp_send_good bsp_push_tensor_good bsp_wait_tensor_good bsp_collect_good\<close>)+

section \<open>Steps of the application processor\<close>

lemma ap_entry_good:
  assumes "pipe_inv chunk U m" "kn_ap m = ApEntry"
  shows "good_step chunk U (ap_waits m) m (ap_step m)"
  unfolding ap_step_def assms(2) ap_loc.case
  by (rule good_stepI) (use assms in \<open>auto simp: inv_defs Let_def rank_of_def\<close>)

lemma ap_loop_good:
  assumes inv: "pipe_inv chunk U m" and loc: "kn_ap m = ApLoop"
  shows "good_step chunk U (ap_waits m) m (ap_step m)"
proof -
  define p where "p = unat (kn_ap_processed m)"
  have p: "p \<le> 10" using inv loc by (simp add: inv_defs p_def)
  show ?thesis
  proof (cases "kn_ap_processed m < PACKET_COUNT")
    case True
    then have lt: "p < 10" by (simp add: word_less_nat_alt p_def)
    have q: "spsc_inv INTER_CORE_CAP (kn_inter m)" "p \<le> sent (kn_bsp m)"
      "spsc_contents INTER_CORE_CAP (kn_inter m) = map pkt [Suc p..<Suc (sent (kn_bsp m))]"
      using inv loc by (simp_all add: inv_defs Let_def p_def del: upt_Suc)
    show ?thesis
    proof (cases "p = sent (kn_bsp m)")
      case True
      then have "spsc_contents INTER_CORE_CAP (kn_inter m) = []" using q(3) by simp
      from spsc.pop_nil [OF q(1) this] show ?thesis
        using \<open>kn_ap_processed m < PACKET_COUNT\<close> \<open>p = sent (kn_bsp m)\<close> lt
        by (simp add: ap_step_def loc ap_loop_def ap_waits_def good_step_waits p_def)
    next
      case False
      then have more: "p < sent (kn_bsp m)" using q(2) by simp
      then have "spsc_contents INTER_CORE_CAP (kn_inter m) = pkt (Suc p) # map pkt [Suc (Suc p)..<Suc (sent (kn_bsp m))]"
        using q(3) by (simp only: packets_Cons)
      from spsc.pop_cons [OF q(1) this] obtain q' where
        q': "pop_inner INTER_CORE_CAP (kn_inter m) = Inr (Some (pkt (Suc p)), q')" "spsc_inv INTER_CORE_CAP q'"
        "spsc_contents INTER_CORE_CAP q' = map pkt [Suc (Suc p)..<Suc (sent (kn_bsp m))]" by blast
      have "ap_process (pkt (Suc p)) = verdict (Suc p)" using lt by (intro ap_process_pkt) simp
      then have step: "ap_step m = m\<lparr>kn_inter := q', kn_ap := ApPush (verdict (Suc p))\<rparr>"
        using q'(1) True by (simp add: ap_step_def loc ap_loop_def)
      show ?thesis
        unfolding step using inv loc q' more lt
        by (intro good_stepI) (auto simp: inv_defs Let_def rank_of_def p_def simp del: upt_Suc)
    qed
  next
    case False
    then have "p = 10" using p by (simp add: word_less_nat_alt p_def)
    then show ?thesis
      using inv loc False
      by (simp add: ap_step_def ap_loop_def) (rule good_stepI, auto simp: inv_defs Let_def rank_of_def p_def simp del: upt_Suc)
  qed
qed

lemma ap_push_good:
  assumes inv: "pipe_inv chunk U m" and loc: "kn_ap m = ApPush w"
  shows "good_step chunk U (ap_waits m) m (ap_step m)"
proof -
  define p where "p = unat (kn_ap_processed m)"
  have p: "p < 10" "w = verdict (Suc p)" using inv loc by (simp_all add: inv_defs p_def)
  have q: "spsc_inv COMPLETION_CAP (kn_completion m)" "collected (kn_bsp m) \<le> p"
    "spsc_contents COMPLETION_CAP (kn_completion m) = map verdict [Suc (collected (kn_bsp m))..<Suc p]"
    using inv loc by (simp_all add: inv_defs Let_def p_def del: upt_Suc)
  have "length (spsc_contents COMPLETION_CAP (kn_completion m)) < unat COMPLETION_CAP"
    unfolding q(3) using p(1) by (simp del: upt_Suc)
  from spsc.push_room [OF q(1) this, of w] obtain q' where
    q': "push_inner COMPLETION_CAP (kn_completion m) w = Inr (Inr (), q')" "spsc_inv COMPLETION_CAP q'"
    "spsc_contents COMPLETION_CAP q' = map verdict [Suc (collected (kn_bsp m))..<Suc (Suc p)]"
    using q(2,3) p(2) by auto
  have step: "ap_step m = m\<lparr>kn_completion := q', kn_ap := ApCount\<rparr>"
    using q'(1) by (simp add: ap_step_def loc ap_push_def)
  show ?thesis
    unfolding step using inv loc q' p q(2)
    by (intro good_stepI) (auto simp: inv_defs Let_def rank_of_def p_def simp del: upt_Suc)
qed

lemma ap_count_good:
  assumes inv: "pipe_inv chunk U m" and loc: "kn_ap m = ApCount"
  shows "good_step chunk U (ap_waits m) m (ap_step m)"
proof -
  have p: "unat (kn_ap_processed m) < 10" using inv loc by (simp add: inv_defs)
  then have Suc: "unat (kn_ap_processed m + 1) = Suc (unat (kn_ap_processed m))" by (intro unat_Suc) simp
  have step: "ap_step m = m\<lparr>kn_ap_processed := kn_ap_processed m + 1, kn_ap := ApLoop\<rparr>"
    by (simp add: ap_step_def loc)
  show ?thesis
    unfolding step using inv loc p Suc
    by (intro good_stepI) (auto simp: inv_defs Let_def rank_of_def simp del: upt_Suc)
qed

lemma ap_tensor_good:
  assumes inv: "pipe_inv chunk U m" and loc: "kn_ap m = ApTensor"
  shows "good_step chunk U (ap_waits m) m (ap_step m)"
proof -
  have q: "spsc_inv TENSOR_CAP (kn_tensor m)"
    "spsc_contents TENSOR_CAP (kn_tensor m) = (if tensor_sent (kn_bsp m) then [chunk] else [])"
    using inv loc by (simp_all add: inv_defs Let_def)
  show ?thesis
  proof (cases "tensor_sent (kn_bsp m)")
    case True
    then have "spsc_contents TENSOR_CAP (kn_tensor m) = chunk # []" using q(2) by simp
    from spsc.pop_cons [OF q(1) this] obtain q' where
      q': "pop_inner TENSOR_CAP (kn_tensor m) = Inr (Some chunk, q')" "spsc_inv TENSOR_CAP q'"
      "spsc_contents TENSOR_CAP q' = []" by blast
    have step: "ap_step m = m\<lparr>kn_tensor := q', kn_ap := ApReduce chunk\<rparr>"
      using q'(1) by (simp add: ap_step_def loc ap_tensor_def)
    show ?thesis
      unfolding step using inv loc q' True
      by (intro good_stepI) (auto simp: inv_defs Let_def rank_of_def simp del: upt_Suc)
  next
    case False
    then have "spsc_contents TENSOR_CAP (kn_tensor m) = []" using q(2) by simp
    from spsc.pop_nil [OF q(1) this] show ?thesis
      using False by (simp add: ap_step_def loc ap_tensor_def ap_waits_def good_step_waits)
  qed
qed

lemma ones_sum: "f32_sum (map f32_from_bytes (replicate 1024 one_bytes)) = f32_nat 1024"
proof -
  have "f32_from_bytes one_bytes = f32_nat 1"
    unfolding f32_one by (simp add: f32_from_bytes_def one_bytes_def)
  then show ?thesis using f32_sum_ones [of 1024] by (simp only: map_replicate) simp
qed

lemma ap_reduce_good:
  assumes inv: "pipe_inv chunk U m" and loc: "kn_ap m = ApReduce c"
  shows "good_step chunk U (ap_waits m) m (ap_step m)"
proof -
  obtain ctx a where dec: "deconstruct chunk = (ctx, a)" by fastforce
  have c: "c = chunk" and mem: "as_slice (kn_memory m) 4 4 chunk = Inr (replicate 1024 one_bytes)"
    using inv loc by (simp_all add: inv_defs Let_def)
  have step: "ap_step m = m\<lparr>kn_tensor_sum_bits := ucast (f32_nat 1024), kn_ap := ApRelease ctx a (f32_nat 1024) 1024\<rparr>"
    by (simp only: ap_step_def loc ap_loc.case ap_reduce_def c mem sum.case ones_sum dec Let_def prod.case length_replicate of_nat_numeral)
  show ?thesis
    unfolding step using inv loc dec
    by (intro good_stepI) (auto simp: inv_defs Let_def rank_of_def simp del: upt_Suc)
qed

lemma ap_release_good:
  assumes inv: "pipe_inv chunk U m" and loc: "kn_ap m = ApRelease ctx a s n"
  shows "good_step chunk U (ap_waits m) m (ap_step m)"
proof -
  let ?f = "from_address a"
  have dec: "deconstruct chunk = (ctx, a)" "s = f32_nat 1024"
    using inv loc by (simp_all add: inv_defs)
  have pmm: "pmm_ok (kn_pmm m)" "unat (pf_number ?f) \<in> U" "usable_set (kn_pmm m) = U"
    "free_set (kn_pmm m) = U - {unat (pf_number ?f)}"
    using inv loc dec(1) by (simp_all add: inv_defs Let_def)
  then have "unat (pf_number ?f) \<in> usable_set (kn_pmm m) - free_set (kn_pmm m)" by simp
  from pmm.release_ok [OF pmm(1) this] obtain p' where
    p': "pmm_free (kn_pmm m) ?f = Inr (True, p')" "pmm_ok p'" "usable_set p' = U" "free_set p' = U"
    using pmm by (auto simp: insert_absorb)
  have "f32_of_usize TENSOR_ELEMENTS = f32_nat 1024" by (simp add: f32_of_usize_def f32_nat_def TENSOR_ELEMENTS_def)
  then have eq: "f32_eq s (f32_of_usize TENSOR_ELEMENTS)"
    using f32_nat_decode(2) [of 1024] dec(2) by (simp add: f32_eq_def)
  have step: "ap_step m = println (Reduced (trace_id ctx) n a) (m\<lparr>kn_pmm := p', kn_ap := ApSignal\<rparr>)"
    using p'(1) eq by (simp add: ap_step_def loc ap_release_def)
  show ?thesis
    unfolding step using inv loc p' dec pmm
    by (intro good_stepI) (auto simp: inv_defs Let_def rank_of_def simp del: upt_Suc)
qed

lemma ap_signal_good:
  assumes inv: "pipe_inv chunk U m" and loc: "kn_ap m = ApSignal"
  shows "good_step chunk U (ap_waits m) m (ap_step m)"
  unfolding ap_step_def loc ap_loc.case
  by (rule good_stepI) (use inv loc in \<open>auto simp: inv_defs Let_def rank_of_def simp del: upt_Suc\<close>)

lemma ap_step_good:
  assumes "pipe_inv chunk U m"
  shows "good_step chunk U (ap_waits m) m (ap_step m)"
proof (cases "kn_ap m")
  case ApHalted
  then show ?thesis by (simp add: ap_step_def ap_waits_def good_step_waits)
next
  case (ApPanicked e)
  then show ?thesis using assms by (simp add: inv_defs)
qed (use assms in \<open>blast intro: ap_entry_good ap_loop_good ap_push_good ap_count_good ap_tensor_good
    ap_reduce_good ap_release_good ap_signal_good\<close>)+

section \<open>Every schedule\<close>

definition both_halted :: "machine \<Rightarrow> bool" where
  "both_halted m \<longleftrightarrow> kn_bsp m = BspHalted \<and> kn_ap m = ApHalted"

lemma one_can_move:
  assumes inv: "pipe_inv chunk U m" and waits: "bsp_waits m" "ap_waits m"
  shows "both_halted m"
proof -
  have "kn_ap m = ApHalted"
  proof (rule ccontr)
    assume "kn_ap m \<noteq> ApHalted"
    then have "kn_ap m = ApLoop \<and> sent (kn_bsp m) < 10 \<or> kn_ap m = ApTensor \<and> \<not> tensor_sent (kn_bsp m)"
      using waits(2) by (auto simp: ap_waits_def split: ap_loc.splits)
    then show False
      using inv waits(1) by (cases "kn_bsp m") (auto simp: bsp_waits_def inv_defs)
  qed
  moreover from this have "kn_bsp m = BspHalted"
    using inv waits(1) by (cases "kn_bsp m") (auto simp: bsp_waits_def inv_defs)
  ultimately show ?thesis by (simp add: both_halted_def)
qed

fun cpu_waits :: "cpu \<Rightarrow> machine \<Rightarrow> bool" where
  "cpu_waits BSP m = bsp_waits m"
| "cpu_waits AP m = ap_waits m"

interpretation pipeline: two_cpus cpu_step "pipe_inv chunk U" cpu_waits rank_of both_halted
  for chunk U
proof unfold_locales
  fix m c
  assume inv: "pipe_inv chunk U m"
  show "cpu_waits c m \<and> cpu_step c m = m \<or> pipe_inv chunk U (cpu_step c m) \<and> rank_of (cpu_step c m) < rank_of m"
    using bsp_step_good [OF inv] ap_step_good [OF inv] by (cases c) (auto simp: good_step_def)
  show "cpu_waits BSP m \<Longrightarrow> cpu_waits AP m \<Longrightarrow> both_halted m"
    using one_can_move [OF inv] by simp
next
  fix m c
  assume "both_halted m"
  then show "cpu_step c m = m" by (cases c) (simp_all add: both_halted_def bsp_step_def ap_step_def)
qed

lemma reachable_inv: "kernel_step\<^sup>*\<^sup>* m m' \<Longrightarrow> pipe_inv chunk U m \<Longrightarrow> pipe_inv chunk U m'"
  by (induction rule: rtranclp_induct) (auto elim!: kernel_stepE intro: pipeline.step_inv)

section \<open>Boot\<close>

lemma boot_bind_simps [simp]:
  "boot_bind (log, Booted x) f = (log @ fst (f x), snd (f x))"
  "boot_bind (log, Halted) f = (log, Halted)"
  "boot_bind (log, Panicked e) f = (log, Panicked e)"
  by (simp_all add: boot_bind_def)

lemma boot_prims [simp]:
  "say line = ([line], Booted ())" "of_res (Inr x) = ([], Booted x)" "require log (Some x) = ([], Booted x)"
  "require log None = (log, Halted)"
  by (simp_all add: say_def of_res_def require_def)

definition usable_frames_of :: "limine_memmap_response \<Rightarrow> nat set" where
  "usable_frames_of mm = {n. n < n_frames \<and> (\<exists>e \<in> set (mr_entries mm). covers_frame e n)}"

lemma finite_usable_frames [simp]: "finite (usable_frames_of mm)"
  by (simp add: usable_frames_of_def)

lemma boot_memory_halts:
  "be_memmap env = None \<Longrightarrow> snd (boot_memory env) = Halted"
  "be_memmap env = Some mm \<Longrightarrow> usable_frames_of mm = {} \<Longrightarrow> snd (boot_memory env) = Halted"
proof -
  show "be_memmap env = None \<Longrightarrow> snd (boot_memory env) = Halted" by (simp add: boot_memory_def)
  assume mm: "be_memmap env = Some mm" and empty: "usable_frames_of mm = {}"
  obtain p where p: "pmm_initialize bitmap_pmm_new (mr_entries mm) = Inr (\<lparr>st_usable_frames = pm_usable_frames p,
      st_free_frames = pm_free_frames p, st_max_frame = pm_max_frame p\<rparr>, p)" "pmm_ok p" "free_set p = usable_set p"
    "usable_set p = usable_frames_of mm"
    using pmm_initialize_ok [of bitmap_pmm_new "mr_entries mm"] by (auto simp: usable_frames_of_def)
  then have "pmm_allocate p = Inr (None, p)" using allocate_ok(1) [of p] empty by simp
  with p(1) mm show "snd (boot_memory env) = Halted" by (simp add: boot_memory_def)
qed

lemma frame_address_small:
  assumes "unat (pf_number f) < n_frames"
  shows "\<exists>a. frame_address f = Inr a \<and> unat a = 4096 * unat (pf_number f) \<and> from_address a = f"
proof -
  have lt: "unat (pf_number f) * unat FRAME_SIZE < 2 ^ 64" using assms by simp
  then have u: "unat (pf_number f * FRAME_SIZE) = 4096 * unat (pf_number f)"
    using unat_mult_no_wrap [of "pf_number f" FRAME_SIZE] by simp
  have "unat (pf_number f * FRAME_SIZE div FRAME_SIZE) = unat (pf_number f)" by (simp only: unat_div u) simp
  then have "from_address (pf_number f * FRAME_SIZE) = f" by (simp add: from_address_def word_unat_eq_iff)
  with u lt show ?thesis by (simp add: frame_address_def checked_mul_def)
qed

lemma boot_memory_ok:
  assumes mm: "be_memmap env = Some mm" and ne: "usable_frames_of mm \<noteq> {}"
  shows "\<exists>log p. boot_memory env = (log, Booted p) \<and> pmm_ok p \<and> usable_set p = usable_frames_of mm \<and>
    free_set p = usable_frames_of mm"
proof -
  obtain p where p: "pmm_initialize bitmap_pmm_new (mr_entries mm) = Inr (\<lparr>st_usable_frames = pm_usable_frames p,
      st_free_frames = pm_free_frames p, st_max_frame = pm_max_frame p\<rparr>, p)" "pmm_ok p" "free_set p = usable_set p"
    "usable_set p = usable_frames_of mm"
    using pmm_initialize_ok [of bitmap_pmm_new "mr_entries mm"] by (auto simp: usable_frames_of_def)
  then obtain f p1 where f: "pmm_allocate p = Inr (Some f, p1)" "unat (pf_number f) = Min (free_set p)"
    using allocate_ok(2) [of p] ne by auto
  from pmm.alloc_release [OF p(2)] p(3,4) ne f(1) obtain p2 where
    p2: "pmm_free p1 f = Inr (True, p2)" "pmm_ok p2" "usable_set p2 = usable_set p" "free_set p2 = free_set p" by auto
  have "Min (free_set p) \<in> free_set p" using p(3,4) ne by (intro Min_in) simp_all
  then have "unat (pf_number f) < n_frames" using f(2) p(3,4) by (simp add: usable_frames_of_def)
  from frame_address_small [OF this] obtain a where "frame_address f = Inr a" by blast
  with mm p f p2 show ?thesis by (simp add: boot_memory_def)
qed

text \<open>Filling a view chunk by chunk.\<close>

lemma offset_distinct:
  "a < 2 ^ 64 \<Longrightarrow> b < 2 ^ 64 \<Longrightarrow> a \<noteq> b \<Longrightarrow> p + of_nat a \<noteq> p + (of_nat b :: usize)"
proof
  assume "a < 2 ^ 64" "b < 2 ^ 64" "a \<noteq> b" "p + of_nat a = p + (of_nat b :: usize)"
  then have "unat (of_nat a :: usize) = unat (of_nat b :: usize)" by simp
  with \<open>a < 2 ^ 64\<close> \<open>b < 2 ^ 64\<close> \<open>a \<noteq> b\<close> show False by (simp add: unat_of_nat_lt)
qed

lemma fill_read:
  "i < n \<Longrightarrow> n * length bs \<le> 2 ^ 64 \<Longrightarrow>
   mem_read (fold (\<lambda>i m. mem_write m (p + of_nat (i * length bs)) bs) [0..<n] m) (p + of_nat (i * length bs)) (length bs) = bs"
proof (induction n)
  case (Suc n)
  let ?m = "fold (\<lambda>i m. mem_write m (p + of_nat (i * length bs)) bs) [0..<n] m"
  have step: "fold (\<lambda>i m. mem_write m (p + of_nat (i * length bs)) bs) [0..<Suc n] m =
      mem_write ?m (p + of_nat (n * length bs)) bs" by simp
  show ?case
  proof (cases "i = n")
    case True
    have "length bs \<le> 2 ^ 64" using Suc.prems(2) by simp
    then show ?thesis unfolding step True by (rule mem_read_write_same)
  next
    case False
    then have i: "i < n" using Suc.prems(1) by simp
    then have "Suc i * length bs \<le> n * length bs" by (intro mult_le_mono1) simp
    then have le: "i * length bs + length bs \<le> n * length bs" by simp
    have "mem_read (mem_write ?m (p + of_nat (n * length bs)) bs) (p + of_nat (i * length bs)) (length bs) =
        mem_read ?m (p + of_nat (i * length bs)) (length bs)"
      unfolding mem_read_def
    proof (rule map_cong [OF refl])
      fix j assume "j \<in> set [0..<length bs]"
      then have j: "j < length bs" by simp
      have "p + of_nat (i * length bs) + of_nat j \<noteq> p + of_nat (n * length bs) + of_nat k" if "k < length bs" for k
        using offset_distinct [of "i * length bs + j" "n * length bs + k" p] that j le Suc.prems(2)
        by (simp add: add.assoc)
      then show "mem_write ?m (p + of_nat (n * length bs)) bs (p + of_nat (i * length bs) + of_nat j) =
          ?m (p + of_nat (i * length bs) + of_nat j)"
        by (rule mem_write_frame)
    qed
    then show ?thesis unfolding step using Suc.IH [OF i] Suc.prems(2) by simp
  qed
qed simp

lemma filled_ones:
  assumes "tc_virt_ptr c mod 4 = 0" "tc_byte_len c = 4096" "tc_dtype c = F32"
  shows "as_slice (fill_chunks m (as_mut_slice (MutableChunk c)) one_bytes) 4 4 (ReadyChunk c) =
    Inr (replicate 1024 one_bytes)"
proof -
  let ?m = "fill_chunks m (as_mut_slice (MutableChunk c)) one_bytes"
  have len: "length one_bytes = 4" by (simp add: one_bytes_def)
  have "mem_read ?m (tc_virt_ptr c + of_nat (i * 4)) 4 = one_bytes" if "i < 1024" for i
    using fill_read [of i 1024 one_bytes "tc_virt_ptr c" m] that assms(2) len by (simp add: fill_chunks_def)
  moreover have "unat (4096 div 4 :: usize) = 1024" "unat (4 :: usize) = 4" by simp_all
  ultimately have "map (\<lambda>i. mem_read ?m (tc_virt_ptr c + of_nat (i * unat (4 :: usize))) (unat (4 :: usize)))
      [0..<unat (tc_byte_len c div 4)] = replicate 1024 one_bytes"
    unfolding assms(2) by (intro nth_equalityI) simp_all
  then show ?thesis using assms by simp
qed

definition direct_map_ok :: "limine_hhdm_response \<Rightarrow> nat set \<Rightarrow> bool" where
  "direct_map_ok hhdm frames \<longleftrightarrow> unat (hr_offset hhdm) + 4096 * Min frames < 2 ^ 64"

lemma boot_tensor_outcome:
  assumes pmm: "pmm_ok p" "free_set p = usable_set p" "usable_set p \<noteq> {}"
  shows "case be_hhdm env of
      None \<Rightarrow> snd (boot_tensor env p) = Halted
    | Some hhdm \<Rightarrow>
        if direct_map_ok hhdm (usable_set p) then
          \<exists>log p' memory chunk. boot_tensor env p = (log, Booted (p', memory, chunk)) \<and>
            (unat (hr_offset hhdm) mod 4 = 0 \<longrightarrow> memory_inv chunk (usable_set p) (start_machine p' memory chunk))
        else snd (boot_tensor env p) = Halted"
proof (cases "be_hhdm env")
  case None
  then show ?thesis by (simp add: boot_tensor_def)
next
  case (Some hhdm)
  obtain f p' where f: "pmm_allocate p = Inr (Some f, p')" "unat (pf_number f) = Min (usable_set p)" "pmm_ok p'"
    "usable_set p' = usable_set p" "free_set p' = usable_set p - {Min (usable_set p)}"
    using allocate_ok(2) [OF pmm(1)] pmm(2,3) by auto
  have min: "Min (usable_set p) \<in> usable_set p" using pmm(3) by (intro Min_in) simp_all
  then have "unat (pf_number f) < n_frames" using f(2) frame_sets_below by auto
  from frame_address_small [OF this] obtain a where
    a: "frame_address f = Inr a" "unat a = 4096 * Min (usable_set p)" "from_address a = f" using f(2) by auto
  show ?thesis
  proof (cases "direct_map_ok hhdm (usable_set p)")
    case False
    then have "checked_add (hr_offset hhdm) a = None" by (simp add: checked_add_def direct_map_ok_def a(2))
    with Some f a(1) False show ?thesis by (simp add: boot_tensor_def)
  next
    case True
    let ?v = "hr_offset hhdm + a"
    let ?c = "\<lparr>tc_context = trace_context_new 100 100 0, tc_shape = new_1d TENSOR_ELEMENTS, tc_dtype = F32,
      tc_phys_addr = a, tc_virt_ptr = ?v, tc_byte_len = 4096\<rparr>"
    have add: "checked_add (hr_offset hhdm) a = Some ?v" using True by (simp add: checked_add_def direct_map_ok_def a(2))
    have new: "tensor_chunk_new (trace_context_new 100 100 0) a ?v (new_1d TENSOR_ELEMENTS) F32 = Inr (MutableChunk ?c)"
      by (simp add: tensor_chunk_new_def total_elements_ok new_shapes_ok new_shapes_product checked_mul_def TENSOR_ELEMENTS_def)
    let ?mem = "fill_chunks (be_memory env) (as_mut_slice (MutableChunk ?c)) one_bytes"
    have boot: "snd (boot_tensor env p) = Booted (p', ?mem, ReadyChunk ?c)"
      using Some f(1) a(1) add new by (simp add: boot_tensor_def Let_def)
    have "memory_inv (ReadyChunk ?c) (usable_set p) (start_machine p' ?mem (ReadyChunk ?c))"
      if "unat (hr_offset hhdm) mod 4 = 0"
    proof -
      have "unat ?v = unat (hr_offset hhdm) + 4096 * Min (usable_set p)"
        using checked_add_unat [OF add] a(2) by simp
      moreover have "(unat (hr_offset hhdm) + 4096 * Min (usable_set p)) mod 4 = 0"
        using that by (simp add: mod_add_eq [symmetric])
      ultimately have "?v mod 4 = 0" by (simp add: word_unat_eq_iff unat_mod)
      then have "as_slice ?mem 4 4 (ReadyChunk ?c) = Inr (replicate 1024 one_bytes)"
        by (intro filled_ones) simp_all
      with f a(3) min show ?thesis by (simp add: memory_inv_def start_machine_def Let_def)
    qed
    with Some True boot show ?thesis
      by (cases "boot_tensor env p") auto
  qed
qed

text \<open>What the boot loader has to provide.\<close>

definition boot_ready :: "boot_env \<Rightarrow> bool" where
  "boot_ready env \<longleftrightarrow> (\<exists>mm hhdm smp. be_memmap env = Some mm \<and> be_hhdm env = Some hhdm \<and> be_smp env = Some smp \<and>
     usable_frames_of mm \<noteq> {} \<and> direct_map_ok hhdm (usable_frames_of mm) \<and>
     (\<exists>cpu \<in> set (sr_cpus smp). si_lapic_id cpu \<noteq> sr_bsp_lapic_id smp))"

lemma new_queue_inv:
  "CAP \<in> {INTER_CORE_CAP, COMPLETION_CAP, TENSOR_CAP} \<Longrightarrow> spsc_inv CAP (spsc_new CAP)"
  using spsc_new_wf(1) [of CAP] by (auto simp: spsc_inv_def INTER_CORE_CAP_def COMPLETION_CAP_def TENSOR_CAP_def)

lemma start_inv:
  "memory_inv chunk U (start_machine p memory chunk) \<Longrightarrow> pipe_inv chunk U (start_machine p memory chunk)"
  by (simp add: pipe_inv_def locs_inv_def queues_inv_def serial_inv_def start_machine_def new_queue_inv spsc_new_wf(2))

lemma boot_smp_outcome:
  "snd (boot_smp env) = (case be_smp env of None \<Rightarrow> Halted
    | Some smp \<Rightarrow> if \<exists>cpu \<in> set (sr_cpus smp). si_lapic_id cpu \<noteq> sr_bsp_lapic_id smp then Booted () else Halted)"
  by (simp add: boot_smp_def split: option.split)

lemma snd_boot_bind:
  "snd (boot_bind p f) = (case snd p of Booted x \<Rightarrow> snd (f x) | Halted \<Rightarrow> Halted | Panicked e \<Rightarrow> Panicked e)"
  by (cases p; cases "snd p") (auto simp: boot_bind_def)

lemma bsp_boot_outcome:
  "if boot_ready env
   then \<exists>p memory chunk. snd (bsp_boot env) = Booted (start_machine p memory chunk) \<and>
     (unat (hr_offset (the (be_hhdm env))) mod 4 = 0 \<longrightarrow>
       pipe_inv chunk (usable_frames_of (the (be_memmap env))) (start_machine p memory chunk))
   else snd (bsp_boot env) = Halted"
proof (cases "\<exists>mm. be_memmap env = Some mm \<and> usable_frames_of mm \<noteq> {}")
  case False
  then have "snd (boot_memory env) = Halted"
    using boot_memory_halts [of env] by (cases "be_memmap env") auto
  with False show ?thesis by (auto simp: bsp_boot_def snd_boot_bind boot_ready_def)
next
  case True
  then obtain mm where mm: "be_memmap env = Some mm" "usable_frames_of mm \<noteq> {}" by blast
  obtain log p where p: "boot_memory env = (log, Booted p)" "pmm_ok p" "usable_set p = usable_frames_of mm"
    "free_set p = usable_set p"
    using boot_memory_ok [OF mm] by auto
  note tensor = boot_tensor_outcome [OF p(2,4), of env, unfolded p(3), OF mm(2)]
  show ?thesis
  proof (cases "\<exists>hhdm. be_hhdm env = Some hhdm \<and> direct_map_ok hhdm (usable_frames_of mm)")
    case False
    then have "snd (boot_tensor env p) = Halted" using tensor by (cases "be_hhdm env") auto
    with False mm p(1) show ?thesis by (auto simp: bsp_boot_def snd_boot_bind boot_ready_def)
  next
    case True
    then obtain hhdm where hhdm: "be_hhdm env = Some hhdm" "direct_map_ok hhdm (usable_frames_of mm)" by blast
    then obtain log' p' memory chunk where t: "boot_tensor env p = (log', Booted (p', memory, chunk))"
      "unat (hr_offset hhdm) mod 4 = 0 \<longrightarrow> memory_inv chunk (usable_frames_of mm) (start_machine p' memory chunk)"
      using tensor by auto
    have boot: "snd (bsp_boot env) = (case snd (boot_smp env) of Booted _ \<Rightarrow> Booted (start_machine p' memory chunk)
        | Halted \<Rightarrow> Halted | Panicked e \<Rightarrow> Panicked e)"
      using p(1) t(1) by (simp add: bsp_boot_def snd_boot_bind split: boot.split)
    have smp: "boot_ready env \<longleftrightarrow> snd (boot_smp env) = Booted ()" "snd (boot_smp env) \<in> {Halted, Booted ()}"
      using mm hhdm by (auto simp: boot_ready_def boot_smp_outcome split: option.splits)
    show ?thesis
    proof (cases "boot_ready env")
      case True
      then have "snd (bsp_boot env) = Booted (start_machine p' memory chunk)" using smp boot by simp
      moreover have "unat (hr_offset (the (be_hhdm env))) mod 4 = 0 \<longrightarrow>
          pipe_inv chunk (usable_frames_of (the (be_memmap env))) (start_machine p' memory chunk)"
        using t(2) start_inv mm(1) hhdm(1) by simp
      ultimately show ?thesis unfolding if_P [OF True] by (intro exI conjI) assumption+
    next
      case False
      then show ?thesis using smp boot by auto
    qed
  qed
qed

section \<open>Properties\<close>


text \<open>C1: No interleaving goes wrong: in every state that the two processors can reach from a successful
  boot, with the direct map at a multiple of four bytes, neither has panicked, no line reports a
  failure of the pipeline, the packets are reported in order, each at most once, with packet 4 as the
  only fault; and once the bootstrap processor has halted, the batch is complete, the reduction is
  exactly 1024.0 and every frame is free again.\<close>

theorem pipeline_safe:
  assumes "snd (bsp_boot env) = Booted m0" "unat (hr_offset (the (be_hhdm env))) mod 4 = 0"
    and "kernel_step\<^sup>*\<^sup>* m0 m"
  shows "(\<forall>e. kn_bsp m \<noteq> BspPanicked e \<and> kn_ap m \<noteq> ApPanicked e) \<and>
    (\<forall>line \<in> set (kn_serial m). \<not> is_bad line) \<and>
    (\<exists>n \<le> 10. filter is_report (kn_serial m) = map report [1..<Suc n] \<and> (kn_bsp m = BspHalted \<longrightarrow> n = 10)) \<and>
    (kn_bsp m = BspHalted \<longrightarrow> BatchCompleted \<in> set (kn_serial m) \<and> kn_ap m = ApHalted \<and>
      kn_tensor_sum_bits m = 0x44800000 \<and> free_set (kn_pmm m) = usable_frames_of (the (be_memmap env)))"
proof -
  obtain chunk where "pipe_inv chunk (usable_frames_of (the (be_memmap env))) m0"
    using bsp_boot_outcome [of env] assms(1,2) by (auto split: if_splits)
  then have inv: "pipe_inv chunk (usable_frames_of (the (be_memmap env))) m"
    using reachable_inv [OF assms(3)] by blast
  have sum: "f32_nat 1024 = 0x44800000"
    using f32_round_exact [of "2 ^ 23" 136] by (simp add: f32_nat_def word_unat_eq_iff)
  let ?n = "collected (kn_bsp m)"
  have n: "?n \<le> 10" using inv by (cases "kn_bsp m") (simp_all add: inv_defs)
  have locs: "bsp_ok chunk (kn_bsp m)" "ap_ok chunk (unat (kn_ap_processed m)) (kn_ap m)"
    and serial: "filter is_report (kn_serial m) = map report [1..<Suc ?n]" "\<forall>line \<in> set (kn_serial m). \<not> is_bad line"
    using inv by (simp_all add: inv_defs del: upt_Suc)
  have halted: "BatchCompleted \<in> set (kn_serial m) \<and> kn_ap m = ApHalted \<and>
      kn_tensor_sum_bits m = 0x44800000 \<and> free_set (kn_pmm m) = usable_frames_of (the (be_memmap env))"
    if "kn_bsp m = BspHalted"
  proof -
    have "kn_ap m = ApHalted" using inv that by (auto simp: pipe_inv_def locs_inv_def)
    with inv that show ?thesis by (simp add: inv_defs Let_def sum del: upt_Suc)
  qed
  show ?thesis
    using locs serial halted n by (intro conjI exI [of _ ?n]) auto
qed

text \<open>A machine with one usable frame and two processors.\<close>

definition example_env :: boot_env where
  "example_env = \<lparr>be_memmap = Some \<lparr>mr_revision = 0, mr_entries = [\<lparr>me_base = 0x2000, me_length = 0x1000, me_type = 0\<rparr>]\<rparr>,
     be_hhdm = Some \<lparr>hr_revision = 0, hr_offset = 0xffff800000000000\<rparr>,
     be_smp = Some \<lparr>sr_revision = 0, sr_flags = 0, sr_bsp_lapic_id = 0, sr_cpus =
       [\<lparr>si_processor_id = 0, si_lapic_id = 0, si_reserved = 0, si_goto_address = 0, si_extra_argument = 0\<rparr>,
        \<lparr>si_processor_id = 1, si_lapic_id = 1, si_reserved = 0, si_goto_address = 0, si_extra_argument = 0\<rparr>]\<rparr>,
     be_memory = (\<lambda>_. 0)\<rparr>"

lemma example_frames: "usable_frames_of (the (be_memmap example_env)) = {2}"
  by (auto simp: example_env_def usable_frames_of_def covers_frame_def LIMINE_MEMMAP_USABLE_def)

lemma example_boot: "\<exists>m0. snd (bsp_boot example_env) = Booted m0"
proof -
  have "boot_ready example_env"
    using example_frames by (simp add: boot_ready_def example_env_def direct_map_ok_def)
  then show ?thesis using bsp_boot_outcome [of example_env] by auto
qed

text \<open>C2: Under every fair schedule the batch ends: however the steps of the two processors interleave,
  after 62 rounds in each of which both took at least one step, both have halted and the batch is
  complete. No spin loop waits for ever.\<close>

theorem pipeline_finishes:
  assumes "snd (bsp_boot env) = Booted m0" "unat (hr_offset (the (be_hhdm env))) mod 4 = 0"
    and "\<forall>cs \<in> set rounds. {BSP, AP} \<subseteq> set cs" "62 \<le> length rounds"
  shows "both_halted (run (concat rounds) m0) \<and> BatchCompleted \<in> set (kn_serial (run (concat rounds) m0))"
proof -
  obtain chunk where inv: "pipe_inv chunk (usable_frames_of (the (be_memmap env))) m0"
    using bsp_boot_outcome [of env] assms(1,2) by (auto split: if_splits)
  have "rank_of m0 \<le> 62"
    using bsp_boot_outcome [of env] assms(1) by (auto simp: rank_of_def start_machine_def split: if_splits)
  then have "both_halted (run (concat rounds) m0)"
    using pipeline.rounds_final [OF inv assms(3)] assms(4) by (simp add: run_def)
  with pipeline.run_inv [OF inv, of "concat rounds", folded run_def] show ?thesis by (simp add: both_halted_def inv_defs)
qed

theorem pipeline_finishes_witness:
  "\<exists>m0. snd (bsp_boot example_env) = Booted m0 \<and>
    both_halted (run (concat (replicate 62 [AP, BSP, BSP])) m0)"
proof -
  obtain m0 where m0: "snd (bsp_boot example_env) = Booted m0" using example_boot by blast
  have "unat (hr_offset (the (be_hhdm example_env))) mod 4 = 0" by (simp add: example_env_def)
  from pipeline_finishes [OF m0 this, of "replicate 62 [AP, BSP, BSP]"] m0 show ?thesis by auto
qed

theorem pipeline_safe_witness:
  "\<exists>m0 m. snd (bsp_boot example_env) = Booted m0 \<and> kernel_step\<^sup>*\<^sup>* m0 m \<and> m \<noteq> m0 \<and>
    (\<forall>e. kn_bsp m \<noteq> BspPanicked e \<and> kn_ap m \<noteq> ApPanicked e)"
proof -
  obtain m0 where m0: "snd (bsp_boot example_env) = Booted m0" using example_boot by blast
  have aligned: "unat (hr_offset (the (be_hhdm example_env))) mod 4 = 0" by (simp add: example_env_def)
  have "kn_ap m0 = ApEntry" using bsp_boot_outcome [of example_env] m0 by (auto simp: start_machine_def split: if_splits)
  then have "kn_ap (cpu_step AP m0) = ApLoop" by (simp add: ap_step_def)
  then have "cpu_step AP m0 \<noteq> m0" using \<open>kn_ap m0 = ApEntry\<close> by auto
  moreover have step: "kernel_step\<^sup>*\<^sup>* m0 (cpu_step AP m0)" by (rule r_into_rtranclp) (rule kernel_step.step)
  ultimately show ?thesis using pipeline_safe [OF m0 aligned step] m0 by blast
qed

end
