(* ===== verification/Limine_Gpt.thy ===== *)
theory Limine_Gpt
  imports Limine_Undo
begin

text \<open>
  \<open>bios_install\<close> on disks with a GUID partition table (\<open>limine.c\<close>): finding the table and its
  backup, converting an ISOHYBRID to an MBR, and choosing where stage 2 goes, in a given partition or
  between the partition entries and the first usable block. \<open>be\<close> is the byte order of the host.
  Undefined behaviour that the code can run into is an outcome, not an assumption.
\<close>

section \<open>Finding the tables\<close>

definition GPT_SIGNATURE :: "u8 list" where
  "GPT_SIGNATURE = [0x45, 0x46, 0x49, 0x20, 0x50, 0x41, 0x52, 0x54]"

definition gpt_signature_ok :: "gpt_table_header \<Rightarrow> bool" where
  "gpt_signature_ok h \<longleftrightarrow> gh_signature h = GPT_SIGNATURE"

text \<open>The primary header and the logical block size; no table makes \<open>gpt\<close> 0.\<close>

fun probe_gpt :: "bool \<Rightarrow> bool \<Rightarrow> u64 list \<Rightarrow> (gpt_table_header \<times> u64) option prog" where
  "probe_gpt be force_mbr [] = pret None"
| "probe_gpt be force_mbr (guess # guesses) =
     pbind (device_read guess (of_nat sizeof_gpt_table_header)) (\<lambda>bytes.
       let gpt_header = load_gpt_table_header be bytes in
       if gpt_signature_ok gpt_header then
         (if \<not> force_mbr then pret (Some (gpt_header, guess)) else pbail)
       else probe_gpt be force_mbr guesses)"

definition lb_guesses :: "u64 list" where
  "lb_guesses = [512, 4096]"

definition read_secondary :: "bool \<Rightarrow> gpt_table_header \<Rightarrow> u64 \<Rightarrow> gpt_table_header prog" where
  "read_secondary be gpt_header lb_size =
     pbind (device_read (lb_size * ENDSWAP64 be (gh_alternate_lba gpt_header)) (of_nat sizeof_gpt_table_header)) (\<lambda>bytes.
       let secondary_gpt_header = load_gpt_table_header be bytes in
       if gpt_signature_ok secondary_gpt_header then pret secondary_gpt_header else pbail)"

text \<open>
  Reading entry \<open>i\<close>. A product of the signed loop counter and the entry size that leaves 63 bits
  would be undefined in C; here it wraps.
\<close>

definition read_gpt_entry :: "bool \<Rightarrow> gpt_table_header \<Rightarrow> u64 \<Rightarrow> nat \<Rightarrow> gpt_entry prog" where
  "read_gpt_entry be gpt_header lb_size i =
     pbind (device_read (ENDSWAP64 be (gh_partition_entry_lba gpt_header) * lb_size +
         of_nat i * ucast (ENDSWAP32 be (gh_size_of_partition_entry gpt_header))) (of_nat sizeof_gpt_entry)) (\<lambda>bytes.
       pret (load_gpt_entry be bytes))"

definition gpt_entry_unused :: "gpt_entry \<Rightarrow> bool" where
  "gpt_entry_unused e \<longleftrightarrow> ge_unique_partition_guid e ! 0 = 0 \<and> ge_unique_partition_guid e ! 1 = 0"

section \<open>ISOHYBRID conversion\<close>

record part_to_conv =
  pc_lba_start :: u64
  pc_lba_end :: u64
  pc_chs_start :: "u8 list"
  pc_chs_end :: "u8 list"
  pc_type :: u8

text \<open>
  Gathering the partitions; \<open>None\<close> is \<open>goto no_mbr_conv\<close>. The fifth partition in use is stored past
  the end of \<open>part_to_conv\<close> before the check for four is reached.
\<close>

fun gather_parts ::
    "bool \<Rightarrow> gpt_table_header \<Rightarrow> u64 \<Rightarrow> nat list \<Rightarrow> part_to_conv list \<Rightarrow> part_to_conv list option prog" where
  "gather_parts be gpt_header lb_size [] parts = pret (Some parts)"
| "gather_parts be gpt_header lb_size (i # js) parts =
     pbind (read_gpt_entry be gpt_header lb_size i) (\<lambda>e.
       if gpt_entry_unused e then gather_parts be gpt_header lb_size js parts
       else let lba_start = ENDSWAP64 be (ge_starting_lba e);
                lba_end = ENDSWAP64 be (ge_ending_lba e);
                type = gpt2mbr_type (ENDSWAP64 be (ge_partition_type_guid e ! 0))
                                    (ENDSWAP64 be (ge_partition_type_guid e ! 1)) in
         if lba_start > 0xffffffff then pret None
         else if length parts \<ge> 4 then pundefined
         else if lba_end > 0xffffffff then pret None
         else if type = -1 then pret None
         else gather_parts be gpt_header lb_size js (parts @
           [\<lparr>pc_lba_start = lba_start, pc_lba_end = lba_end, pc_chs_start = lba2chs lba_start,
             pc_chs_end = lba2chs lba_end, pc_type = of_int type\<rparr>]))"

text \<open>A checked allocation: it takes an entry of the fault script.\<close>

definition allocate :: "unit prog" where
  "allocate d = (case next_fault d of (bad, d) \<Rightarrow> if bad then (Bail, d) else (Ret (), d))"

definition nuke_primary :: "u64 \<Rightarrow> (u8 list \<times> u64) list" where
  "nuke_primary lb_size = map (\<lambda>i. (replicate (unat lb_size) 0, of_nat i * lb_size)) [0..<34]"

definition nuke_secondary :: "bool \<Rightarrow> gpt_table_header \<Rightarrow> u64 \<Rightarrow> (u8 list \<times> u64) list" where
  "nuke_secondary be gpt_header lb_size =
     map (\<lambda>i. (replicate (unat lb_size) 0,
       ((ENDSWAP64 be (gh_alternate_lba gpt_header) - 32) + of_nat i) * lb_size)) [0..<33]"

text \<open>\<open>rnd\<close> gives the bytes of \<open>rand\<close>, which is seeded with the time.\<close>

definition disk_id_writes :: "(nat \<Rightarrow> u8) \<Rightarrow> (u8 list \<times> u64) list" where
  "disk_id_writes rnd = map (\<lambda>i. ([rnd i], 0x1b8 + of_nat i)) [0..<4]"

text \<open>\<open>lba_start\<close> and \<open>sect_count\<close> are 32-bit: the swapped 64-bit value is truncated on assignment.\<close>

definition part_writes :: "bool \<Rightarrow> nat \<Rightarrow> part_to_conv \<Rightarrow> (u8 list \<times> u64) list" where
  "part_writes be i p =
     (let lba_start = ucast (ENDSWAP64 be (pc_lba_start p)) :: u32;
          sect_count = ucast (ENDSWAP64 be ((pc_lba_end p - pc_lba_start p) + 1)) :: u32;
          entry = 0x1be + of_nat i * 16
      in [([pc_type p], entry + 0x04),
          (store_host be 4 lba_start, entry + 0x08),
          (store_host be 4 sect_count, entry + 0x0c),
          (pc_chs_start p, entry + 1),
          (pc_chs_end p, entry + 5)])"

definition convert_to_mbr ::
    "bool \<Rightarrow> (nat \<Rightarrow> u8) \<Rightarrow> gpt_table_header \<Rightarrow> u64 \<Rightarrow> part_to_conv list \<Rightarrow> unit prog" where
  "convert_to_mbr be rnd gpt_header lb_size parts =
     pbind allocate (\<lambda>_.
     pbind (write_all device_write (nuke_primary lb_size)) (\<lambda>_.
     pbind (write_all device_write (nuke_secondary be gpt_header lb_size)) (\<lambda>_.
     pbind (write_all device_write (disk_id_writes rnd)) (\<lambda>_.
       write_all device_write (concat (map (\<lambda>i. part_writes be i (parts ! i)) [0..<length parts]))))))"

text \<open>The result is the new value of \<open>gpt\<close>.\<close>

definition ISO_SIGNATURE :: "u8 list" where
  "ISO_SIGNATURE = [0x43, 0x44, 0x30, 0x30, 0x31]"

definition isohybrid_conversion ::
    "bool \<Rightarrow> (nat \<Rightarrow> u8) \<Rightarrow> gpt_table_header \<Rightarrow> u64 \<Rightarrow> bool prog" where
  "isohybrid_conversion be rnd gpt_header lb_size =
     pbind (device_read 32769 5) (\<lambda>iso_signature.
       if iso_signature \<noteq> ISO_SIGNATURE then pret True
       else
     pbind (gather_parts be gpt_header lb_size
         [0..<unat (ENDSWAP32 be (gh_number_of_partition_entries gpt_header))] []) (\<lambda>parts.
       case parts of
         None \<Rightarrow> pret True
       | Some parts \<Rightarrow> pbind (convert_to_mbr be rnd gpt_header lb_size parts) (\<lambda>_. pret False)))"

section \<open>Placing stage 2 in a given partition\<close>

text \<open>
  The conversion of \<open>sscanf\<close> with \<open>%u\<close>: blanks, an optional sign, decimal digits. \<open>None\<close> stands for
  no conversion, which leaves the variable uninitialised, and for a value that does not fit, which
  C leaves undefined.
\<close>

definition is_digit :: "char \<Rightarrow> bool" where
  "is_digit c \<longleftrightarrow> 48 \<le> (of_char c :: nat) \<and> of_char c \<le> (57 :: nat)"

fun digits_value :: "nat \<Rightarrow> string \<Rightarrow> nat" where
  "digits_value acc [] = acc"
| "digits_value acc (c # cs) =
     (if is_digit c then digits_value (10 * acc + (of_char c - 48)) cs else acc)"

definition is_space :: "char \<Rightarrow> bool" where
  "is_space c \<longleftrightarrow> of_char c \<in> {32, 9, 10, 11, 12, 13 :: nat}"

definition scan_u32 :: "string \<Rightarrow> u32 option" where
  "scan_u32 s =
     (let s = dropWhile is_space s;
          negative = (s \<noteq> [] \<and> hd s = CHR ''-'');
          s = (if s \<noteq> [] \<and> hd s \<in> {CHR ''-'', CHR ''+''} then tl s else s);
          n = digits_value 0 s
      in if s = [] \<or> \<not> is_digit (hd s) \<or> n \<ge> 2 ^ 32 then None
         else Some (if negative then - of_nat n else of_nat n))"

definition align_down :: "u64 \<Rightarrow> u64 \<Rightarrow> u64" where
  "align_down lb_size x = x AND NOT (lb_size - 1)"

text \<open>The entry offset is a product of two 32-bit values, so it wraps at 32 bits.\<close>

definition place_in_partition ::
    "bool \<Rightarrow> gpt_table_header \<Rightarrow> u64 \<Rightarrow> u16 \<Rightarrow> string \<Rightarrow> (u64 \<times> u64) prog" where
  "place_in_partition be gpt_header lb_size stage2_size_a part_ndx =
     (case scan_u32 part_ndx of
        None \<Rightarrow> pundefined
      | Some n \<Rightarrow>
          let partition_num = n - 1 in
          if partition_num > ENDSWAP32 be (gh_number_of_partition_entries gpt_header) then pbail
          else
        pbind (device_read (ENDSWAP64 be (gh_partition_entry_lba gpt_header) * lb_size +
            ucast (partition_num * ENDSWAP32 be (gh_size_of_partition_entry gpt_header))) (of_nat sizeof_gpt_entry)) (\<lambda>bytes.
          let gpt_entry = load_gpt_entry be bytes in
          if gpt_entry_unused gpt_entry then pbail
          else if ((ENDSWAP64 be (ge_ending_lba gpt_entry) - ENDSWAP64 be (ge_starting_lba gpt_entry)) + 1) * lb_size < 32768
          then pbail
          else let stage2_loc_a = ENDSWAP64 be (ge_starting_lba gpt_entry) * lb_size;
                   stage2_loc_b = stage2_loc_a + ucast stage2_size_a;
                   stage2_loc_b = (if stage2_loc_b AND (lb_size - 1) \<noteq> 0
                     then align_down lb_size (stage2_loc_b + lb_size) else stage2_loc_b)
            in pret (stage2_loc_a, stage2_loc_b)))"

section \<open>Embedding stage 2 behind the partition entries\<close>

fun max_entry_used :: "bool \<Rightarrow> gpt_table_header \<Rightarrow> u64 \<Rightarrow> nat list \<Rightarrow> int \<Rightarrow> int prog" where
  "max_entry_used be gpt_header lb_size [] max_used = pret max_used"
| "max_entry_used be gpt_header lb_size (i # js) max_used =
     pbind (read_gpt_entry be gpt_header lb_size i) (\<lambda>e.
       max_entry_used be gpt_header lb_size js
         (if \<not> gpt_entry_unused e \<and> int i > max_used then int i else max_used))"

text \<open>
  Zeroing the entries from \<open>first\<close> to \<open>count - 1\<close> of one table. The buffer has the entry size of the
  primary table and its allocation is not checked, so a failed allocation or a larger entry size
  in the secondary header makes the write read memory it does not own.
\<close>

definition zero_entries ::
    "bool \<Rightarrow> gpt_table_header \<Rightarrow> u64 \<Rightarrow> bool \<Rightarrow> nat \<Rightarrow> nat \<Rightarrow> nat \<Rightarrow> unit prog" where
  "zero_entries be header lb_size bad buffer_size first count =
     (let size = ENDSWAP32 be (gh_size_of_partition_entry header) in
      if first < count \<and> (bad \<or> unat size > buffer_size) then pundefined
      else write_all device_write (map (\<lambda>i. (replicate (unat size) 0,
        ENDSWAP64 be (gh_partition_entry_lba header) * lb_size + of_nat i * ucast size)) [first..<count]))"

text \<open>Swapping the 64-bit count before it is stored in the 32-bit field.\<close>

definition new_header :: "bool \<Rightarrow> gpt_table_header \<Rightarrow> u32 \<Rightarrow> u64 \<Rightarrow> gpt_table_header" where
  "new_header be header array_crc count =
     (let h = header\<lparr>gh_partition_entry_array_crc32 := ENDSWAP32 be array_crc\<rparr>;
          h = h\<lparr>gh_number_of_partition_entries := ucast (ENDSWAP64 be count)\<rparr>;
          h = h\<lparr>gh_crc32 := 0\<rparr>;
          h = h\<lparr>gh_crc32 := crc32 (take 92 (store_gpt_table_header be h))\<rparr>
      in h\<lparr>gh_crc32 := ENDSWAP32 be (gh_crc32 h)\<rparr>)"

definition fault :: "bool prog" where
  "fault d = (case next_fault d of (bad, d) \<Rightarrow> (Ret bad, d))"

definition write_header :: "bool \<Rightarrow> gpt_table_header \<Rightarrow> u64 \<Rightarrow> unit prog" where
  "write_header be header loc =
     device_write (store_gpt_table_header be header) loc (of_nat sizeof_gpt_table_header)"

definition rewrite_tables ::
    "bool \<Rightarrow> gpt_table_header \<Rightarrow> gpt_table_header \<Rightarrow> u64 \<Rightarrow> int \<Rightarrow> u64 \<Rightarrow> unit prog" where
  "rewrite_tables be gpt_header secondary_gpt_header lb_size max_used count =
     (let size = ENDSWAP32 be (gh_size_of_partition_entry gpt_header); first = nat (max_used + 1) in
      pbind fault (\<lambda>bad.
      pbind (zero_entries be gpt_header lb_size bad (unat size) first (unat count)) (\<lambda>_.
      pbind (zero_entries be secondary_gpt_header lb_size bad (unat size) first (unat count)) (\<lambda>_.
      pbind allocate (\<lambda>_.
      pbind (device_read (ENDSWAP64 be (gh_partition_entry_lba gpt_header) * lb_size) (count * ucast size)) (\<lambda>partition_array.
        let crc32_partition_array = crc32 partition_array in
      pbind (write_header be (new_header be gpt_header crc32_partition_array count) lb_size) (\<lambda>_.
        write_header be (new_header be secondary_gpt_header crc32_partition_array count)
          (lb_size * ENDSWAP64 be (gh_alternate_lba gpt_header)))))))))"

definition embed_in_gpt ::
    "bool \<Rightarrow> gpt_table_header \<Rightarrow> gpt_table_header \<Rightarrow> u64 \<Rightarrow> u16 \<Rightarrow> u16 \<Rightarrow> (u64 \<times> u64) prog" where
  "embed_in_gpt be gpt_header secondary_gpt_header lb_size stage2_size_a stage2_size_b =
     pbind (max_entry_used be gpt_header lb_size
         [0..<unat (ENDSWAP32 be (gh_number_of_partition_entries gpt_header))] (-1)) (\<lambda>max_partition_entry_used.
       let entry_lba = ENDSWAP64 be (gh_partition_entry_lba gpt_header);
           stage2_loc_a = align_down lb_size ((entry_lba + 32) * lb_size - ucast stage2_size_a);
           stage2_loc_b = align_down lb_size
             ((ENDSWAP64 be (gh_partition_entry_lba secondary_gpt_header) + 32) * lb_size - ucast stage2_size_b);
           size = ucast (ENDSWAP32 be (gh_size_of_partition_entry gpt_header)) in
       if size = 0 then pundefined
       else let partition_entries_per_lb = lb_size div size;
                new_partition_array_lba_size = stage2_loc_a div lb_size - entry_lba;
                new_partition_entry_count = new_partition_array_lba_size * partition_entries_per_lb in
         if sint new_partition_entry_count \<le> max_partition_entry_used then pbail
         else pbind (rewrite_tables be gpt_header secondary_gpt_header lb_size
             max_partition_entry_used new_partition_entry_count) (\<lambda>_.
           pret (stage2_loc_a, stage2_loc_b)))"


section \<open>The undo invariant\<close>

text \<open>A header that was read from the device; it keeps this shape under updates of its numbers.\<close>

definition header_wf :: "gpt_table_header \<Rightarrow> bool" where
  "header_wf h \<longleftrightarrow> length (gh_signature h) = 8 \<and> length (gh_disk_guid h) = 2 \<and> length (gh_padding h) = 4"

lemma header_wf_load: "length bs = unat (of_nat sizeof_gpt_table_header :: u64) \<Longrightarrow> header_wf (load_gpt_table_header be bs)"
  by (simp add: sizeof_gpt_table_header_def header_wf_def load_gpt_table_header_def)

lemma header_wf_new [simp]: "header_wf (new_header be h c n) = header_wf h"
  by (simp add: header_wf_def new_header_def Let_def)

lemma length_store_header: "header_wf h \<Longrightarrow> length (store_gpt_table_header be h) = 96"
proof -
  assume wf: "header_wf h"
  then obtain a b where "gh_disk_guid h = [a, b]"
    by (auto simp: header_wf_def numeral_2_eq_2 length_Suc_conv)
  with wf show ?thesis by (simp add: header_wf_def store_gpt_table_header_def)
qed

lemma keeps_probe_gpt:
  "keeps ub orig (probe_gpt be force_mbr guesses) (\<lambda>r. \<forall>h lb. r = Some (h, lb) \<longrightarrow> header_wf h)"
  by (induction guesses) (auto simp: Let_def header_wf_load intro!: keeps_pret keeps_pbail keeps_read_bind)

lemma keeps_read_secondary: "keeps ub orig (read_secondary be h lb_size) header_wf"
  unfolding read_secondary_def Let_def
  by (intro keeps_read_bind keeps_if keeps_pret keeps_pbail header_wf_load)

lemma keeps_read_gpt_entry: "keeps ub orig (read_gpt_entry be h lb_size i) (\<lambda>_. True)"
  unfolding read_gpt_entry_def by (intro keeps_read_bind keeps_pret) simp

lemma length_lba2chs [simp]: "length (lba2chs lba) = 3"
  by (simp add: lba2chs_def Let_def)

lemma keeps_gather_parts:
  "\<forall>p \<in> set parts. length (pc_chs_start p) = 3 \<and> length (pc_chs_end p) = 3 \<Longrightarrow>
   keeps True orig (gather_parts be h lb_size js parts)
     (\<lambda>r. \<forall>ps. r = Some ps \<longrightarrow> (\<forall>p \<in> set ps. length (pc_chs_start p) = 3 \<and> length (pc_chs_end p) = 3))"
proof (induction js arbitrary: parts)
  case Nil
  then show ?case by (simp add: keeps_pret)
next
  case (Cons i js)
  then show ?case
    unfolding gather_parts.simps Let_def
    by (intro keeps_bind_any [OF keeps_read_gpt_entry] keeps_if keeps_pundefined keeps_pret Cons.IH) auto
qed

lemma dev_ok_no_fault: "dev_ok d \<Longrightarrow> next_fault d = (False, d)"
  by (simp add: next_fault_none dev_ok_def dev_base_def)

lemma keeps_allocate: "keeps ub orig allocate (\<lambda>_. True)"
  by (rule keepsI) (simp add: allocate_def dev_ok_no_fault)

lemma keeps_fault: "keeps ub orig fault (\<lambda>bad. \<not> bad)"
  by (rule keepsI) (simp add: fault_def dev_ok_no_fault ex_bool_eq)

lemma keeps_write_list:
  "(\<And>i. i < n \<Longrightarrow> length (f i) < 2 ^ 64) \<Longrightarrow> keeps ub orig (write_all device_write (map (\<lambda>i. (f i, g i)) [m..<n])) (\<lambda>_. True)"
  by (rule keeps_write_all) auto

lemma unat_u64_less: "unat (x :: u64) < 2 ^ 64"
  using unsigned_less [of x, where 'a = nat] by simp

lemma keeps_convert_to_mbr:
  assumes "\<forall>p \<in> set parts. length (pc_chs_start p) = 3 \<and> length (pc_chs_end p) = 3"
  shows "keeps ub orig (convert_to_mbr be rnd h lb_size parts) (\<lambda>_. True)"
  unfolding convert_to_mbr_def nuke_primary_def nuke_secondary_def disk_id_writes_def
  by (intro keeps_bind_any [OF keeps_allocate] keeps_bind_any keeps_write_list keeps_write_all)
     (use assms unat_u64_less in \<open>auto simp: part_writes_def Let_def\<close>)

lemma keeps_isohybrid: "keeps True orig (isohybrid_conversion be rnd h lb_size) (\<lambda>_. True)"
  unfolding isohybrid_conversion_def
  by (intro keeps_read_bind keeps_if keeps_pret keeps_pbind [OF keeps_gather_parts] keeps_option
      keeps_bind_any [OF keeps_convert_to_mbr]) auto

lemma keeps_place_in_partition:
  "keeps True orig (place_in_partition be h lb_size size_a part_ndx) (\<lambda>_. True)"
  unfolding place_in_partition_def Let_def
  by (intro keeps_option keeps_pundefined keeps_if keeps_pbail keeps_read_bind keeps_pret) simp_all

lemma keeps_max_entry_used: "keeps ub orig (max_entry_used be h lb_size js k) (\<lambda>_. True)"
  by (induction js arbitrary: k) (auto intro: keeps_pret keeps_bind_any [OF keeps_read_gpt_entry])

lemma keeps_zero_entries: "keeps True orig (zero_entries be h lb_size bad n first count) (\<lambda>_. True)"
  unfolding zero_entries_def Let_def
proof (intro keeps_if keeps_pundefined keeps_write_list)
  show "length (replicate (unat (ENDSWAP32 be (gh_size_of_partition_entry h))) (0 :: u8)) < 2 ^ 64"
    using unsigned_less [of "ENDSWAP32 be (gh_size_of_partition_entry h)", where 'a = nat] by simp
qed

lemma keeps_write_header: "header_wf h \<Longrightarrow> keeps ub orig (write_header be h loc) (\<lambda>_. True)"
  unfolding write_header_def by (rule keeps_write) (simp add: length_store_header sizeof_gpt_table_header_def)

lemma keeps_rewrite_tables:
  "header_wf h \<Longrightarrow> header_wf s \<Longrightarrow> keeps True orig (rewrite_tables be h s lb_size k count) (\<lambda>_. True)"
  unfolding rewrite_tables_def Let_def
  by (intro keeps_bind_any [OF keeps_any [OF keeps_fault]] keeps_bind_any [OF keeps_zero_entries]
      keeps_bind_any [OF keeps_allocate] keeps_read_bind keeps_bind_any [OF keeps_write_header] keeps_write_header) simp_all

lemma keeps_embed_in_gpt:
  "header_wf h \<Longrightarrow> header_wf s \<Longrightarrow> keeps True orig (embed_in_gpt be h s lb_size size_a size_b) (\<lambda>_. True)"
  unfolding embed_in_gpt_def Let_def
  by (intro keeps_bind_any [OF keeps_max_entry_used] keeps_if keeps_pundefined keeps_pbail
      keeps_bind_any [OF keeps_rewrite_tables] keeps_pret) simp_all

end
