(* ===== verification/Limine_Install.thy ===== *)
theory Limine_Install
  imports Limine_Gpt
begin

text \<open>
  \<open>bios_install\<close> (\<open>limine.c\<close>): the command line, the checks of an MBR, the location of the two
  halves of stage 2, the final writes, and the clean-up that undoes a failed installation. The boot
  image of \<open>limine-bios-hdd.h\<close> is the parameter \<open>bootloader_img\<close>.
\<close>

section \<open>Checks of a master boot record\<close>

text \<open>One partition entry; the flags are \<open>mbr\<close> and \<open>any_active\<close>.\<close>

definition check_partition :: "bool \<Rightarrow> bool \<Rightarrow> u64 \<Rightarrow> bool \<times> bool \<Rightarrow> (bool \<times> bool) prog" where
  "check_partition be force_mbr entry flags =
     (case flags of (mbr, any_active) \<Rightarrow>
     pbind (device_read entry 1) (\<lambda>b.
       let hint8 = b ! 0 in
     pbind (if hint8 \<noteq> 0x00 \<and> hint8 \<noteq> 0x80 then
              (if \<not> force_mbr then pret (False, hint8)
               else let hint8 = hint8 AND 0x80 in
                 pbind (device_write [hint8] entry 1) (\<lambda>_. pret (mbr, hint8)))
            else pret (mbr, hint8)) (\<lambda>(mbr, hint8).
       let any_active = (any_active \<or> hint8 AND 0x80 \<noteq> 0) in
     pbind (device_read (entry + 4) 1) (\<lambda>b.
       if b ! 0 \<noteq> 0x00 then
         pbind (device_read (entry + 8) 4) (\<lambda>b.
           let hint32 = ENDSWAP32 be (load_host be b) in
           if hint32 < 63 then pbail else pret (mbr, any_active))
       else pret (mbr, any_active)))))"

text \<open>The signature of a file system in the boot sector; forcing wipes \<open>wipe\<close> bytes of it.\<close>

definition check_signature :: "bool \<Rightarrow> u64 \<Rightarrow> u8 list \<Rightarrow> nat \<Rightarrow> bool \<Rightarrow> bool prog" where
  "check_signature force_mbr loc signature wipe mbr =
     pbind (device_read loc (of_nat (length signature))) (\<lambda>hintc.
       if hintc = signature then
         (if \<not> force_mbr then pret False
          else pbind (device_write (replicate wipe 0) loc (of_nat wipe)) (\<lambda>_. pret mbr))
       else pret mbr)"

definition check_ext_magic :: "bool \<Rightarrow> bool \<Rightarrow> bool \<Rightarrow> bool prog" where
  "check_ext_magic be force_mbr mbr =
     pbind (device_read 1080 2) (\<lambda>b.
       let hint16 = ENDSWAP16 be (load_host be b) in
       if hint16 = 0xef53 then
         (if \<not> force_mbr then pret False
          else pbind (device_write (store_host be 2 (ENDSWAP16 be 0)) 1080 2) (\<lambda>_. pret mbr))
       else pret mbr)"

definition ECH_FS :: "u8 list" where "ECH_FS = [0x5f, 0x45, 0x43, 0x48, 0x5f, 0x46, 0x53, 0x5f]"
definition NTFS :: "u8 list" where "NTFS = [0x4e, 0x54, 0x46, 0x53]"
definition FAT :: "u8 list" where "FAT = [0x46, 0x41, 0x54]"
definition FAT32 :: "u8 list" where "FAT32 = [0x46, 0x41, 0x54, 0x33, 0x32]"

text \<open>All sanity checks, in their order; the result is the flag \<open>mbr\<close>.\<close>

definition mbr_checks :: "bool \<Rightarrow> bool \<Rightarrow> bool prog" where
  "mbr_checks be force_mbr =
     pbind (check_partition be force_mbr 446 (True, False)) (\<lambda>flags.
     pbind (check_partition be force_mbr 462 flags) (\<lambda>flags.
     pbind (check_partition be force_mbr 478 flags) (\<lambda>flags.
     pbind (check_partition be force_mbr 494 flags) (\<lambda>(mbr, any_active).
     pbind (check_signature force_mbr 4 ECH_FS 8 mbr) (\<lambda>mbr.
     pbind (check_signature force_mbr 3 NTFS 4 mbr) (\<lambda>mbr.
     pbind (check_signature force_mbr 54 FAT 5 mbr) (\<lambda>mbr.
     pbind (check_signature force_mbr 82 FAT 5 mbr) (\<lambda>mbr.
     pbind (check_signature force_mbr 3 FAT32 5 mbr) (\<lambda>mbr.
     pbind (check_ext_magic be force_mbr mbr) (\<lambda>mbr.
       if mbr \<and> \<not> any_active then pbind (device_write [0x80] 446 1) (\<lambda>_. pret mbr)
       else pret mbr))))))))))"

section \<open>The two halves of stage 2\<close>

definition div_roundup :: "u64 \<Rightarrow> u64 \<Rightarrow> u64" where
  "div_roundup a b = (a + (b - 1)) div b"

definition stage2_sects :: "u64 \<Rightarrow> u64" where
  "stage2_sects stage2_size = div_roundup stage2_size 512"

definition stage2_size_a :: "u64 \<Rightarrow> u16" where
  "stage2_size_a stage2_size = ucast ((stage2_sects stage2_size div 2) * 512 +
     (if stage2_sects stage2_size mod 2 \<noteq> 0 then 512 else 0))"

definition stage2_size_b :: "u64 \<Rightarrow> u16" where
  "stage2_size_b stage2_size = ucast ((stage2_sects stage2_size div 2) * 512)"

definition image_stage2_size :: "u8 list \<Rightarrow> u64" where
  "image_stage2_size bootloader_img = of_nat (length bootloader_img) - 512"

text \<open>The locations for an MBR, in the gap behind it.\<close>

definition mbr_gap_locations :: "u8 list \<Rightarrow> u64 \<times> u64" where
  "mbr_gap_locations bootloader_img = (512, 512 + ucast (stage2_size_a (image_stage2_size bootloader_img)))"

definition place_stage2 ::
    "bool \<Rightarrow> u8 list \<Rightarrow> (gpt_table_header \<times> gpt_table_header \<times> u64) option \<Rightarrow> string option \<Rightarrow> (u64 \<times> u64) prog" where
  "place_stage2 be bootloader_img gpt part_ndx =
     (let size_a = stage2_size_a (image_stage2_size bootloader_img);
          size_b = stage2_size_b (image_stage2_size bootloader_img) in
      case gpt of
        None \<Rightarrow> pret (mbr_gap_locations bootloader_img)
      | Some (gpt_header, secondary_gpt_header, lb_size) \<Rightarrow>
          (case part_ndx of
             Some part \<Rightarrow> place_in_partition be gpt_header lb_size size_a part
           | None \<Rightarrow> embed_in_gpt be gpt_header secondary_gpt_header lb_size size_a size_b))"

text \<open>
  The final writes. An image that is smaller than its boot sector and first half would be read out
  of bounds.
\<close>

definition stage_writes :: "bool \<Rightarrow> u8 list \<Rightarrow> u64 \<times> u64 \<Rightarrow> (u8 list \<times> u64) list" where
  "stage_writes be bootloader_img locs =
     (case locs of (stage2_loc_a, stage2_loc_b) \<Rightarrow>
      let size_a = stage2_size_a (image_stage2_size bootloader_img);
          size_b = stage2_size_b (image_stage2_size bootloader_img)
      in [(slice_at bootloader_img 0 512, 0),
          (slice_at bootloader_img 512 (unat size_a), stage2_loc_a),
          (drop (512 + unat size_a) bootloader_img, stage2_loc_b),
          (store_host be 2 (ENDSWAP16 be size_a), 0x1a4 + 0),
          (store_host be 2 (ENDSWAP16 be size_b), 0x1a4 + 2),
          (store_host be 8 (ENDSWAP64 be stage2_loc_a), 0x1a4 + 4),
          (store_host be 8 (ENDSWAP64 be stage2_loc_b), 0x1a4 + 12)])"

definition write_stages :: "bool \<Rightarrow> u8 list \<Rightarrow> u64 \<times> u64 \<Rightarrow> unit prog" where
  "write_stages be bootloader_img locs =
     pbind (device_read 218 6) (\<lambda>timestamp.
     pbind (device_read 440 70) (\<lambda>orig_mbr.
       if length bootloader_img < 512 + unat (stage2_size_a (image_stage2_size bootloader_img)) then pundefined
       else
     pbind (write_all device_write (stage_writes be bootloader_img locs @ [(timestamp, 218), (orig_mbr, 440)])) (\<lambda>_.
       or_cleanup device_flush_cache)))"

section \<open>The command\<close>

record install_opts =
  io_quiet :: bool
  io_force_mbr :: bool
  io_gpt2mbr_allowed :: bool
  io_uninstall_mode :: bool
  io_uninstall_file :: "string option"
  io_part_ndx :: "string option"
  io_device :: "string option"

definition default_opts :: install_opts where
  "default_opts = \<lparr>io_quiet = False, io_force_mbr = False, io_gpt2mbr_allowed = True,
     io_uninstall_mode = False, io_uninstall_file = None, io_part_ndx = None, io_device = None\<rparr>"

definition EXIT_SUCCESS :: int where "EXIT_SUCCESS = 0"
definition EXIT_FAILURE :: int where "EXIT_FAILURE = 1"

definition UNINSTALL_FILE_OPT :: string where
  "UNINSTALL_FILE_OPT = ''--uninstall-data-file=''"

text \<open>
  The options; \<open>Inl\<close> is an exit at once. \<open>opens\<close> tells which files can be opened for update. As in the
  code, 21 characters of the option are compared and skipped, although it has 22.
\<close>

fun parse_install_args :: "(string \<Rightarrow> bool) \<Rightarrow> string list \<Rightarrow> install_opts \<Rightarrow> int + install_opts" where
  "parse_install_args opens [] opts = Inr opts"
| "parse_install_args opens (arg # args) opts =
     (if arg = ''--help'' \<or> arg = ''-h'' then Inl EXIT_SUCCESS
      else if arg = ''--quiet'' then parse_install_args opens args (opts\<lparr>io_quiet := True\<rparr>)
      else if arg = ''--force-mbr'' then parse_install_args opens args (opts\<lparr>io_force_mbr := True\<rparr>)
      else if arg = ''--no-gpt-to-mbr-isohybrid-conversion''
      then parse_install_args opens args (opts\<lparr>io_gpt2mbr_allowed := False\<rparr>)
      else if arg = ''--uninstall'' then parse_install_args opens args (opts\<lparr>io_uninstall_mode := True\<rparr>)
      else if take 21 arg = take 21 UNINSTALL_FILE_OPT then
        (if drop 21 arg = [] then Inl EXIT_FAILURE
         else parse_install_args opens args (opts\<lparr>io_uninstall_file := Some (drop 21 arg)\<rparr>))
      else case io_device opts of
        Some _ \<Rightarrow> parse_install_args opens args (opts\<lparr>io_part_ndx := Some arg\<rparr>)
      | None \<Rightarrow>
          if opens arg then parse_install_args opens args (opts\<lparr>io_device := Some arg\<rparr>)
          else Inl EXIT_FAILURE)"

text \<open>The installation proper: everything between \<open>device_init\<close> and the label \<open>cleanup\<close>.\<close>

definition find_gpt ::
    "bool \<Rightarrow> bool \<Rightarrow> (gpt_table_header \<times> gpt_table_header \<times> u64) option prog" where
  "find_gpt be force_mbr =
     pbind (probe_gpt be force_mbr lb_guesses) (\<lambda>probe.
       case probe of
         None \<Rightarrow> pret None
       | Some (gpt_header, lb_size) \<Rightarrow>
           pbind (read_secondary be gpt_header lb_size) (\<lambda>secondary_gpt_header.
             pret (Some (gpt_header, secondary_gpt_header, lb_size))))"

definition install_body :: "bool \<Rightarrow> u8 list \<Rightarrow> (nat \<Rightarrow> u8) \<Rightarrow> install_opts \<Rightarrow> unit prog" where
  "install_body be bootloader_img rnd opts =
     pbind (find_gpt be (io_force_mbr opts)) (\<lambda>gpt.
     pbind (case gpt of
         None \<Rightarrow> pret None
       | Some (gpt_header, secondary_gpt_header, lb_size) \<Rightarrow>
           if io_gpt2mbr_allowed opts then
             pbind (isohybrid_conversion be rnd gpt_header lb_size) (\<lambda>still_gpt.
               pret (if still_gpt then gpt else None))
           else pret gpt) (\<lambda>gpt.
     pbind (if gpt = None then mbr_checks be (io_force_mbr opts) else pret False) (\<lambda>mbr.
       if gpt = None \<and> \<not> mbr then pbail
       else
     pbind (place_stage2 be bootloader_img gpt (io_part_ndx opts)) (\<lambda>locs.
       write_stages be bootloader_img locs))))"

text \<open>
  The rest of the command on the opened device. \<open>files\<close> are the host's files, needed for the undo
  data. The result is the exit status, the undo file to write, if any, and the final state.
\<close>

definition install_cleanup ::
    "bool \<Rightarrow> install_opts \<Rightarrow> bool \<Rightarrow> (int \<times> u8 list option) prog" where
  "install_cleanup be opts ok d =
     (let d = reverse_uninstall_data d in
      if \<not> ok then
        (case uninstall d of
           (Ret _, d) \<Rightarrow> (Ret (EXIT_FAILURE, None), d)
         | (Bail, d) \<Rightarrow> (Ret (EXIT_FAILURE, None), d)
         | (Undefined, d) \<Rightarrow> (Undefined, d))
      else if io_uninstall_file opts \<noteq> None then
        (case store_uninstall_data be d of ((_, written), d) \<Rightarrow> (Ret (EXIT_SUCCESS, written), d))
      else (Ret (EXIT_SUCCESS, None), d))"

definition uninstall_mode :: "bool \<Rightarrow> install_opts \<Rightarrow> (string \<rightharpoonup> u8 list) \<Rightarrow> int prog" where
  "uninstall_mode be opts files d =
     (case io_uninstall_file opts of
        None \<Rightarrow> (Ret EXIT_FAILURE, d)
      | Some name \<Rightarrow>
          (case load_uninstall_data be (files name) d of
             (Ret _, d) \<Rightarrow>
               (case uninstall d of
                  (Ret True, d) \<Rightarrow> (Ret EXIT_SUCCESS, d)
                | (Ret False, d) \<Rightarrow> (Ret EXIT_FAILURE, d)
                | (Bail, d) \<Rightarrow> (Ret EXIT_FAILURE, d)
                | (Undefined, d) \<Rightarrow> (Undefined, d))
           | (Bail, d) \<Rightarrow> (Ret EXIT_FAILURE, d)
           | (Undefined, d) \<Rightarrow> (Undefined, d)))"

definition install_on_device ::
    "bool \<Rightarrow> u8 list \<Rightarrow> (nat \<Rightarrow> u8) \<Rightarrow> install_opts \<Rightarrow> (string \<rightharpoonup> u8 list) \<Rightarrow> (int \<times> u8 list option) prog" where
  "install_on_device be bootloader_img rnd opts files =
     pbind (\<lambda>d.
       case device_init d of
         (False, d) \<Rightarrow> (Ret (EXIT_FAILURE, None), d)
       | (True, d) \<Rightarrow>
           if io_uninstall_mode opts then pbind (uninstall_mode be opts files) (\<lambda>r. pret (r, None)) d
           else (case install_body be bootloader_img rnd opts d of
             (Ret _, d) \<Rightarrow> install_cleanup be opts True d
           | (Bail, d) \<Rightarrow> install_cleanup be opts False d
           | (Undefined, d) \<Rightarrow> (Undefined, d))) (\<lambda>r.
     pbind free_uninstall_data (\<lambda>_. pret r))"

text \<open>
  \<open>argv\<close> includes the command. The device and the undo file are files of the host; the undo file is
  written last.
\<close>

definition bios_install ::
    "bool \<Rightarrow> u8 list \<Rightarrow> (nat \<Rightarrow> u8) \<Rightarrow> bool list \<Rightarrow> string list \<Rightarrow> (string \<rightharpoonup> u8 list) \<Rightarrow>
     int outcome \<times> (string \<rightharpoonup> u8 list)" where
  "bios_install be bootloader_img rnd faults argv files =
     (if length argv < 2 then (Ret EXIT_FAILURE, files)
      else case parse_install_args (\<lambda>name. files name \<noteq> None) (tl argv) default_opts of
        Inl status \<Rightarrow> (Ret status, files)
      | Inr opts \<Rightarrow>
          (case io_device opts of
             None \<Rightarrow> (Ret EXIT_FAILURE, files)
           | Some name \<Rightarrow>
               (case install_on_device be bootloader_img rnd opts files (dev_open (the (files name)) faults) of
                  (Ret (status, written), d) \<Rightarrow>
                    (let files = files(name \<mapsto> dv_disk d) in
                     (Ret status, case written of None \<Rightarrow> files
                        | Some bytes \<Rightarrow> files(the (io_uninstall_file opts) \<mapsto> bytes)))
                | (Bail, d) \<Rightarrow> (Ret EXIT_FAILURE, files(name \<mapsto> dv_disk d))
                | (Undefined, d) \<Rightarrow> (Undefined, files(name \<mapsto> dv_disk d)))))"


section \<open>The undo invariant\<close>

text \<open>Nothing here runs into undefined behaviour as long as the disk has no GPT; reading an entry of a
  GPT header that was not checked may.\<close>

lemma keeps_check_partition: "keeps ub orig (check_partition be force_mbr entry flags) (\<lambda>_. True)"
  unfolding check_partition_def Let_def
  by (intro keeps_pair keeps_read_bind keeps_bind_any keeps_if keeps_pret keeps_pbail keeps_write) simp_all

lemma keeps_check_signature:
  "wipe < 2 ^ 64 \<Longrightarrow> keeps ub orig (check_signature force_mbr loc signature wipe mbr) (\<lambda>_. True)"
  unfolding check_signature_def
  by (intro keeps_read_bind keeps_bind_any keeps_if keeps_pret keeps_write) (simp_all add: unat_of_nat_lt)

lemma keeps_check_ext_magic: "keeps ub orig (check_ext_magic be force_mbr mbr) (\<lambda>_. True)"
  unfolding check_ext_magic_def Let_def
  by (intro keeps_read_bind keeps_bind_any keeps_if keeps_pret keeps_write) simp_all

lemma keeps_mbr_checks: "keeps ub orig (mbr_checks be force_mbr) (\<lambda>_. True)"
  unfolding mbr_checks_def
  by (intro keeps_bind_any [OF keeps_check_partition] keeps_bind_any [OF keeps_check_signature]
      keeps_bind_any [OF keeps_check_ext_magic] keeps_pair keeps_if keeps_pret keeps_bind_any [OF keeps_write]) simp_all

lemma keeps_stage_writes:
  assumes "length bootloader_img < 2 ^ 64" "length timestamp = 6" "length orig_mbr = 70"
  shows "keeps ub orig (write_all device_write
    (stage_writes be bootloader_img locs @ [(timestamp, 218), (orig_mbr, 440)])) (\<lambda>_. True)"
  using assms by (intro keeps_write_all) (auto simp: stage_writes_def Let_def slice_at_def split: prod.split)

lemma keeps_write_stages:
  assumes "length bootloader_img < 2 ^ 64"
  shows "keeps True orig (write_stages be bootloader_img locs) (\<lambda>_. True)"
  unfolding write_stages_def
  by (intro keeps_read_bind keeps_if keeps_pundefined keeps_bind_any [OF keeps_stage_writes] keeps_flush)
     (use assms in simp_all)

definition gpt_wf :: "(gpt_table_header \<times> gpt_table_header \<times> u64) option \<Rightarrow> bool" where
  "gpt_wf gpt \<longleftrightarrow> (\<forall>h s lb. gpt = Some (h, s, lb) \<longrightarrow> header_wf h \<and> header_wf s)"

lemma keeps_find_gpt: "keeps ub orig (find_gpt be force_mbr) gpt_wf"
  unfolding find_gpt_def
  by (rule keeps_pbind [OF keeps_probe_gpt])
     (intro keeps_option keeps_pair keeps_pret keeps_pbind [OF keeps_read_secondary]; simp add: gpt_wf_def)

lemma keeps_place_stage2:
  "gpt_wf gpt \<Longrightarrow> keeps True orig (place_stage2 be bootloader_img gpt part_ndx) (\<lambda>_. True)"
  unfolding place_stage2_def Let_def
  by (intro keeps_option keeps_pair keeps_pret keeps_place_in_partition keeps_embed_in_gpt) (simp_all add: gpt_wf_def)

lemma keeps_install_body:
  assumes len: "length bootloader_img < 2 ^ 64"
  shows "keeps True orig (install_body be bootloader_img rnd opts) (\<lambda>_. True)"
  unfolding install_body_def
proof (rule keeps_pbind [OF keeps_find_gpt])
  fix gpt assume gpt: "gpt_wf gpt"
  let ?conv = "case gpt of None \<Rightarrow> pret None
    | Some (gpt_header, secondary_gpt_header, lb_size) \<Rightarrow>
        if io_gpt2mbr_allowed opts then
          pbind (isohybrid_conversion be rnd gpt_header lb_size) (\<lambda>still_gpt. pret (if still_gpt then gpt else None))
        else pret gpt"
  have "keeps True orig ?conv gpt_wf"
    by (intro keeps_option keeps_pair keeps_if keeps_pret keeps_bind_any [OF keeps_isohybrid])
       (use gpt in \<open>simp_all add: gpt_wf_def\<close>)
  then show "keeps True orig (pbind ?conv (\<lambda>gpt.
      pbind (if gpt = None then mbr_checks be (io_force_mbr opts) else pret False) (\<lambda>mbr.
        if gpt = None \<and> \<not> mbr then pbail
        else pbind (place_stage2 be bootloader_img gpt (io_part_ndx opts)) (write_stages be bootloader_img)))) (\<lambda>_. True)"
  proof (rule keeps_pbind)
    fix gpt assume gpt: "gpt_wf gpt"
    show "keeps True orig (pbind (if gpt = None then mbr_checks be (io_force_mbr opts) else pret False) (\<lambda>mbr.
        if gpt = None \<and> \<not> mbr then pbail
        else pbind (place_stage2 be bootloader_img gpt (io_part_ndx opts)) (write_stages be bootloader_img))) (\<lambda>_. True)"
      by (intro keeps_bind_any keeps_if keeps_mbr_checks keeps_pret keeps_pbail
          keeps_place_stage2 [OF gpt] keeps_write_stages [OF len]) simp
  qed
qed

section \<open>Failed installations\<close>

lemma parse_uninstall_mode:
  "parse_install_args opens args opts = Inr opts' \<Longrightarrow> ''--uninstall'' \<notin> set args \<Longrightarrow>
   io_uninstall_mode opts' = io_uninstall_mode opts"
proof (induction args arbitrary: opts)
  case (Cons a args)
  from Cons.prems show ?case by (auto split: if_splits option.splits dest!: Cons.IH)
qed simp

lemma parse_device:
  "parse_install_args opens args opts = Inr opts' \<Longrightarrow> io_device opts' = Some name \<Longrightarrow>
   io_device opts = Some name \<or> opens name"
proof (induction args arbitrary: opts)
  case (Cons a args)
  from Cons.prems show ?case by (auto split: if_splits option.splits dest!: Cons.IH)
qed simp

lemma finish_outcome:
  "pbind free_uninstall_data (\<lambda>_. pret r) d = (Ret r, d) \<or>
   pbind free_uninstall_data (\<lambda>_. pret r) d = (Undefined, d)"
  by (simp add: pbind_def free_uninstall_data_def pret_def)

lemma install_cleanup_failed:
  assumes "inst_inv orig d"
  shows "\<exists>d'. install_cleanup be opts False d = (Ret (EXIT_FAILURE, None), d') \<and> dv_disk d' = orig \<and>
    dv_uninstall_data_i d' \<le> UNINSTALL_DATA_MAX"
  using rollback [OF assms] assms by (auto simp: install_cleanup_def inst_inv_def)

lemma install_cleanup_done:
  "\<exists>written d'. install_cleanup be opts True d = (Ret (EXIT_SUCCESS, written), d')"
  by (simp add: install_cleanup_def Let_def split: prod.split)

lemma install_on_device_eq:
  assumes "device_init d = (True, d0)" "\<not> io_uninstall_mode opts"
  shows "install_on_device be bootloader_img rnd opts files d =
    (case install_body be bootloader_img rnd opts d0 of
       (Ret _, d1) \<Rightarrow> pbind (install_cleanup be opts True) (\<lambda>r. pbind free_uninstall_data (\<lambda>_. pret r)) d1
     | (Bail, d1) \<Rightarrow> pbind (install_cleanup be opts False) (\<lambda>r. pbind free_uninstall_data (\<lambda>_. pret r)) d1
     | (Undefined, d1) \<Rightarrow> (Undefined, d1))"
  using assms by (simp add: install_on_device_def pbind_def [where f = "\<lambda>r. pbind free_uninstall_data (\<lambda>_. pret r)"]
      split: outcome.split prod.split)

text \<open>How the command can end on a device, with no I/O error.\<close>

lemma install_on_device_outcome:
  assumes mode: "\<not> io_uninstall_mode opts" and len: "length bootloader_img < 2 ^ 64" and disk: "length disk < 2 ^ 63"
    and run: "install_on_device be bootloader_img rnd opts files (dev_open disk []) = (r, d')"
  shows "r = Undefined \<or> (\<exists>written. r = Ret (EXIT_SUCCESS, written)) \<or>
    r = Ret (EXIT_FAILURE, None) \<and> dv_disk d' = disk"
proof (cases "512 \<le> length disk")
  case False
  let ?d = "dev_open disk []"
  have "fst (device_init ?d) = False" using False by (intro device_init_small) (simp_all add: dev_open_def)
  moreover have "dv_disk (snd (device_init ?d)) = disk"
    using False by (simp add: device_init_def next_fault_none fread_cache_def slice_at_def Let_def dev_open_def)
  ultimately obtain d where d: "device_init ?d = (False, d)" "dv_disk d = disk"
    by (cases "device_init ?d") simp
  then have "install_on_device be bootloader_img rnd opts files ?d =
      pbind free_uninstall_data (\<lambda>_. pret (EXIT_FAILURE, None)) d"
    by (simp add: install_on_device_def pbind_def [where f = "\<lambda>r. pbind free_uninstall_data (\<lambda>_. pret r)"])
  then have "pbind free_uninstall_data (\<lambda>_. pret (EXIT_FAILURE, None)) d = (r, d')"
    unfolding run by simp
  with d(2) finish_outcome [of "(EXIT_FAILURE, None :: u8 list option)" d] show ?thesis by auto
next
  case True
  obtain d where d: "device_init (dev_open disk []) = (True, d)" "dev_ok d" "inst_inv disk d"
    using device_init_inv [OF True disk] by blast
  note keep = keepsD [OF keeps_install_body [OF len, of disk be rnd opts] d(2,3)]
  obtain r1 d1 where body: "install_body be bootloader_img rnd opts d = (r1, d1)" by fastforce
  note eq = install_on_device_eq [OF d(1) mode, of be bootloader_img rnd files, unfolded body]
  show ?thesis
  proof (cases r1)
    case (Ret x)
    obtain written d2 where "install_cleanup be opts True d1 = (Ret (EXIT_SUCCESS, written), d2)"
      using install_cleanup_done by blast
    with run eq Ret finish_outcome [of "(EXIT_SUCCESS, written)" d2] show ?thesis
      by (auto simp: pbind_def [of "install_cleanup be opts True"])
  next
    case Bail
    obtain d2 where "install_cleanup be opts False d1 = (Ret (EXIT_FAILURE, None), d2)" "dv_disk d2 = disk"
      using install_cleanup_failed [OF keep(2)] body Bail by blast
    with run eq Bail finish_outcome [of "(EXIT_FAILURE, None :: u8 list option)" d2] show ?thesis
      by (auto simp: pbind_def [of "install_cleanup be opts False"])
  next
    case Undefined
    with run eq show ?thesis by simp
  qed
qed

end
