(* ===== verification/Limine_Run.thy ===== *)
theory Limine_Run
  imports Limine_Install
begin

text \<open>
  What an installation without I/O errors does to the bytes of the device: programs over the cached
  device are evaluated to functions on the bytes and on the number of log entries. The theory ends
  with the installation on a disk with a master boot record, and with its later removal.
\<close>

section \<open>Evaluation on bytes\<close>

text \<open>An entry of no bytes cannot be stored in a log file.\<close>

definition full_log :: "dev \<Rightarrow> bool" where
  "full_log d \<longleftrightarrow> (\<forall>e \<in> set (dev_log d). ud_data e \<noteq> [])"

lemma full_log_step: "logs d d' e \<Longrightarrow> full_log d \<Longrightarrow> ud_data e \<noteq> [] \<Longrightarrow> full_log d'"
  by (cases "unat (dv_uninstall_data_i d) < length (dv_uninstall_data d)")
     (auto simp: full_log_def logs_def dev_log_def take_Suc_conv_app_nth list_update_beyond)

definition holds :: "u8 list \<Rightarrow> nat \<Rightarrow> dev \<Rightarrow> bool" where
  "holds v i d \<longleftrightarrow> dev_ok d \<and> \<not> dv_uninstalling d \<and> dv_block_size d = 512 \<and> dev_view d = v \<and>
     unat (dv_uninstall_data_i d) = i \<and> full_log d"

definition whole :: "u8 list \<Rightarrow> nat" where
  "whole v = length v div 512 * 512"

definition evals :: "'a prog \<Rightarrow> u8 list \<Rightarrow> nat \<Rightarrow> 'a outcome \<Rightarrow> u8 list \<Rightarrow> nat \<Rightarrow> bool" where
  "evals m v i r v' i' \<longleftrightarrow> (\<forall>d. holds v i d \<longrightarrow>
     (\<exists>d'. m d = (r, d') \<and> ((\<exists>x. r = Ret x) \<longrightarrow> holds v' i' d')))"

lemma holds_size: "holds v i d \<Longrightarrow> dev_size d = whole v"
  using length_dev_view [of d] by (auto simp: holds_def dev_size_def whole_def)

lemma whole_le: "whole v \<le> length v"
  by (simp add: whole_def div_times_less_eq_dividend)

lemma whole_cong: "length v' = length v \<Longrightarrow> whole v' = whole v"
  by (simp add: whole_def)

lemma evals_pret: "evals (pret x) v i (Ret x) v i"
  by (simp add: evals_def pret_def)

lemma evals_pbail: "evals pbail v i Bail v' i'"
  by (simp add: evals_def pbail_def)

lemma evals_pbind:
  assumes "evals m v i (Ret x) v1 i1" "evals (f x) v1 i1 r v2 i2"
  shows "evals (pbind m f) v i r v2 i2"
  unfolding evals_def
proof (intro allI impI)
  fix d assume d: "holds v i d"
  obtain d1 where d1: "m d = (Ret x, d1)" "holds v1 i1 d1" using assms(1) d unfolding evals_def by blast
  obtain d2 where "f x d1 = (r, d2) \<and> ((\<exists>y. r = Ret y) \<longrightarrow> holds v2 i2 d2)"
    using assms(2) d1(2) unfolding evals_def by blast
  with d1(1) show "\<exists>d'. pbind m f d = (r, d') \<and> ((\<exists>y. r = Ret y) \<longrightarrow> holds v2 i2 d')"
    by (simp add: pbind_def)
qed

lemma evals_pbind_bail:
  assumes "evals m v i Bail v1 i1"
  shows "evals (pbind m f) v i Bail v2 i2"
  unfolding evals_def
proof (intro allI impI)
  fix d assume "holds v i d"
  then obtain d1 where "m d = (Bail, d1)" using assms unfolding evals_def by blast
  then show "\<exists>d'. pbind m f d = (Bail, d') \<and> ((\<exists>y. Bail = Ret y) \<longrightarrow> holds v2 i2 d')"
    by (simp add: pbind_def)
qed

lemma evals_read:
  assumes "unat loc + unat count \<le> whole v"
  shows "evals (device_read loc count) v i (Ret (slice_at v (unat loc) (unat count))) v i"
  unfolding evals_def
proof (intro allI impI)
  fix d assume d: "holds v i d"
  then have fits: "in_dev d loc count" and ok: "dev_ok d"
    using assms holds_size [OF d] by (simp_all add: holds_def)
  from device_read_in [OF ok fits] obtain d' where
    "device_read loc count d = (Ret (slice_at (dev_view d) (unat loc) (unat count)), d')" "dev_ok d'"
    "dev_view d' = dev_view d" "same_env d d'" by blast
  with d show "\<exists>d'. device_read loc count d = (Ret (slice_at v (unat loc) (unat count)), d') \<and>
      ((\<exists>x. Ret (slice_at v (unat loc) (unat count)) = Ret x) \<longrightarrow> holds v i d')"
    by (simp add: holds_def same_env_def full_log_def dev_log_def)
qed

lemma evals_read_bind:
  "unat loc + unat count \<le> whole v \<Longrightarrow> evals (f (slice_at v (unat loc) (unat count))) v i r v' i' \<Longrightarrow>
   evals (pbind (device_read loc count) f) v i r v' i'"
  by (rule evals_pbind [OF evals_read])

lemma evals_write:
  assumes "unat loc + unat count \<le> whole v" "length buffer = unat count" "i < 256" "0 < count"
  shows "evals (device_write buffer loc count) v i (Ret ()) (splice_at v (unat loc) buffer) (i + 1)"
  unfolding evals_def
proof (intro allI impI)
  fix d assume d: "holds v i d"
  then have pre: "dev_ok d" "\<not> dv_uninstalling d" "in_dev d loc count" "dv_uninstall_data_i d < UNINSTALL_DATA_MAX"
    using assms holds_size [OF d] by (auto simp: holds_def word_less_nat_alt UNINSTALL_DATA_MAX_def)
  from device_write_in [OF pre(1-3) assms(2) pre(4)] obtain d' where
    "device_write buffer loc count d = (Ret (), d')" "dev_ok d'" "dev_view d' = splice_at (dev_view d) (unat loc) buffer"
    "logs d d' (log_entry d loc count)" by blast
  moreover have "0 < unat count" "unat count \<le> length (dev_view d)"
    using assms(1,4) d whole_le [of v] by (auto simp: holds_def word_less_nat_alt)
  then have "ud_data (log_entry d loc count) \<noteq> []"
    using assms(1) d whole_le [of v] by (auto simp: log_entry_def slice_at_def holds_def)
  ultimately have "full_log d'" using full_log_step d by (auto simp: holds_def)
  with d \<open>device_write buffer loc count d = (Ret (), d')\<close> \<open>dev_ok d'\<close>
    \<open>dev_view d' = splice_at (dev_view d) (unat loc) buffer\<close> \<open>logs d d' (log_entry d loc count)\<close> show "\<exists>d'. device_write buffer loc count d = (Ret (), d') \<and>
      ((\<exists>x. Ret () = Ret x) \<longrightarrow> holds (splice_at v (unat loc) buffer) (i + 1) d')"
    by (simp add: holds_def logs_def)
qed

text \<open>The log takes 256 entries; the write after that bails out.\<close>

lemma evals_write_full:
  assumes "256 \<le> i"
  shows "evals (device_write buffer loc count) v i Bail v' i'"
  unfolding evals_def
proof (intro allI impI)
  fix d assume d: "holds v i d"
  then have "dev_ok d" "\<not> dv_uninstalling d" "\<not> dv_uninstall_data_i d < UNINSTALL_DATA_MAX"
    using assms by (auto simp: holds_def word_less_nat_alt UNINSTALL_DATA_MAX_def)
  with device_write_fails [of d count loc buffer] show "\<exists>d'. device_write buffer loc count d = (Bail, d') \<and>
      ((\<exists>x. Bail = Ret x) \<longrightarrow> holds v' i' d')" by auto
qed

lemma evals_write_all_count:
  "writes_fit (whole v) ws \<Longrightarrow> i \<le> 256 \<Longrightarrow> [] \<notin> fst ` set ws \<Longrightarrow>
   evals (write_all device_write ws) v i (if i + length ws \<le> 256 then Ret () else Bail) (apply_writes ws v) (i + length ws)"
proof (induction ws arbitrary: v i)
  case Nil
  then show ?case by (simp add: evals_def)
next
  case (Cons w ws)
  obtain buffer loc where w: "w = (buffer, loc)" by (cases w)
  let ?v = "splice_at v (unat loc) buffer"
  show ?case
  proof (cases "i < 256")
    case True
    have len: "unat (of_nat (length buffer) :: u64) = length buffer"
      using Cons.prems(1) by (intro unat_of_nat_lt) (simp add: w)
    have "evals (device_write buffer loc (of_nat (length buffer))) v i (Ret ()) ?v (i + 1)"
      using Cons.prems True len by (intro evals_write) (auto simp: w word_less_nat_alt)
    moreover have "whole ?v = whole v"
      using Cons.prems(1) whole_le [of v] by (intro whole_cong length_splice) (simp add: w)
    then have "evals (write_all device_write ws) ?v (i + 1) (if i + 1 + length ws \<le> 256 then Ret () else Bail)
        (apply_writes ws ?v) (i + 1 + length ws)"
      using Cons.prems True by (intro Cons.IH) (simp_all add: w)
    ultimately have "evals (write_all device_write (w # ws)) v i (if i + 1 + length ws \<le> 256 then Ret () else Bail)
        (apply_writes ws ?v) (i + 1 + length ws)"
      unfolding w write_all_pbind by (rule evals_pbind)
    then show ?thesis by (simp add: w del: write_all.simps)
  next
    case False
    then have "evals (write_all device_write (w # ws)) v i Bail (apply_writes ws ?v) (i + 1 + length ws)"
      unfolding w write_all_pbind by (intro evals_pbind_bail [OF evals_write_full]) simp
    with False Cons.prems(2) show ?thesis by (simp add: w del: write_all.simps)
  qed
qed

lemma evals_write_all:
  assumes "writes_fit (whole v) ws" "i + length ws \<le> 256" "[] \<notin> fst ` set ws"
  shows "evals (write_all device_write ws) v i (Ret ()) (apply_writes ws v) (i + length ws)"
  using evals_write_all_count [OF assms(1) _ assms(3), of i] assms(2) by simp

text \<open>Programs that bail out for want of room only.\<close>

lemma evals_pbind_count:
  assumes "evals m v i (if P then Ret x else Bail) v1 i1" "P \<Longrightarrow> evals (f x) v1 i1 (if Q then r else Bail) v2 i2"
  shows "evals (pbind m f) v i (if P \<and> Q then r else Bail) v2 i2"
proof (cases P)
  case True
  with assms show ?thesis by (auto intro: evals_pbind)
next
  case False
  with assms(1) show ?thesis by (simp add: evals_pbind_bail)
qed

section \<open>The checks of a master boot record\<close>

definition entry_status_ok :: "u8 list \<Rightarrow> nat \<Rightarrow> bool" where
  "entry_status_ok v e \<longleftrightarrow> v ! e \<in> {0x00, 0x80}"

definition entry_too_low :: "u8 list \<Rightarrow> nat \<Rightarrow> bool" where
  "entry_too_low v e \<longleftrightarrow> v ! (e + 4) \<noteq> 0x00 \<and> le_nat (slice_at v (e + 8) 4) < 63"

definition entry_active :: "u8 list \<Rightarrow> nat \<Rightarrow> bool" where
  "entry_active v e \<longleftrightarrow> v ! e AND 0x80 \<noteq> 0"

definition mbr_entries :: "nat list" where
  "mbr_entries = [446, 462, 478, 494]"

definition no_signatures :: "u8 list \<Rightarrow> bool" where
  "no_signatures v \<longleftrightarrow> slice_at v 4 8 \<noteq> ECH_FS \<and> slice_at v 3 4 \<noteq> NTFS \<and> slice_at v 54 3 \<noteq> FAT \<and>
     slice_at v 82 3 \<noteq> FAT \<and> slice_at v 3 5 \<noteq> FAT32 \<and> slice_at v 1080 2 \<noteq> [0x53, 0xef]"

definition mbr_valid :: "u8 list \<Rightarrow> bool" where
  "mbr_valid v \<longleftrightarrow> (\<forall>e \<in> set mbr_entries. entry_status_ok v e \<and> \<not> entry_too_low v e) \<and> no_signatures v"

text \<open>The first partition is made active when none is.\<close>

definition with_active :: "u8 list \<Rightarrow> u8 list" where
  "with_active v = (if \<exists>e \<in> set mbr_entries. entry_active v e then v else splice_at v 446 [0x80])"

lemma slice_one: "i < length v \<Longrightarrow> slice_at v i 1 = [v ! i]"
  by (simp add: slice_at_def take_Suc drop_eq_Nil hd_drop_conv_nth)

lemma ENDSWAP32_slice:
  assumes "i + 4 \<le> length v"
  shows "unat (ENDSWAP32 be (load_host be (slice_at v i 4))) = le_nat (slice_at v i 4)"
proof -
  have "le_nat (slice_at v i 4) < 256 ^ 4"
    using le_nat_bound [of "slice_at v i 4"] assms by simp
  moreover have "ENDSWAP32 be (load_host be (slice_at v i 4)) = of_nat (le_nat (slice_at v i 4))"
    using ENDSWAP_load [of "slice_at v i 4"] assms by simp
  ultimately show ?thesis by (simp add: unat_of_nat_lt)
qed


lemma evals_if: "(b \<Longrightarrow> evals m v i r v' i') \<Longrightarrow> (\<not> b \<Longrightarrow> evals m' v i r v' i') \<Longrightarrow> evals (if b then m else m') v i r v' i'"
  by simp

lemma evals_check_partition:
  assumes e: "unat entry = e" "e + 12 \<le> whole v" "e < 1000"
  shows "evals (check_partition be False entry (mbr, any_active)) v i
    (if entry_too_low v e then Bail else Ret (mbr \<and> entry_status_ok v e, any_active \<or> entry_active v e)) v i"
proof -
  have u: "unat (entry + 4) = e + 4" "unat (entry + 8) = e + 8"
    using e by (subst unat_add_no_wrap; simp)+
  have len: "e + 12 \<le> length v" using e(2) whole_le [of v] by linarith
  have one: "slice_at v e 1 = [v ! e]" "slice_at v (e + 4) 1 = [v ! (e + 4)]"
    using len by (intro slice_one; linarith)+
  let ?r = "if entry_too_low v e then Bail else Ret (mbr \<and> entry_status_ok v e, any_active \<or> entry_active v e)"
  let ?rest = "\<lambda>(mbr, hint8 :: u8). let any_active = (any_active \<or> hint8 AND 0x80 \<noteq> 0) in
     pbind (device_read (entry + 4) 1) (\<lambda>b.
       if b ! 0 \<noteq> 0x00 then
         pbind (device_read (entry + 8) 4) (\<lambda>b.
           let hint32 = ENDSWAP32 be (load_host be b) in
           if hint32 < 63 then pbail else pret (mbr, any_active))
       else pret (mbr, any_active))"
  have low: "ENDSWAP32 be (load_host be (slice_at v (e + 8) 4)) < 63 \<longleftrightarrow> le_nat (slice_at v (e + 8) 4) < 63"
    using ENDSWAP32_slice [of "e + 8" v be] len by (simp add: word_less_nat_alt)
  have rest: "evals (?rest (mbr', v ! e)) v i
      (if entry_too_low v e then Bail else Ret (mbr', any_active \<or> entry_active v e)) v i" for mbr'
    unfolding prod.case Let_def
    by (rule evals_read_bind; (intro evals_if evals_read_bind)?)
       (use e u one low in \<open>simp_all add: entry_too_low_def entry_active_def evals_pbail evals_pret\<close>)
  show ?thesis
    unfolding check_partition_def prod.case Let_def
  proof (rule evals_read_bind)
    show "unat entry + unat (1 :: u64) \<le> whole v" using e by simp
    have b: "slice_at v (unat entry) (unat (1 :: u64)) ! 0 = v ! e" using one(1) by (simp add: e(1))
    show "evals (pbind (if slice_at v (unat entry) (unat (1 :: u64)) ! 0 \<noteq> 0 \<and> slice_at v (unat entry) (unat (1 :: u64)) ! 0 \<noteq> 0x80
        then if \<not> False then pret (False, slice_at v (unat entry) (unat (1 :: u64)) ! 0)
          else pbind (device_write [slice_at v (unat entry) (unat (1 :: u64)) ! 0 AND 0x80] entry 1)
            (\<lambda>_. pret (mbr, slice_at v (unat entry) (unat (1 :: u64)) ! 0 AND 0x80))
        else pret (mbr, slice_at v (unat entry) (unat (1 :: u64)) ! 0))
      (\<lambda>(mbr, hint8). pbind (device_read (entry + 4) 1) (\<lambda>b. if b ! 0 \<noteq> 0
        then pbind (device_read (entry + 8) 4) (\<lambda>b. if ENDSWAP32 be (load_host be b) < 63 then pbail
          else pret (mbr, any_active \<or> hint8 AND 0x80 \<noteq> 0))
        else pret (mbr, any_active \<or> hint8 AND 0x80 \<noteq> 0)))) v i ?r v i"
      unfolding b
    proof (rule evals_pbind [where x = "(mbr \<and> entry_status_ok v e, v ! e)" and ?v1.0 = v and ?i1.0 = i])
      show "evals (if v ! e \<noteq> 0 \<and> v ! e \<noteq> 0x80
          then if \<not> False then pret (False, v ! e)
            else pbind (device_write [v ! e AND 0x80] entry 1) (\<lambda>_. pret (mbr, v ! e AND 0x80))
          else pret (mbr, v ! e)) v i (Ret (mbr \<and> entry_status_ok v e, v ! e)) v i"
        by (auto simp: entry_status_ok_def evals_pret)
    qed (use rest [of "mbr \<and> entry_status_ok v e", unfolded Let_def prod.case] in \<open>simp only: prod.case\<close>)
  qed
qed

lemma evals_check_signature:
  assumes "unat loc + length signature \<le> whole v" "length signature < 2 ^ 64"
  shows "evals (check_signature False loc signature wipe mbr) v i
    (Ret (mbr \<and> slice_at v (unat loc) (length signature) \<noteq> signature)) v i"
  unfolding check_signature_def
  by (rule evals_read_bind) (use assms in \<open>simp_all add: unat_of_nat_lt evals_pret\<close>)

lemma ENDSWAP16_slice:
  assumes "i + 2 \<le> length v"
  shows "ENDSWAP16 be (load_host be (slice_at v i 2)) = 0xef53 \<longleftrightarrow> slice_at v i 2 = [0x53, 0xef]"
proof -
  let ?b = "slice_at v i 2"
  have len: "length ?b = 2" using assms by simp
  have "ENDSWAP16 be (load_host be ?b) = of_nat (le_nat ?b)" using ENDSWAP_load(1) [OF len] .
  moreover have "le_nat ?b < 2 ^ 16" using le_nat_bound [of ?b] len by simp
  then have "unat (of_nat (le_nat ?b) :: u16) = le_nat ?b" by (intro unat_of_nat_lt) simp
  then have "(of_nat (le_nat ?b) :: u16) = 0xef53 \<longleftrightarrow> le_nat ?b = 0xef53"
    by (simp add: word_unat_eq_iff)
  moreover have "le_nat ?b = 0xef53 \<longleftrightarrow> ?b = [0x53, 0xef]"
  proof
    assume "le_nat ?b = 0xef53"
    then have "?b = le_bytes 2 0xef53" using le_bytes_le_nat [of 2 ?b] len by simp
    also have "\<dots> = [of_nat 0xef53, of_nat (0xef53 div 256)]" by (simp only: numeral_2_eq_2 le_bytes.simps)
    also have "\<dots> = [0x53, 0xef]" by simp
    finally show "?b = [0x53, 0xef]" .
  qed simp
  ultimately show ?thesis by simp
qed

lemma evals_check_ext_magic:
  assumes "1082 \<le> whole v"
  shows "evals (check_ext_magic be False mbr) v i (Ret (mbr \<and> slice_at v 1080 2 \<noteq> [0x53, 0xef])) v i"
  unfolding check_ext_magic_def Let_def
  by (rule evals_read_bind)
     (use assms whole_le [of v] ENDSWAP16_slice [of 1080 v be] in \<open>simp_all add: evals_pret\<close>)


lemma evals_partition_bind:
  assumes "unat entry = e" "e + 12 \<le> whole v" "e < 1000"
    and "entry_too_low v e \<Longrightarrow> r = Bail"
    and "\<not> entry_too_low v e \<Longrightarrow>
      evals (f (mbr \<and> entry_status_ok v e, any_active \<or> entry_active v e)) v i r v' i'"
  shows "evals (pbind (check_partition be False entry (mbr, any_active)) f) v i r v' i'"
proof (cases "entry_too_low v e")
  case True
  then have "evals (check_partition be False entry (mbr, any_active)) v i Bail v i"
    using evals_check_partition [OF assms(1-3), of be mbr any_active i] by simp
  with True assms(4) show ?thesis by (simp add: evals_pbind_bail)
next
  case False
  then have "evals (check_partition be False entry (mbr, any_active)) v i
      (Ret (mbr \<and> entry_status_ok v e, any_active \<or> entry_active v e)) v i"
    using evals_check_partition [OF assms(1-3), of be mbr any_active i] by simp
  then show ?thesis by (rule evals_pbind) (rule assms(5) [OF False])
qed

lemmas evals_signature_bind = evals_pbind [OF evals_check_signature]
lemmas evals_ext_bind = evals_pbind [OF evals_check_ext_magic]

lemma signature_lengths [simp]: "length ECH_FS = 8" "length NTFS = 4" "length FAT = 3" "length FAT32 = 5"
  by (simp_all add: ECH_FS_def NTFS_def FAT_def FAT32_def)

definition any_too_low :: "u8 list \<Rightarrow> bool" where
  "any_too_low v \<longleftrightarrow> (\<exists>e \<in> set mbr_entries. entry_too_low v e)"

lemma evals_mbr_checks:
  assumes size: "1082 \<le> whole v" and i: "i < 256"
  defines "active \<equiv> \<exists>e \<in> set mbr_entries. entry_active v e"
  shows "evals (mbr_checks be False) v i (if any_too_low v then Bail else Ret (mbr_valid v))
    (if mbr_valid v then with_active v else v) (if mbr_valid v \<and> \<not> active then i + 1 else i)"
  unfolding mbr_checks_def
proof (rule evals_partition_bind [where e = 446], goal_cases)
  case 5
  show ?case
  proof (rule evals_partition_bind [where e = 462], goal_cases)
    case 5
    show ?case
    proof (rule evals_partition_bind [where e = 478], goal_cases)
      case 5
      show ?case
      proof (rule evals_partition_bind [where e = 494], goal_cases)
        case 5
        note ok = \<open>\<not> entry_too_low v 446\<close> \<open>\<not> entry_too_low v 462\<close> \<open>\<not> entry_too_low v 478\<close> \<open>\<not> entry_too_low v 494\<close>
        let ?act = "((False \<or> entry_active v 446) \<or> entry_active v 462) \<or> entry_active v 478 \<or> entry_active v 494"
        have low: "\<not> any_too_low v" using ok by (simp add: any_too_low_def mbr_entries_def)
        have valid: "mbr_valid v \<longleftrightarrow> entry_status_ok v 446 \<and> entry_status_ok v 462 \<and> entry_status_ok v 478 \<and>
            entry_status_ok v 494 \<and> no_signatures v"
          using ok by (auto simp: mbr_valid_def mbr_entries_def)
        have act: "active \<longleftrightarrow> ?act" by (simp add: active_def mbr_entries_def)
        have final: "evals (if mbr_valid v \<and> \<not> active then pbind (device_write [0x80] 446 1) (\<lambda>_. pret (mbr_valid v))
            else pret (mbr_valid v)) v i (Ret (mbr_valid v))
            (if mbr_valid v then with_active v else v) (if mbr_valid v \<and> \<not> active then i + 1 else i)"
        proof (cases "mbr_valid v \<and> \<not> active")
          case True
          have "evals (device_write [0x80] 446 1) v i (Ret ()) (splice_at v 446 [0x80]) (i + 1)"
            using evals_write [of 446 1 v "[0x80]" i] size i by simp
          then have "evals (pbind (device_write [0x80] 446 1) (\<lambda>_. pret True)) v i (Ret True) (splice_at v 446 [0x80]) (i + 1)"
            by (rule evals_pbind) (rule evals_pret)
          with True show ?thesis by (simp add: with_active_def active_def)
        next
          case False
          then show ?thesis by (auto simp: with_active_def active_def evals_pret)
        qed
        have final': "evals (if M \<and> \<not> A then pbind (device_write [0x80] 446 1) (\<lambda>_. pret M) else pret M) v i
            (if any_too_low v then Bail else Ret (mbr_valid v))
            (if mbr_valid v then with_active v else v) (if mbr_valid v \<and> \<not> active then i + 1 else i)"
          if "M = mbr_valid v" "A = active" for M A
          using final by (simp only: that low if_False)
        show ?case
          unfolding prod.case
          by (intro evals_signature_bind evals_ext_bind final')
             (use size valid act in \<open>simp_all add: no_signatures_def\<close>)
      qed (use size in \<open>simp_all add: any_too_low_def mbr_entries_def\<close>)
    qed (use size in \<open>simp_all add: any_too_low_def mbr_entries_def\<close>)
  qed (use size in \<open>simp_all add: any_too_low_def mbr_entries_def\<close>)
qed (use size in \<open>simp_all add: any_too_low_def mbr_entries_def\<close>)


section \<open>Installing behind a master boot record\<close>

definition no_gpt :: "u8 list \<Rightarrow> bool" where
  "no_gpt v \<longleftrightarrow> slice_at v 512 8 \<noteq> GPT_SIGNATURE \<and> slice_at v 4096 8 \<noteq> GPT_SIGNATURE"

lemma evals_find_gpt:
  assumes "no_gpt v" "4192 \<le> whole v"
  shows "evals (find_gpt be force_mbr) v i (Ret None) v i"
proof -
  have sig: "gpt_signature_ok (load_gpt_table_header be (slice_at v n 96)) \<longleftrightarrow> slice_at v n 8 = GPT_SIGNATURE"
    if "n + 96 \<le> length v" for n
    using that slice_slice [of 0 8 96 n v] by (simp add: gpt_signature_ok_def load_gpt_table_header_def)
  have len: "512 + 96 \<le> length v" "4096 + 96 \<le> length v" using assms(2) whole_le [of v] by simp_all
  have probe: "evals (probe_gpt be force_mbr lb_guesses) v i (Ret None) v i"
    unfolding lb_guesses_def probe_gpt.simps sizeof_gpt_table_header_def Let_def
    by (intro evals_read_bind)
       (use assms len sig [OF len(1)] sig [OF len(2)] in \<open>simp_all add: no_gpt_def evals_read_bind evals_pret\<close>)
  show ?thesis
    unfolding find_gpt_def by (rule evals_pbind [OF probe]) (simp add: evals_pret)
qed

text \<open>Boot images of a size for which no 16-bit size wraps and both halves exist and
  are not empty.\<close>

definition image_ok :: "u8 list \<Rightarrow> bool" where
  "image_ok img \<longleftrightarrow> 1024 < length img \<and> length img \<le> 65536"

definition half_a :: "u8 list \<Rightarrow> nat" where
  "half_a img = ((length img - 1) div 512 + 1) div 2 * 512"

lemma unat_stage2_sects:
  assumes "image_ok img"
  shows "unat (stage2_sects (image_stage2_size img)) = (length img - 1) div 512"
proof -
  have len: "unat (of_nat (length img) :: u64) = length img"
    using assms by (intro unat_of_nat_lt) (simp add: image_ok_def)
  then have "unat (image_stage2_size img) = length img - 512"
    using assms by (simp add: image_stage2_size_def image_ok_def unat_sub word_le_nat_alt)
  then have "unat (image_stage2_size img + 511) = length img - 1"
    using assms by (subst unat_add_no_wrap) (auto simp: image_ok_def)
  then show ?thesis by (simp add: stage2_sects_def div_roundup_def unat_div)
qed

lemma half_rounded_up: "n div 2 * 512 + (if n mod 2 \<noteq> 0 then 512 else 0) = (n + 1) div 2 * (512 :: nat)"
proof -
  have "n div 2 + (if n mod 2 \<noteq> 0 then 1 else 0) = (n + 1) div 2" by presburger
  then show ?thesis by (auto simp flip: add_mult_distrib)
qed

lemma image_sectors:
  assumes "image_ok img"
  shows "2 \<le> (length img - 1) div 512"
proof -
  have "1024 \<le> length img - 1" using assms unfolding image_ok_def by linarith
  from div_le_mono [OF this, of 512] show ?thesis by simp
qed

lemma unat_stage2_size_a:
  assumes img: "image_ok img"
  shows "unat (stage2_size_a (image_stage2_size img)) = half_a img"
    "512 + half_a img < length img" "half_a img \<le> 32768"
proof -
  let ?s = "stage2_sects (image_stage2_size img)" and ?n = "(length img - 1) div 512"
  have s: "unat ?s = ?n" by (rule unat_stage2_sects [OF img])
  have "?n \<le> 65535 div 512" "1023 div 512 \<le> ?n" using img by (auto simp: image_ok_def intro!: div_le_mono)
  then have n: "?n \<le> 127" "1 \<le> ?n" by simp_all
  have n3: "?n * 512 \<le> length img - 1" by (rule div_times_less_eq_dividend)
  have half: "?n div 2 \<le> 63" using n(1) by linarith
  let ?a = "(?s div 2) * 512 + (if ?s mod 2 \<noteq> 0 then 512 else 0)"
  have m: "?s mod 2 = 0 \<longleftrightarrow> ?n mod 2 = 0" by (simp add: word_unat_eq_iff unat_mod s)
  have d: "unat ((?s div 2) * 512) = ?n div 2 * 512"
    using n(1) by (subst unat_mult_no_wrap) (simp_all add: unat_div s)
  have "unat ?a = ?n div 2 * 512 + (if ?n mod 2 \<noteq> 0 then 512 else 0)"
    using half by (subst unat_add_no_wrap) (simp_all add: d m split: if_split)
  also have "\<dots> = half_a img"
    unfolding half_a_def by (rule half_rounded_up)
  finally have a: "unat ?a = half_a img" .
  show le: "half_a img \<le> 32768" using n(1) by (simp add: half_a_def)
  then show "unat (stage2_size_a (image_stage2_size img)) = half_a img"
    using a unfolding stage2_size_a_def
    by (simp add: unsigned_ucast_eq unsigned_take_bit_eq take_bit_nat_eq_self)
  have "2 \<le> ?n" by (rule image_sectors [OF img])
  then have "(?n + 1) div 2 + 1 \<le> ?n" by linarith
  then have "((?n + 1) div 2 + 1) * 512 \<le> ?n * 512" by (rule mult_le_mono1)
  then show "512 + half_a img < length img" using n3 img by (simp add: half_a_def image_ok_def)
qed


lemma half_a_pos: "image_ok img \<Longrightarrow> 0 < half_a img"
  using image_sectors [of img] by (simp add: half_a_def div_greater_zero_iff)

definition staged :: "bool \<Rightarrow> u8 list \<Rightarrow> u64 \<times> u64 \<Rightarrow> u8 list \<Rightarrow> u8 list" where
  "staged be img locs v = apply_writes (stage_writes be img locs @ [(slice_at v 218 6, 218), (slice_at v 440 70, 440)]) v"

definition mbr_installed :: "bool \<Rightarrow> u8 list \<Rightarrow> u8 list \<Rightarrow> u8 list" where
  "mbr_installed be img v = staged be img (mbr_gap_locations img) v"

lemma mbr_gap_eq:
  assumes "image_ok img"
  shows "\<exists>b. mbr_gap_locations img = (512, b) \<and> unat b = 512 + half_a img"
proof -
  let ?a = "stage2_size_a (image_stage2_size img)"
  have "unat (ucast ?a :: u64) = half_a img"
    using unat_stage2_size_a(1) [OF assms] unsigned_less [of ?a, where 'a = nat]
    by (simp add: unsigned_ucast_eq unsigned_take_bit_eq take_bit_nat_eq_self)
  then have "unat (512 + ucast ?a :: u64) = 512 + half_a img"
    using unat_stage2_size_a(3) [OF assms] by (subst unat_add_no_wrap) simp_all
  then show ?thesis by (simp add: mbr_gap_locations_def)
qed

text \<open>The writes of an installation behind an MBR with the locations worked out.\<close>

lemma stage_writes_mbr:
  assumes img: "image_ok img"
  shows "\<exists>b. unat b = 512 + half_a img \<and> mbr_gap_locations img = (512, b) \<and>
    stage_writes be img (mbr_gap_locations img) =
      [(take 512 img, 0), (slice_at img 512 (half_a img), 512), (drop (512 + half_a img) img, b),
       (store_host be 2 (ENDSWAP16 be (stage2_size_a (image_stage2_size img))), 420),
       (store_host be 2 (ENDSWAP16 be (stage2_size_b (image_stage2_size img))), 422),
       (store_host be 8 (ENDSWAP64 be 512), 424), (store_host be 8 (ENDSWAP64 be b), 432)]"
  using mbr_gap_eq [OF img] unat_stage2_size_a(1) [OF img]
  by (auto simp: stage_writes_def Let_def slice_at_def)

lemma mbr_writes_fit:
  assumes img: "image_ok img" and len: "length img \<le> n" "512 \<le> n" "length ts = 6" "length mbr = 70"
  shows "writes_fit n (stage_writes be img (mbr_gap_locations img) @ [(ts, 218), (mbr, 440)])"
proof -
  have big: "length img \<le> 65536" "1024 \<le> length img" using img by (simp_all add: image_ok_def)
  note a = unat_stage2_size_a(2,3) [OF img]
  have slice: "length (slice_at img 512 (half_a img)) = half_a img" using a(1) by simp
  obtain b where b: "unat b = 512 + half_a img" and ws: "stage_writes be img (mbr_gap_locations img) =
      [(take 512 img, 0), (slice_at img 512 (half_a img), 512), (drop (512 + half_a img) img, b),
       (store_host be 2 (ENDSWAP16 be (stage2_size_a (image_stage2_size img))), 420),
       (store_host be 2 (ENDSWAP16 be (stage2_size_b (image_stage2_size img))), 422),
       (store_host be 8 (ENDSWAP64 be 512), 424), (store_host be 8 (ENDSWAP64 be b), 432)]"
    using stage_writes_mbr [OF img] by blast
  show ?thesis
    unfolding ws using big a len b slice by simp
qed

lemma evals_flush: "evals (or_cleanup device_flush_cache) w j (Ret ()) w j"
  unfolding evals_def
proof (intro allI impI)
  fix d assume d: "holds w j d"
  from flush_ok [of d] obtain d' where "device_flush_cache d = (True, d')" "dev_ok d'"
    "dv_cache_state d' = CACHE_CLEAN" "dv_disk d' = dev_view d" "same_env d d'"
    using d unfolding holds_def by blast
  with d show "\<exists>d'. or_cleanup device_flush_cache d = (Ret (), d') \<and> ((\<exists>x. Ret () = Ret x) \<longrightarrow> holds w j d')"
    by (simp add: or_cleanup_def holds_def same_env_def full_log_def dev_log_def dev_view_def [of d'])
qed

text \<open>The final writes, wherever the two halves go.\<close>

lemma stage_writes_cons:
  assumes "image_ok img"
  shows "stage_writes be img (a, b) =
    [(take 512 img, 0), (slice_at img 512 (half_a img), a), (drop (512 + half_a img) img, b),
     (store_host be 2 (ENDSWAP16 be (stage2_size_a (image_stage2_size img))), 420),
     (store_host be 2 (ENDSWAP16 be (stage2_size_b (image_stage2_size img))), 422),
     (store_host be 8 (ENDSWAP64 be a), 424), (store_host be 8 (ENDSWAP64 be b), 432)]"
  using unat_stage2_size_a(1) [OF assms] by (simp add: stage_writes_def Let_def slice_at_def)

lemma evals_write_stages_count:
  assumes img: "image_ok img" and size: "1024 \<le> whole v" and i: "i \<le> 256"
    and a: "unat loc_a + half_a img \<le> whole v" and b: "unat loc_b + (length img - (512 + half_a img)) \<le> whole v"
  shows "evals (write_stages be img (loc_a, loc_b)) v i (if i + 9 \<le> 256 then Ret () else Bail)
    (staged be img (loc_a, loc_b) v) (i + 9)"
proof -
  let ?ws = "stage_writes be img (loc_a, loc_b) @ [(slice_at v 218 6, 218), (slice_at v 440 70, 440)]"
  have big: "1024 \<le> length img" "length img \<le> 65536" "1024 \<le> length v"
    using img size whole_le [of v] by (simp_all add: image_ok_def)
  note ha = unat_stage2_size_a(2,3) [OF img]
  have fit: "writes_fit (whole v) ?ws"
    unfolding stage_writes_cons [OF img] using big ha a b size by simp
  have nine: "length ?ws = 9" by (simp add: stage_writes_def Let_def)
  have "[] \<noteq> store_host be 2 x" "[] \<noteq> store_host be 8 y" for x :: u16 and y :: u64
    by (auto dest: arg_cong [of _ _ length])
  then have solid: "[] \<notin> fst ` set ?ws"
    using ha(1) half_a_pos [OF img] big unfolding stage_writes_cons [OF img] by (auto simp: slice_at_def)
  have writes: "evals (write_all device_write ?ws) v i (if i + 9 \<le> 256 then Ret () else Bail)
      (staged be img (loc_a, loc_b) v) (i + 9)"
    using evals_write_all_count [OF fit i solid] unfolding nine staged_def by simp
  have both: "evals (pbind (write_all device_write ?ws) (\<lambda>_. or_cleanup device_flush_cache)) v i
      (if i + 9 \<le> 256 then Ret () else Bail) (staged be img (loc_a, loc_b) v) (i + 9)"
    using evals_pbind_count [OF writes, where Q = True and r = "Ret ()"] evals_flush by (simp del: One_nat_def)
  have room: "\<not> length img < 512 + unat (stage2_size_a (image_stage2_size img))"
    using unat_stage2_size_a(1,2) [OF img] by simp
  show ?thesis
    unfolding write_stages_def
    by (intro evals_read_bind)
       (use big size room both whole_le [of v] in simp_all)
qed

lemma evals_write_stages:
  assumes "image_ok img" "1024 \<le> whole v" "i + 9 \<le> 256"
    "unat loc_a + half_a img \<le> whole v" "unat loc_b + (length img - (512 + half_a img)) \<le> whole v"
  shows "evals (write_stages be img (loc_a, loc_b)) v i (Ret ()) (staged be img (loc_a, loc_b) v) (i + 9)"
  using evals_write_stages_count [OF assms(1,2) _ assms(4,5), of i] assms(3) by simp

lemma evals_write_stages_mbr:
  assumes img: "image_ok img" and len: "length img \<le> whole v" and i: "i + 9 \<le> 256"
  shows "evals (write_stages be img (mbr_gap_locations img)) v i (Ret ()) (mbr_installed be img v) (i + 9)"
proof -
  obtain b where b: "mbr_gap_locations img = (512, b)" "unat b = 512 + half_a img" using mbr_gap_eq [OF img] by blast
  show ?thesis
    unfolding mbr_installed_def b(1)
    by (rule evals_write_stages [OF img _ i]) (use len b(2) unat_stage2_size_a(2) [OF img] img in \<open>simp_all add: image_ok_def\<close>)
qed

lemma length_with_active: "512 \<le> length v \<Longrightarrow> length (with_active v) = length v"
  by (simp add: with_active_def)

text \<open>From the checks of an MBR to the end, after \<open>i\<close> log entries.\<close>

abbreviation mbr_path :: "bool \<Rightarrow> u8 list \<Rightarrow> install_opts \<Rightarrow> unit prog" where
  "mbr_path be img opts \<equiv> pbind (mbr_checks be (io_force_mbr opts)) (\<lambda>mbr.
     if (None :: (gpt_table_header \<times> gpt_table_header \<times> u64) option) = None \<and> \<not> mbr then pbail
     else pbind (place_stage2 be img None (io_part_ndx opts)) (write_stages be img))"

lemma evals_mbr_path:
  assumes force: "\<not> io_force_mbr opts" and img: "image_ok img" and v: "1082 \<le> whole v" "length img \<le> whole v"
    and i: "i + 10 \<le> 256"
  shows "\<exists>j. j \<le> i + 10 \<and> evals (mbr_path be img opts) v i (if mbr_valid v then Ret () else Bail)
    (mbr_installed be img (with_active v)) j"
proof -
  let ?act = "\<exists>e \<in> set mbr_entries. entry_active v e"
  let ?i = "if mbr_valid v \<and> \<not> ?act then i + 1 else i"
  have checks: "evals (mbr_checks be (io_force_mbr opts)) v i (if any_too_low v then Bail else Ret (mbr_valid v))
      (if mbr_valid v then with_active v else v) ?i"
    using evals_mbr_checks [of v i be] v(1) force i by simp
  have size: "whole (with_active v) = whole v"
    using v(1) whole_le [of v] by (intro whole_cong length_with_active) simp
  have stages: "evals (write_stages be img (mbr_gap_locations img)) (with_active v) ?i (Ret ())
      (mbr_installed be img (with_active v)) (?i + 9)"
    using v(2) size i by (intro evals_write_stages_mbr [OF img]) simp_all
  have place: "evals (place_stage2 be img None (io_part_ndx opts)) w j (Ret (mbr_gap_locations img)) w j" for w j
    by (simp add: place_stage2_def evals_pret)
  have "evals (mbr_path be img opts) v i (if mbr_valid v then Ret () else Bail) (mbr_installed be img (with_active v)) (?i + 9)"
  proof (cases "mbr_valid v")
    case True
    then have "\<not> any_too_low v" by (simp add: mbr_valid_def any_too_low_def)
    with True checks have ok: "evals (mbr_checks be (io_force_mbr opts)) v i (Ret True) (with_active v) ?i" by simp
    have "evals (pbind (place_stage2 be img None (io_part_ndx opts)) (write_stages be img)) (with_active v) ?i
        (Ret ()) (mbr_installed be img (with_active v)) (?i + 9)"
      by (rule evals_pbind [OF place]) (rule stages)
    then show ?thesis unfolding if_P [OF True]
      by (intro evals_pbind [OF ok]) (simp only: not_True_eq_False simp_thms if_False)
  next
    case False
    have "evals (mbr_path be img opts) v i Bail (mbr_installed be img (with_active v)) (?i + 9)"
    proof (cases "any_too_low v")
      case True
      with checks have "evals (mbr_checks be (io_force_mbr opts)) v i Bail v ?i" using False by simp
      then show ?thesis by (rule evals_pbind_bail)
    next
      case low: False
      from checks have "evals (mbr_checks be (io_force_mbr opts)) v i (Ret False) v ?i" using False low by simp
      then show ?thesis by (rule evals_pbind) (simp add: evals_pbail)
    qed
    with False show ?thesis by simp
  qed
  then show ?thesis by (intro exI [of _ "?i + 9"]) simp
qed

lemma evals_install_body:
  assumes force: "\<not> io_force_mbr opts" and img: "image_ok img" and v: "no_gpt v" "4192 \<le> whole v" "length img \<le> whole v"
  shows "\<exists>i. i \<le> 10 \<and> evals (install_body be img rnd opts) v 0 (if mbr_valid v then Ret () else Bail)
    (mbr_installed be img (with_active v)) i"
proof -
  obtain i where i: "i \<le> 10" "evals (mbr_path be img opts) v 0 (if mbr_valid v then Ret () else Bail)
      (mbr_installed be img (with_active v)) i"
    using evals_mbr_path [OF force img _ v(3), of 0 be] v(2) by auto
  have "evals (install_body be img rnd opts) v 0 (if mbr_valid v then Ret () else Bail)
      (mbr_installed be img (with_active v)) i"
    unfolding install_body_def
    by (rule evals_pbind [OF evals_find_gpt [OF v(1,2)]], unfold option.case, rule evals_pbind [OF evals_pret])
       (use i(2) in simp)
  with i(1) show ?thesis by blast
qed

text \<open>After the final flush the disk holds what the cache shows.\<close>

lemma pbind_RetE:
  assumes "pbind m f d = (Ret y, d')"
  obtains x d1 where "m d = (Ret x, d1)" "f x d1 = (Ret y, d')"
  using assms by (auto simp: pbind_def split: outcome.splits prod.splits)

lemma flush_clean: "or_cleanup device_flush_cache d = (Ret (), d') \<Longrightarrow> dv_cache_state d' = CACHE_CLEAN"
  by (auto simp: or_cleanup_def device_flush_cache_def split: if_splits prod.splits bool.splits)

lemma write_stages_clean: "write_stages be img locs d = (Ret (), d') \<Longrightarrow> dv_cache_state d' = CACHE_CLEAN"
  unfolding write_stages_def
  by (auto elim!: pbind_RetE simp: pundefined_def split: if_splits intro: flush_clean)

lemma install_body_clean:
  assumes "install_body be img rnd opts d = (Ret (), d')"
  shows "dv_cache_state d' = CACHE_CLEAN"
  using assms unfolding install_body_def
  by (auto elim!: pbind_RetE simp: pbail_def intro: write_stages_clean split: if_splits)


lemma ud_fwrite_frame: "ud_fwrite bytes out d = (x, d') \<Longrightarrow>
   dv_disk d' = dv_disk d \<and> dv_uninstall_data_i d' = dv_uninstall_data_i d"
  by (auto simp: ud_fwrite_def next_fault_def split: list.splits if_splits prod.splits)

lemma store_entries_frame: "store_entries be es out d = (x, d') \<Longrightarrow>
   dv_disk d' = dv_disk d \<and> dv_uninstall_data_i d' = dv_uninstall_data_i d"
proof (induction es arbitrary: out d)
  case (Cons e es)
  from Cons.prems show ?case
    by (auto split: prod.splits bool.splits dest!: ud_fwrite_frame Cons.IH)
qed simp

lemma store_uninstall_data_frame: "store_uninstall_data be d = (x, d') \<Longrightarrow>
   dv_disk d' = dv_disk d \<and> dv_uninstall_data_i d' = dv_uninstall_data_i d"
  by (auto simp: store_uninstall_data_def next_fault_def split: list.splits if_splits prod.splits bool.splits
      dest!: ud_fwrite_frame store_entries_frame)

lemma install_cleanup_frame:
  assumes "install_cleanup be opts True d = (r, d')"
  shows "dv_disk d' = dv_disk d \<and> dv_uninstall_data_i d' = dv_uninstall_data_i d \<and>
    (\<exists>written. r = Ret (EXIT_SUCCESS, written) \<and> (written \<noteq> None \<longrightarrow> io_uninstall_file opts \<noteq> None))"
proof (cases "io_uninstall_file opts")
  case None
  with assms show ?thesis by (auto simp: install_cleanup_def Let_def)
next
  case (Some udfile)
  obtain a written d1 where st: "store_uninstall_data be (reverse_uninstall_data d) = ((a, written), d1)"
    by (metis prod.exhaust)
  with assms Some have "r = Ret (EXIT_SUCCESS, written)" "d' = d1" by (simp_all add: install_cleanup_def Let_def)
  with store_uninstall_data_frame [OF st] Some show ?thesis by simp
qed

lemma install_bails:
  assumes mode: "\<not> io_uninstall_mode opts" and img: "length img < 2 ^ 64" and v: "512 \<le> length v" "length v < 2 ^ 63"
    and body: "evals (install_body be img rnd opts) v 0 Bail v' i'"
  shows "\<exists>d'. install_on_device be img rnd opts files (dev_open v []) = (Ret (EXIT_FAILURE, None), d') \<and> dv_disk d' = v"
proof -
  from device_init_inv [OF v] obtain d where d: "device_init (dev_open v []) = (True, d)" "dev_ok d"
    "inst_inv v d" "dev_view d = v" "dv_block_size d = 512" "dv_uninstall_data_i d = 0" by blast
  then have "holds v 0 d" by (simp add: holds_def inst_inv_def full_log_def dev_log_def)
  with body obtain d1 where d1: "install_body be img rnd opts d = (Bail, d1)" unfolding evals_def by blast
  have "inst_inv v d1" using keepsD(2) [OF keeps_install_body [OF img] d(2,3) d1] .
  then obtain d2 where "install_cleanup be opts False d1 = (Ret (EXIT_FAILURE, None), d2)" "dv_disk d2 = v"
    "dv_uninstall_data_i d2 \<le> UNINSTALL_DATA_MAX"
    using install_cleanup_failed by blast
  with install_on_device_eq [OF d(1) mode, of be img rnd files] d1 show ?thesis
    by (simp add: pbind_def free_uninstall_data_def pret_def not_less)
qed

lemma install_succeeds:
  assumes mode: "\<not> io_uninstall_mode opts" and v: "512 \<le> length v" "length v < 2 ^ 63"
    and body: "evals (install_body be img rnd opts) v 0 (Ret ()) v' i'" and i: "i' \<le> 256"
  shows "\<exists>written d'. install_on_device be img rnd opts files (dev_open v []) = (Ret (EXIT_SUCCESS, written), d') \<and>
    dv_disk d' = v' \<and> (written \<noteq> None \<longrightarrow> io_uninstall_file opts \<noteq> None)"
proof -
  from device_init_inv [OF v] obtain d where d: "device_init (dev_open v []) = (True, d)" "dev_ok d"
    "inst_inv v d" "dev_view d = v" "dv_block_size d = 512" "dv_uninstall_data_i d = 0" by blast
  then have "holds v 0 d" by (simp add: holds_def inst_inv_def full_log_def dev_log_def)
  with body obtain d1 where d1: "install_body be img rnd opts d = (Ret (), d1)" "holds v' i' d1"
    unfolding evals_def by blast
  have disk: "dv_disk d1 = v'" "dv_uninstall_data_i d1 \<le> UNINSTALL_DATA_MAX"
    using install_body_clean [OF d1(1)] d1(2) i
    by (simp_all add: holds_def dev_view_def word_le_nat_alt UNINSTALL_DATA_MAX_def)
  obtain r d2 where cl: "install_cleanup be opts True d1 = (r, d2)" by fastforce
  from install_cleanup_frame [OF cl] disk obtain written where "r = Ret (EXIT_SUCCESS, written)"
    "written \<noteq> None \<longrightarrow> io_uninstall_file opts \<noteq> None" "dv_disk d2 = v'"
    "dv_uninstall_data_i d2 \<le> UNINSTALL_DATA_MAX" by auto
  with install_on_device_eq [OF d(1) mode, of be img rnd files, unfolded d1(1)] cl show ?thesis
    by (simp add: pbind_def free_uninstall_data_def pret_def not_less)
qed

lemma install_done:
  assumes mode: "\<not> io_uninstall_mode opts" "\<not> io_force_mbr opts" and img: "image_ok img"
    and v: "no_gpt v" "4192 \<le> whole v" "length img \<le> whole v" "length v < 2 ^ 63"
  shows "if mbr_valid v
    then \<exists>written d'. install_on_device be img rnd opts files (dev_open v []) = (Ret (EXIT_SUCCESS, written), d') \<and>
      dv_disk d' = mbr_installed be img (with_active v) \<and> (written \<noteq> None \<longrightarrow> io_uninstall_file opts \<noteq> None)
    else \<exists>d'. install_on_device be img rnd opts files (dev_open v []) = (Ret (EXIT_FAILURE, None), d') \<and> dv_disk d' = v"
proof -
  have len: "512 \<le> length v" using v(2) whole_le [of v] by simp
  obtain i where i: "i \<le> 10" "evals (install_body be img rnd opts) v 0 (if mbr_valid v then Ret () else Bail)
      (mbr_installed be img (with_active v)) i"
    using evals_install_body [OF mode(2) img v(1-3)] by blast
  show ?thesis
  proof (cases "mbr_valid v")
    case True
    with install_succeeds [OF mode(1) len v(4), of be img rnd _ i] i show ?thesis by simp
  next
    case False
    with install_bails [OF mode(1) _ len v(4), of img be rnd _ i] img i(2) show ?thesis
      by (simp add: image_ok_def)
  qed
qed

text \<open>From the device to the files of the host.\<close>

lemma bios_install_run:
  assumes "parse_install_args (\<lambda>n. files n \<noteq> None) (tl argv) default_opts = Inr opts"
    "io_device opts = Some name" "files name = Some disk" "io_uninstall_file opts \<noteq> Some name"
    and run: "install_on_device be img rnd opts files (dev_open disk []) = (Ret (status, written), d)"
    "written \<noteq> None \<longrightarrow> io_uninstall_file opts \<noteq> None"
  shows "\<exists>files'. bios_install be img rnd [] argv files = (Ret status, files') \<and> files' name = Some (dv_disk d)"
proof -
  have "tl argv \<noteq> []" using assms(1,2) by (auto simp: default_opts_def)
  then have "\<not> length argv < 2" by (cases argv; cases "tl argv") auto
  then show ?thesis
    using assms by (cases written) (auto simp: bios_install_def Let_def)
qed


section \<open>What the disk looks like afterwards\<close>

definition half_b :: "u8 list \<Rightarrow> nat" where
  "half_b img = (length img - 1) div 512 div 2 * 512"

lemma unat_stage2_size_b:
  assumes img: "image_ok img"
  shows "unat (stage2_size_b (image_stage2_size img)) = half_b img"
proof -
  let ?s = "stage2_sects (image_stage2_size img)" and ?n = "(length img - 1) div 512"
  have "?n \<le> 65535 div 512" using img by (auto simp: image_ok_def intro!: div_le_mono)
  then have half: "?n div 2 \<le> 63" by linarith
  then have "unat ((?s div 2) * 512) = half_b img"
    by (subst unat_mult_no_wrap) (simp_all add: unat_div unat_stage2_sects [OF img] half_b_def)
  with half show ?thesis
    by (simp add: stage2_size_b_def unsigned_ucast_eq unsigned_take_bit_eq take_bit_nat_eq_self half_b_def)
qed

text \<open>The fields at \<open>0x1a4\<close>: sizes and byte addresses of the two halves, little-endian.\<close>

definition stage2_fields :: "u8 list \<Rightarrow> u8 list" where
  "stage2_fields img = le_bytes 2 (half_a img) @ le_bytes 2 (half_b img) @ le_bytes 8 512 @ le_bytes 8 (512 + half_a img)"

lemma length_stage2_fields [simp]: "length (stage2_fields img) = 20"
  by (simp add: stage2_fields_def)

lemma mbr_installed_eq:
  assumes img: "image_ok img" and len: "length img \<le> length v"
  shows "mbr_installed be img v = splice_at (splice_at (splice_at (splice_at v 0 img) 420 (stage2_fields img))
    218 (slice_at v 218 6)) 440 (slice_at v 440 70)"
proof -
  note a = unat_stage2_size_a(1,2) [OF img] and b = unat_stage2_size_b [OF img]
  obtain loc_b where loc_b: "unat loc_b = 512 + half_a img" and ws: "stage_writes be img (mbr_gap_locations img) =
      [(take 512 img, 0), (slice_at img 512 (half_a img), 512), (drop (512 + half_a img) img, loc_b),
       (store_host be 2 (ENDSWAP16 be (stage2_size_a (image_stage2_size img))), 420),
       (store_host be 2 (ENDSWAP16 be (stage2_size_b (image_stage2_size img))), 422),
       (store_host be 8 (ENDSWAP64 be 512), 424), (store_host be 8 (ENDSWAP64 be loc_b), 432)]"
    using stage_writes_mbr [OF img] by blast
  define A B C where "A = take 512 img" and "B = slice_at img 512 (half_a img)" and "C = drop (512 + half_a img) img"
  have parts: "length A = 512" "length B = half_a img" "length C = length img - (512 + half_a img)"
    using a(2) by (simp_all add: A_def B_def C_def)
  have "slice_at img 0 512 @ slice_at img (0 + 512) (half_a img) = slice_at img 0 (512 + half_a img)"
    using a(2) by (intro slice_append_slice) simp
  then have whole_img: "(A @ B) @ C = img" by (simp add: A_def B_def C_def slice_at_def)
  have "splice_at (splice_at (splice_at v 0 A) 512 B) (512 + half_a img) C = splice_at v 0 ((A @ B) @ C)"
    using splice_append [of 0 A B v] splice_append [of 0 "A @ B" C v] parts a(2) len by simp
  then have image: "splice_at (splice_at (splice_at v 0 A) 512 B) (512 + half_a img) C = splice_at v 0 img"
    by (simp only: whole_img)
  have v1: "length (splice_at v 0 img) = length v" "1024 \<le> length v"
    using len img by (simp_all add: image_ok_def)
  let ?F = "[store_host be 2 (ENDSWAP16 be (stage2_size_a (image_stage2_size img))),
    store_host be 2 (ENDSWAP16 be (stage2_size_b (image_stage2_size img))),
    store_host be 8 (ENDSWAP64 be 512), store_host be 8 (ENDSWAP64 be loc_b)]"
  have F: "?F = [le_bytes 2 (half_a img), le_bytes 2 (half_b img), le_bytes 8 512, le_bytes 8 (512 + half_a img)]"
    by (simp add: store_ENDSWAP a(1) b loc_b)
  define v1 where "v1 = splice_at v 0 img"
  have "splice_at (splice_at (splice_at (splice_at v1 420 (le_bytes 2 (half_a img))) 422 (le_bytes 2 (half_b img)))
      424 (le_bytes 8 512)) 432 (le_bytes 8 (512 + half_a img)) = splice_at v1 420 (stage2_fields img)"
    using splice_append [of 420 "le_bytes 2 (half_a img)" "le_bytes 2 (half_b img)" v1]
      splice_append [of 420 "le_bytes 2 (half_a img) @ le_bytes 2 (half_b img)" "le_bytes 8 512" v1]
      splice_append [of 420 "le_bytes 2 (half_a img) @ le_bytes 2 (half_b img) @ le_bytes 8 512" "le_bytes 8 (512 + half_a img)" v1]
      v1 by (simp add: v1_def stage2_fields_def)
  then show ?thesis
    unfolding mbr_installed_def staged_def ws
    using image F loc_b by (simp add: v1_def A_def B_def C_def)
qed


lemma parse_no_args: "parse_install_args opens [] opts = Inr opts' \<Longrightarrow> opts' = opts"
  by simp

text \<open>The partition entries that the final writes preserve are those of the disk, except for the flag.\<close>

lemma whole_sectors: "k * 512 \<le> length v \<Longrightarrow> k * 512 \<le> whole v"
  using less_eq_div_iff_mult_less_eq [of 512 k "length v"] by (simp add: whole_def)

lemma bios_install_failed:
  assumes "''--uninstall'' \<notin> set (tl argv)" "length bootloader_img < 2 ^ 64"
    "\<forall>name bytes. files name = Some bytes \<longrightarrow> length bytes < 2 ^ 63"
    "bios_install be bootloader_img rnd [] argv files = (Ret EXIT_FAILURE, files')"
  shows "files' = files"
proof (cases "length argv < 2")
  case True
  with assms(4) show ?thesis by (simp add: bios_install_def)
next
  case False
  let ?parse = "parse_install_args (\<lambda>name. files name \<noteq> None) (tl argv) default_opts"
  show ?thesis
  proof (cases "\<exists>opts name. ?parse = Inr opts \<and> io_device opts = Some name")
    case False
    with assms(4) show ?thesis
      by (auto simp: bios_install_def split: if_splits sum.splits option.splits)
  next
    case True
    then obtain opts name where opts: "?parse = Inr opts" "io_device opts = Some name" by blast
    obtain disk where disk: "files name = Some disk"
      using parse_device [OF opts] by (auto simp: default_opts_def)
    obtain r d where run: "install_on_device be bootloader_img rnd opts files (dev_open disk []) = (r, d)" by fastforce
    have mode: "\<not> io_uninstall_mode opts"
      using parse_uninstall_mode [OF opts(1) assms(1)] by (simp add: default_opts_def)
    have "length disk < 2 ^ 63" using assms(3) disk by blast
    from install_on_device_outcome [OF mode assms(2) this run] show ?thesis
      using assms(4) False opts disk run by (auto simp: bios_install_def EXIT_SUCCESS_def EXIT_FAILURE_def Let_def map_upd_triv)
  qed
qed

lemma slice_replicate: "i + n \<le> m \<Longrightarrow> slice_at (replicate m x) i n = replicate n x"
  by (simp add: slice_at_def)

text \<open>A run that is undone: \<open>--force-mbr\<close> first clears a status byte, then the partition turns out to
  start too low.\<close>

definition low_disk :: "u8 list" where
  "low_disk = splice_at (replicate 8192 1) 454 [0, 0, 0, 0]"

lemma low_disk_slices:
  "length low_disk = 8192" "whole low_disk = 8192"
  "i + n \<le> 454 \<Longrightarrow> slice_at low_disk i n = replicate n 1" "slice_at low_disk 454 4 = [0, 0, 0, 0]"
  "458 \<le> i \<Longrightarrow> i + n \<le> 8192 \<Longrightarrow> slice_at low_disk i n = replicate n 1"
  by (simp_all add: low_disk_def slice_splice_other slice_replicate whole_def)

lemma low_disk_check: "evals (check_partition be True 446 (True, False)) low_disk 0 Bail v' i'"
proof -
  let ?v = "splice_at low_disk 446 [0]"
  have v: "whole ?v = 8192" "slice_at ?v 450 1 = [1]" "slice_at ?v 454 4 = [0, 0, 0, 0]"
    by (simp_all add: low_disk_slices whole_def slice_splice_other)
  have w: "evals (device_write [0] 446 1) low_disk 0 (Ret ()) ?v 1"
    using evals_write [of 446 1 low_disk "[0]" 0] by (simp add: low_disk_slices)
  have "evals (pbind (device_write [0] 446 1) (\<lambda>_. pret (True, 0))) low_disk 0 (Ret (True, 0 :: u8)) ?v 1"
    by (rule evals_pbind [OF w]) (rule evals_pret)
  note first = this
  have second: "evals (pbind (pbind (device_write [0] 446 1) (\<lambda>_. pret (True, 0 :: u8)))
      (\<lambda>(mbr, hint8). pbind (device_read (446 + 4) 1) (\<lambda>b. if b ! 0 \<noteq> 0
        then pbind (device_read (446 + 8) 4) (\<lambda>b. if ENDSWAP32 be (load_host be b) < 63 then pbail
          else pret (mbr, False \<or> hint8 AND 0x80 \<noteq> 0))
        else pret (mbr, False \<or> hint8 AND 0x80 \<noteq> 0)))) low_disk 0 Bail v' i'"
    by (rule evals_pbind [OF first], unfold prod.case, rule evals_read_bind; (intro evals_if evals_read_bind)?)
       (use ENDSWAP_load(2) [of "[0, 0, 0, 0]" be] v in \<open>simp_all add: evals_pbail\<close>)
  have one: "slice_at low_disk (unat (446 :: u64)) (unat (1 :: u64)) ! 0 = 1" by (simp add: low_disk_slices)
  show ?thesis
    unfolding check_partition_def prod.case Let_def
  proof (rule evals_read_bind, simp add: low_disk_slices, unfold one)
    show "evals (pbind (if (1 :: u8) \<noteq> 0 \<and> (1 :: u8) \<noteq> 0x80
        then if \<not> True then pret (False, 1 :: u8) else pbind (device_write [1 AND 0x80] 446 1) (\<lambda>_. pret (True, 1 AND 0x80))
        else pret (True, 1))
      (\<lambda>(mbr, hint8). pbind (device_read (446 + 4) 1) (\<lambda>b. if b ! 0 \<noteq> 0
        then pbind (device_read (446 + 8) 4) (\<lambda>b. if ENDSWAP32 be (load_host be b) < 63 then pbail
          else pret (mbr, False \<or> hint8 AND 0x80 \<noteq> 0))
        else pret (mbr, False \<or> hint8 AND 0x80 \<noteq> 0)))) low_disk 0 Bail v' i'"
      using second by simp
  qed
qed

lemma low_disk_run:
  "\<exists>files'. bios_install False (replicate 1536 7) (\<lambda>_. 0) [] [''bios-install'', ''sda'', ''--force-mbr''] [''sda'' \<mapsto> low_disk] =
    (Ret EXIT_FAILURE, files')"
proof -
  let ?opts = "default_opts\<lparr>io_device := Some ''sda'', io_force_mbr := True\<rparr>"
  have gpt: "no_gpt low_disk"
    by (simp add: no_gpt_def low_disk_slices GPT_SIGNATURE_def replicate_neq_Cons)
  have "evals (install_body False (replicate 1536 7) (\<lambda>_. 0) ?opts) low_disk 0 Bail low_disk 0"
    unfolding install_body_def
    by (rule evals_pbind [OF evals_find_gpt [OF gpt]], simp add: low_disk_slices)
       (simp add: mbr_checks_def evals_pbind [OF evals_pret] evals_pbind_bail low_disk_check)
  from install_bails [OF _ _ _ _ this, of "[''sda'' \<mapsto> low_disk]"] obtain d where
    "install_on_device False (replicate 1536 7) (\<lambda>_. 0) ?opts [''sda'' \<mapsto> low_disk] (dev_open low_disk []) =
      (Ret (EXIT_FAILURE, None), d)"
    by (auto simp: default_opts_def low_disk_slices)
  then show ?thesis
    by (simp add: bios_install_def default_opts_def UNINSTALL_FILE_OPT_def Let_def)
qed

lemma mbr_install_run:
  assumes "parse_install_args (\<lambda>n. files n \<noteq> None) (tl argv) default_opts = Inr opts"
    "io_device opts = Some name" "files name = Some disk"
    "\<not> io_force_mbr opts" "\<not> io_uninstall_mode opts" "io_uninstall_file opts \<noteq> Some name"
    "image_ok img" "no_gpt disk" "9 * 512 \<le> length disk" "length disk < 2 ^ 63" "length img \<le> whole disk"
  shows "\<exists>files'. bios_install be img rnd [] argv files =
      (Ret (if mbr_valid disk then EXIT_SUCCESS else EXIT_FAILURE), files') \<and>
    files' name = Some (if mbr_valid disk then mbr_installed be img (with_active disk) else disk)"
proof -
  have "4192 \<le> whole disk" using whole_sectors [OF assms(9)] by simp
  note finish = install_done [OF assms(5,4,7,8) this assms(11,10), of be rnd files]
  note run = bios_install_run [OF assms(1-3,6)]
  show ?thesis
  proof (cases "mbr_valid disk")
    case True
    with finish obtain written d' where
      "install_on_device be img rnd opts files (dev_open disk []) = (Ret (EXIT_SUCCESS, written), d')"
      "dv_disk d' = mbr_installed be img (with_active disk)" "written \<noteq> None \<longrightarrow> io_uninstall_file opts \<noteq> None" by auto
    with run [OF this(1,3)] True show ?thesis by simp
  next
    case False
    with finish obtain d' where
      "install_on_device be img rnd opts files (dev_open disk []) = (Ret (EXIT_FAILURE, None), d')"
      "dv_disk d' = disk" by auto
    with run [OF this(1)] False show ?thesis by simp
  qed
qed

lemma mbr_layout:
  assumes "image_ok img" "length img \<le> length v"
  shows "let r = mbr_installed be img v in length r = length v \<and>
    slice_at r 440 70 = slice_at v 440 70 \<and> slice_at r 218 6 = slice_at v 218 6 \<and>
    slice_at r 0 218 = slice_at img 0 218 \<and> slice_at r 224 196 = slice_at img 224 196 \<and>
    slice_at r 510 2 = slice_at img 510 2 \<and>
    slice_at r 420 20 = le_bytes 2 (half_a img) @ le_bytes 2 (half_b img) @ le_bytes 8 512 @ le_bytes 8 (512 + half_a img) \<and>
    slice_at r 512 (length img - 512) = drop 512 img \<and> drop (length img) r = drop (length img) v"
proof -
  have len: "1024 \<le> length img" "1024 \<le> length v" using assms by (simp_all add: image_ok_def)
  have rest: "slice_at img 512 (length img - 512) = drop 512 img" by (simp add: slice_at_def)
  show ?thesis
    unfolding mbr_installed_eq [OF assms] Let_def
    using assms len rest
    by (simp add: slice_splice_other slice_splice_inner drop_splice stage2_fields_def)
qed

section \<open>Properties\<close>

text \<open>C6: Installing behind an MBR: on a disk without a GPT, and without \<open>--force-mbr\<close>,
  \<open>bios_install\<close> succeeds exactly when every partition entry has a valid status and starts at
  sector 63 or later and no file system signature is found; the disk then is the one the boot image
  asks for, and otherwise it is unchanged.\<close>

theorem mbr_install_spec:
  assumes "parse_install_args (\<lambda>n. files n \<noteq> None) (tl argv) default_opts = Inr opts"
    "io_device opts = Some name" "files name = Some disk"
    "\<not> io_force_mbr opts" "\<not> io_uninstall_mode opts" "io_uninstall_file opts \<noteq> Some name"
    "image_ok img" "no_gpt disk" "9 * 512 \<le> length disk" "length disk < 2 ^ 63" "length img \<le> whole disk"
  shows "\<exists>files'. bios_install be img rnd [] argv files =
      (Ret (if mbr_valid disk then EXIT_SUCCESS else EXIT_FAILURE), files') \<and>
    files' name = Some (if mbr_valid disk then mbr_installed be img (with_active disk) else disk)"
  using assms by (rule mbr_install_run)

lemma blank_disk:
  "no_gpt (replicate 8192 0)" "mbr_valid (replicate 8192 0)"
  by (simp_all add: no_gpt_def mbr_valid_def mbr_entries_def entry_status_ok_def entry_too_low_def no_signatures_def
      slice_replicate replicate_neq_Cons ECH_FS_def NTFS_def FAT_def FAT32_def GPT_SIGNATURE_def)

theorem mbr_install_spec_witness:
  "\<exists>files'. bios_install False (replicate 1536 7) (\<lambda>_. 0) [] [''bios-install'', ''sda'', ''--quiet''] [''sda'' \<mapsto> replicate 8192 0] =
      (Ret EXIT_SUCCESS, files') \<and>
    files' ''sda'' = Some (mbr_installed False (replicate 1536 7) (with_active (replicate 8192 0)))"
  using mbr_install_spec [of "[''sda'' \<mapsto> replicate 8192 0]" "[''bios-install'', ''sda'', ''--quiet'']"
      "default_opts\<lparr>io_device := Some ''sda'', io_quiet := True\<rparr>" "''sda''" "replicate 8192 0" "replicate 1536 7" False "\<lambda>_. 0"]
  by (simp add: blank_disk default_opts_def image_ok_def whole_def UNINSTALL_FILE_OPT_def)



end
