(* ===== verification/Limine_Enroll.thy ===== *)
theory Limine_Enroll
  imports Limine_Run
begin

text \<open>
  The commands \<open>enroll-config\<close> and \<open>version\<close> of the host tool and its \<open>main\<close> (\<open>limine.c\<close>).
  \<open>enroll-config\<close> looks for a signature in a boot loader executable and writes the checksum of the
  configuration file behind it. The script of faults works as for the device; \<open>short\<close> is the
  number of bytes that a failing \<open>fwrite\<close> writes. What is printed is the subject of \<open>Limine_Usage\<close>.
\<close>

section \<open>Arguments\<close>

text \<open>\<open>remove_arg\<close> moves the later arguments down by one; the list has \<open>argc\<close> elements.\<close>

definition remove_arg :: "string list \<Rightarrow> nat \<Rightarrow> string list" where
  "remove_arg argv index = butlast (foldl (\<lambda>a i. a[i := a ! (i + 1)]) argv [index..<length argv - 1])"

lemma length_shift_loop: "length (foldl (\<lambda>a i. a[i := a ! (i + 1)]) xs js) = length xs"
  by (induction js arbitrary: xs) auto

lemma length_remove_arg: "length (remove_arg argv index) = length argv - 1"
  by (simp only: remove_arg_def length_butlast length_shift_loop)

lemma nth_shift_loop:
  "m < length xs \<Longrightarrow> j < length xs \<Longrightarrow>
   foldl (\<lambda>a i. a[i := a ! (i + 1)]) xs [k..<m] ! j = (if k \<le> j \<and> j < m then xs ! (j + 1) else xs ! j)"
proof (induction m arbitrary: j)
  case 0
  then show ?case by simp
next
  case (Suc m)
  let ?f = "foldl (\<lambda>a i. a[i := a ! (i + 1)]) xs [k..<m]"
  show ?case
  proof (cases "k \<le> m")
    case True
    then have "foldl (\<lambda>a i. a[i := a ! (i + 1)]) xs [k..<Suc m] = ?f[m := ?f ! (m + 1)]"
      by (simp only: upt_Suc_append foldl_append foldl.simps)
    moreover have "?f ! (m + 1) = xs ! (m + 1)" using Suc.IH [of "m + 1"] Suc.prems(1) by simp
    moreover have "length ?f = length xs" by (rule length_shift_loop)
    ultimately show ?thesis
      using Suc.IH [of j] Suc.prems True by (auto simp: nth_list_update less_Suc_eq)
  next
    case False
    then show ?thesis using Suc.prems by auto
  qed
qed

lemma remove_arg_eq: "index < length argv \<Longrightarrow> remove_arg argv index = take index argv @ drop (index + 1) argv"
proof (rule nth_equalityI)
  fix j assume i: "index < length argv" and j: "j < length (remove_arg argv index)"
  then have "j < length argv - 1" by (simp add: length_remove_arg)
  then show "remove_arg argv index ! j = (take index argv @ drop (index + 1) argv) ! j"
    using i nth_shift_loop [of "length argv - 1" argv j index]
      length_shift_loop [of argv "[index..<length argv - 1]"]
    unfolding remove_arg_def by (auto simp: nth_butlast nth_append)
qed (simp add: length_remove_arg)

text \<open>
  The option loop with its index, which also moves on after an option was removed. \<open>None\<close> is
  \<open>--help\<close>; the flags are \<open>quiet\<close> and \<open>reset\<close>.
\<close>

function enroll_args :: "nat \<Rightarrow> string list \<Rightarrow> bool \<Rightarrow> bool \<Rightarrow> (string list \<times> bool \<times> bool) option" where
  "enroll_args i argv quiet reset =
     (if i < length argv then
        if argv ! i = ''--help'' \<or> argv ! i = ''-h'' then None
        else if argv ! i = ''--quiet'' then enroll_args (i + 1) (remove_arg argv i) True reset
        else if argv ! i = ''--reset'' then enroll_args (i + 1) (remove_arg argv i) quiet True
        else enroll_args (i + 1) argv quiet reset
      else Some (argv, quiet, reset))"
  by pat_completeness auto
termination
  by (relation "measure (\<lambda>(i, argv, quiet, reset). length argv - i)") (auto simp: length_remove_arg)

declare enroll_args.simps [simp del]

section \<open>The search for the signature\<close>

definition bytes_of :: "string \<Rightarrow> u8 list" where
  "bytes_of s = map of_char s"

definition CONFIG_B2SUM_SIGNATURE :: "u8 list" where
  "CONFIG_B2SUM_SIGNATURE = bytes_of ''++CONFIG_B2SUM_SIGNATURE++''"

datatype scan_result = Found nat | NotFound | OutOfBounds

text \<open>The loop over \<open>i\<close>; \<open>bound\<close> is its limit, which can be larger than the file.\<close>

function scan_signature :: "u8 list \<Rightarrow> nat \<Rightarrow> nat \<Rightarrow> nat \<Rightarrow> scan_result" where
  "scan_signature bootloader bound i checked_count =
     (if i < bound then
        if i \<ge> length bootloader then OutOfBounds
        else if bootloader ! i \<noteq> CONFIG_B2SUM_SIGNATURE ! checked_count then scan_signature bootloader bound (i + 1) 0
        else if checked_count + 1 = length CONFIG_B2SUM_SIGNATURE then Found (i + 1)
        else scan_signature bootloader bound (i + 1) (checked_count + 1)
      else NotFound)"
  by pat_completeness auto
termination
  by (relation "measure (\<lambda>(bootloader, bound, i, k). length bootloader - i)") auto

declare scan_signature.simps [simp del]

definition scan_bound :: "u64 \<Rightarrow> u64" where
  "scan_bound bootloader_size = bootloader_size - (of_nat (length CONFIG_B2SUM_SIGNATURE) + 128) + 1"

section \<open>The command\<close>

fun pop_fault :: "bool list \<Rightarrow> bool \<times> bool list" where
  "pop_fault [] = (False, [])"
| "pop_fault (b # bs) = (b, bs)"

text \<open>The effect on the contents of the executable: \<open>Bail\<close> is a failure before anything is written.\<close>

definition enroll_checksum :: "bool list \<Rightarrow> u8 list \<Rightarrow> u8 list \<Rightarrow> u8 list outcome" where
  "enroll_checksum faults checksum bootloader =
     (let (bad_seek, faults) = pop_fault faults; (bad_malloc, faults) = pop_fault faults;
          (bad_read, faults) = pop_fault faults; (bad_rewind, faults) = pop_fault faults in
      if bad_seek \<or> bad_malloc \<or> bad_read \<or> bootloader = [] then Bail
      else case scan_signature bootloader (unat (scan_bound (of_nat (length bootloader)))) 0 0 of
        OutOfBounds \<Rightarrow> Undefined
      | NotFound \<Rightarrow> Bail
      | Found checksum_loc \<Rightarrow>
          if checksum_loc + 128 > length bootloader then Undefined
          else if bad_rewind then Bail
          else Ret (splice_at bootloader checksum_loc checksum))"

definition enroll_config ::
    "nat \<Rightarrow> bool list \<Rightarrow> string list \<Rightarrow> (string \<rightharpoonup> u8 list) \<Rightarrow> int outcome \<times> (string \<rightharpoonup> u8 list)" where
  "enroll_config short faults argv files =
     (case enroll_args 1 argv False False of
        None \<Rightarrow> (Ret EXIT_SUCCESS, files)
      | Some (argv, quiet, reset) \<Rightarrow>
          if length argv \<le> (if reset then 1 else 2) then (Ret EXIT_FAILURE, files)
          else if \<not> reset \<and> length (argv ! 2) \<noteq> 128 then (Ret EXIT_FAILURE, files)
          else case files (argv ! 1) of
            None \<Rightarrow> (Ret EXIT_FAILURE, files)
          | Some bootloader \<Rightarrow>
              (case enroll_checksum faults (if reset then replicate 128 (of_char (CHR ''0'')) else bytes_of (argv ! 2)) bootloader of
                 Bail \<Rightarrow> (Ret EXIT_FAILURE, files)
               | Undefined \<Rightarrow> (Undefined, files)
               | Ret patched \<Rightarrow>
                   if fst (pop_fault (drop 4 faults)) then
                     (Ret EXIT_FAILURE, files(argv ! 1 \<mapsto> take short patched @ drop short bootloader))
                   else (Ret EXIT_SUCCESS, files(argv ! 1 \<mapsto> patched))))"

section \<open>Version and main\<close>

definition LIMINE_VERSION :: string where "LIMINE_VERSION = ''9.6.7''"

definition LIMINE_COPYRIGHT :: string where
  "LIMINE_COPYRIGHT = ''Copyright (C) 2019-2025 Mintsuki and contributors.''"

definition version_usage :: "string \<Rightarrow> string list" where
  "version_usage program_name =
     [''usage: '' @ program_name @ '' version [options...]'',
      '''',
      ''    --version-only  Only print the version number without licensing info'',
      ''                    and other distractions'',
      '''',
      ''    --help | -h     Display this help message'',
      '''']"

text \<open>The exit status and the lines on standard output.\<close>

definition version :: "string \<Rightarrow> string list \<Rightarrow> int \<times> string list" where
  "version program_name argv =
     (if length argv \<ge> 2 \<and> argv ! 1 = ''--help'' then (EXIT_SUCCESS, version_usage program_name)
      else if length argv \<ge> 2 \<and> argv ! 1 = ''--version-only'' then (EXIT_SUCCESS, [LIMINE_VERSION])
      else (EXIT_SUCCESS, [''Limine '' @ LIMINE_VERSION, LIMINE_COPYRIGHT,
        ''Limine is distributed under the terms of the BSD-2-Clause license.'',
        ''There is ABSOLUTELY NO WARRANTY, to the extent permitted by law.'']))"

text \<open>\<open>datadir\<close> is the build option \<open>LIMINE_DATADIR\<close>.\<close>

definition print_datadir :: "string option \<Rightarrow> int" where
  "print_datadir datadir = (case datadir of Some _ \<Rightarrow> EXIT_SUCCESS | None \<Rightarrow> EXIT_FAILURE)"

record tool_env =
  te_bigendian :: bool
  te_bootloader_img :: "u8 list"
  te_rand :: "nat \<Rightarrow> u8"
  te_datadir :: "string option"
  te_faults :: "bool list"
  te_short :: nat

definition limine_main ::
    "tool_env \<Rightarrow> string list \<Rightarrow> (string \<rightharpoonup> u8 list) \<Rightarrow> int outcome \<times> (string \<rightharpoonup> u8 list)" where
  "limine_main env argv files =
     (if length argv \<le> 1 then (Ret EXIT_FAILURE, files)
      else if argv ! 1 = ''help'' \<or> argv ! 1 = ''--help'' \<or> argv ! 1 = ''-h'' then (Ret EXIT_SUCCESS, files)
      else if argv ! 1 = ''bios-install'' then
        bios_install (te_bigendian env) (te_bootloader_img env) (te_rand env) (te_faults env) (tl argv) files
      else if argv ! 1 = ''enroll-config'' then enroll_config (te_short env) (te_faults env) (tl argv) files
      else if argv ! 1 = ''--print-datadir'' then (Ret (print_datadir (te_datadir env)), files)
      else if argv ! 1 = ''version'' \<or> argv ! 1 = ''--version'' then (Ret (fst (version (argv ! 0) (tl argv))), files)
      else (Ret EXIT_FAILURE, files))"


section \<open>What the search finds\<close>

definition signature_at :: "u8 list \<Rightarrow> nat \<Rightarrow> bool" where
  "signature_at bl p \<longleftrightarrow> p + 26 \<le> length bl \<and> slice_at bl p 26 = CONFIG_B2SUM_SIGNATURE"

lemma length_signature [simp]: "length CONFIG_B2SUM_SIGNATURE = 26"
  by (simp add: CONFIG_B2SUM_SIGNATURE_def bytes_of_def)

text \<open>The last \<open>k\<close> bytes before \<open>i\<close> match the first \<open>k\<close> of the signature.\<close>

definition matched :: "u8 list \<Rightarrow> nat \<Rightarrow> nat \<Rightarrow> bool" where
  "matched bl i k \<longleftrightarrow> k \<le> i \<and> i \<le> length bl \<and> (\<forall>j < k. bl ! (i - k + j) = CONFIG_B2SUM_SIGNATURE ! j)"

lemma matched_zero [simp]: "i \<le> length bl \<Longrightarrow> matched bl i 0"
  by (simp add: matched_def)

lemma matched_Suc: "matched bl i k \<Longrightarrow> i < length bl \<Longrightarrow> bl ! i = CONFIG_B2SUM_SIGNATURE ! k \<Longrightarrow> matched bl (i + 1) (k + 1)"
  by (auto simp: matched_def less_Suc_eq)

lemma matched_signature: "matched bl i 26 \<longleftrightarrow> 26 \<le> i \<and> signature_at bl (i - 26)"
proof -
  have "slice_at bl (i - 26) 26 = CONFIG_B2SUM_SIGNATURE \<longleftrightarrow> (\<forall>j < 26. bl ! (i - 26 + j) = CONFIG_B2SUM_SIGNATURE ! j)"
    if "26 \<le> i" "i \<le> length bl"
    using that by (auto simp: list_eq_iff_nth_eq nth_slice)
  then show ?thesis by (auto simp: matched_def signature_at_def)
qed

lemma scan_signature_sound:
  "scan_signature bl bound i k = Found q \<Longrightarrow> matched bl i k \<Longrightarrow> k < 26 \<Longrightarrow>
   26 \<le> q \<and> signature_at bl (q - 26) \<and> q \<le> bound"
proof (induction bl bound i k rule: scan_signature.induct)
  case (1 bl bound i k)
  from "1.prems"(1) have i: "i < bound" "i < length bl"
    by (simp_all add: scan_signature.simps [of bl bound i k] split: if_splits)
  show ?case
  proof (cases "bl ! i = CONFIG_B2SUM_SIGNATURE ! k")
    case False
    with "1.prems" i "1.IH"(1) show ?thesis by (simp add: scan_signature.simps [of bl bound i k])
  next
    case True
    note m = matched_Suc [OF "1.prems"(2) i(2) True]
    show ?thesis
    proof (cases "k + 1 = 26")
      case full: True
      with "1.prems" i True have "q = i + 1" by (simp add: scan_signature.simps [of bl bound i k])
      with m full i(1) matched_signature [of bl q] show ?thesis by simp
    next
      case False
      with "1.prems" i True m "1.IH"(2) show ?thesis by (simp add: scan_signature.simps [of bl bound i k])
    qed
  qed
qed

lemma scan_within:
  assumes at: "signature_at bl p" and bound: "p + 26 \<le> bound"
  shows "k < 26 \<Longrightarrow> scan_signature bl bound (p + k) k = Found (p + 26)"
proof (induction "26 - k" arbitrary: k rule: less_induct)
  case less
  have b: "bl ! (p + k) = CONFIG_B2SUM_SIGNATURE ! k" "p + k < length bl" "p + k < bound"
    using at bound less.prems nth_slice [of p 26 bl k] by (auto simp: signature_at_def)
  show ?case
  proof (cases "k + 1 = 26")
    case True
    with b show ?thesis by (subst scan_signature.simps) simp
  next
    case False
    with less.hyps [of "k + 1"] less.prems b show ?thesis
      by (simp add: scan_signature.simps [of bl bound "p + k"])
  qed
qed

lemma scan_up_to:
  assumes at: "signature_at bl p" "p + 26 \<le> bound" and first: "\<forall>p' < p. \<not> signature_at bl p'"
    and pred: "p = 0 \<or> bl ! (p - 1) \<notin> set CONFIG_B2SUM_SIGNATURE"
  shows "i \<le> p \<Longrightarrow> matched bl i k \<Longrightarrow> k < 26 \<Longrightarrow> scan_signature bl bound i k = Found (p + 26)"
proof (induction "p - i" arbitrary: i k)
  case 0
  have "k = 0"
  proof (rule ccontr)
    assume k: "k \<noteq> 0"
    have "k - 1 < k" "k \<le> i" "i = p" using 0 k by (simp_all add: matched_def)
    then have "bl ! (i - k + (k - 1)) = CONFIG_B2SUM_SIGNATURE ! (k - 1)" using 0 by (simp only: matched_def)
    moreover have "i - k + (k - 1) = p - 1" "p \<noteq> 0" using \<open>k \<le> i\<close> \<open>i = p\<close> k by simp_all
    ultimately have "bl ! (p - 1) \<in> set CONFIG_B2SUM_SIGNATURE" "p \<noteq> 0"
      using 0 k by simp_all
    with pred show False by blast
  qed
  with 0 scan_within [OF at, of 0] show ?case by simp
next
  case (Suc n)
  then have i: "i < p" "i < bound" "i < length bl" using at by (auto simp: signature_at_def)
  show ?case
  proof (cases "bl ! i = CONFIG_B2SUM_SIGNATURE ! k")
    case False
    with i Suc.hyps(2) Suc.hyps(1) [of "i + 1" 0] show ?thesis
      by (simp add: scan_signature.simps [of bl bound i k])
  next
    case True
    note m = matched_Suc [OF Suc.prems(2) i(3) True]
    have "k + 1 \<noteq> 26"
    proof
      assume "k + 1 = 26"
      with m matched_signature [of bl "i + 1"] have "26 \<le> i + 1" "signature_at bl (i + 1 - 26)" by simp_all
      moreover have "i + 1 - 26 < p" using i(1) by simp
      ultimately show False using first by blast
    qed
    with True i m Suc.hyps(2) Suc.hyps(1) [of "i + 1" "k + 1"] Suc.prems(3) show ?thesis
      by (simp add: scan_signature.simps [of bl bound i k])
  qed
qed


text \<open>A limit beyond the end of the file makes the loop run off the file unless it finds something.\<close>

lemma scan_runs_off: "length bl < bound \<Longrightarrow> i \<le> length bl \<Longrightarrow> scan_signature bl bound i k \<noteq> NotFound"
  by (induction bl bound i k rule: scan_signature.induct)
     (subst scan_signature.simps, auto)

lemma scan_bound_wraps:
  assumes "n < 2 ^ 64"
  shows "unat (scan_bound (of_nat n)) = (if 153 \<le> n then n - 153 else n + 2 ^ 64 - 153)"
proof -
  have "scan_bound (of_nat n) = of_nat n - 153" by (simp add: scan_bound_def)
  moreover have "unat (of_nat n :: u64) = n" using assms by (intro unat_of_nat_lt) simp
  ultimately show ?thesis
    using assms by (simp add: unat_sub_if_size word_le_nat_alt word_size)
qed

lemma scan_needs_room:
  "scan_signature bl bound i k = Found q \<Longrightarrow> k < 26 \<Longrightarrow> i + 26 \<le> q + k \<and> q \<le> bound"
proof (induction bl bound i k rule: scan_signature.induct)
  case (1 bl bound i k)
  from "1.prems"(1) have i: "i < bound" "i < length bl"
    by (simp_all add: scan_signature.simps [of bl bound i k] split: if_splits)
  show ?case
  proof (cases "bl ! i = CONFIG_B2SUM_SIGNATURE ! k")
    case False
    with "1.prems" i "1.IH"(1) show ?thesis by (simp add: scan_signature.simps [of bl bound i k])
  next
    case True
    with "1.prems" i "1.IH"(2) show ?thesis
      by (cases "k + 1 = 26") (simp_all add: scan_signature.simps [of bl bound i k])
  qed
qed

lemma scan_in_bounds: "bound \<le> length bl \<Longrightarrow> scan_signature bl bound i k \<noteq> OutOfBounds"
  by (induction bl bound i k rule: scan_signature.induct)
     (subst scan_signature.simps, auto)

lemma enroll_args_plain:
  assumes "name \<notin> {''--help'', ''-h'', ''--quiet'', ''--reset''}" "length checksum = 128"
  shows "enroll_args 1 [cmd, name, checksum] False False = Some ([cmd, name, checksum], False, False)"
proof -
  let ?argv = "[cmd, name, checksum]"
  have "checksum \<notin> {''--help'', ''-h'', ''--quiet'', ''--reset''}" using assms(2) by auto
  then have "enroll_args 2 ?argv False False = enroll_args 3 ?argv False False"
    by (subst enroll_args.simps) simp
  also have "\<dots> = Some (?argv, False, False)" by (subst enroll_args.simps) simp
  finally show ?thesis using assms(1) by (subst enroll_args.simps) (simp add: numeral_2_eq_2)
qed

section \<open>Properties\<close>






text \<open>C35: A file of fewer than 153 bytes makes the limit of the search wrap around: the loop reads
  past the buffer, or the checksum is written past it, for every such file.\<close>

theorem enroll_small_file_undefined:
  assumes "bl \<noteq> []" "length bl < 153"
  shows "enroll_checksum [] checksum bl = Undefined"
proof -
  let ?bound = "unat (scan_bound (of_nat (length bl)))"
  have "?bound = length bl + 2 ^ 64 - 153" using scan_bound_wraps [of "length bl"] assms(2) by simp
  then have "length bl < ?bound" by simp
  from scan_runs_off [OF this, of 0 0] scan_signature_sound [of bl ?bound 0 0] assms show ?thesis
    by (cases "scan_signature bl ?bound 0 0") (auto simp: enroll_checksum_def signature_at_def)
qed

theorem enroll_small_file_undefined_witness:
  "enroll_checksum [] (replicate 128 0) (replicate 100 7) = Undefined"
  by (rule enroll_small_file_undefined) simp_all


lemma enroll_failed_files:
  "enroll_config short [] argv files = (Ret EXIT_FAILURE, files') \<Longrightarrow> files' = files"
  by (auto simp: enroll_config_def EXIT_SUCCESS_def EXIT_FAILURE_def split: if_splits option.splits outcome.splits)

text \<open>C4: The whole tool: no command that reports failure, apart from \<open>--uninstall\<close>, leaves a change
  in any file of the host, as long as no I/O error occurs.\<close>

theorem failed_command_changes_nothing:
  assumes "''--uninstall'' \<notin> set (tl (tl argv))" "te_faults env = []" "length (te_bootloader_img env) < 2 ^ 64"
    "\<forall>name bytes. files name = Some bytes \<longrightarrow> length bytes < 2 ^ 63"
    "limine_main env argv files = (Ret EXIT_FAILURE, files')"
  shows "files' = files"
  using assms bios_install_failed [of "tl argv" "te_bootloader_img env" files "te_bigendian env" "te_rand env" files']
    enroll_failed_files [of "te_short env" "tl argv" files files']
  by (auto simp: limine_main_def split: if_splits)

text \<open>A run that had to be undone: \<open>--force-mbr\<close> first clears a status byte, then the partition turns
  out to start too low.\<close>

theorem failed_command_changes_nothing_witness:
  "limine_main \<lparr>te_bigendian = False, te_bootloader_img = replicate 1536 7, te_rand = (\<lambda>_. 0), te_datadir = None,
     te_faults = [], te_short = 0\<rparr> [''limine'', ''bios-install'', ''sda'', ''--force-mbr''] [''sda'' \<mapsto> low_disk] =
   (Ret EXIT_FAILURE, [''sda'' \<mapsto> low_disk])"
proof -
  let ?run = "limine_main \<lparr>te_bigendian = False, te_bootloader_img = replicate 1536 7, te_rand = (\<lambda>_. 0), te_datadir = None,
     te_faults = [], te_short = 0\<rparr> [''limine'', ''bios-install'', ''sda'', ''--force-mbr''] [''sda'' \<mapsto> low_disk]"
  have "\<exists>files'. ?run = (Ret EXIT_FAILURE, files')"
    using low_disk_run by (simp add: limine_main_def)
  moreover have "files' = [''sda'' \<mapsto> low_disk]" if "?run = (Ret EXIT_FAILURE, files')" for files'
    by (rule failed_command_changes_nothing [OF _ _ _ _ that]) (auto simp: low_disk_slices split: if_splits)
  ultimately show ?thesis by blast
qed

end
