(* ===== verification/Limine_Uninstall.thy ===== *)
theory Limine_Uninstall
  imports Limine_Run
begin

text \<open>
  \<open>bios-install --uninstall\<close> after a successful \<open>bios-install\<close>: the undo file of the first run, read
  by the second one. An undo file whose writing stopped at an empty entry is refused.
\<close>

section \<open>Undo files that stop early\<close>

text \<open>What \<open>store_entries\<close> leaves in the file: the entries up to the first empty one, and its header.\<close>

fun stored_bytes :: "bool \<Rightarrow> uninstall_data list \<Rightarrow> u8 list" where
  "stored_bytes be [] = []"
| "stored_bytes be (e # es) = entry_bytes be e @ (if ud_data e = [] then [] else stored_bytes be es)"

lemma store_entries_bytes:
  "dv_faults d = [] \<Longrightarrow> store_entries be es out d =
     ((\<forall>e \<in> set es. ud_data e \<noteq> [], out @ stored_bytes be es), d)"
  by (induction es arbitrary: out) (auto simp: ud_fwrite_ok entry_bytes_def)

lemma store_uninstall_data_bytes:
  assumes "dv_faults d = []"
  shows "store_uninstall_data be d = ((\<forall>e \<in> set (dev_log d). ud_data e \<noteq> [],
    Some (store_host be 8 (dv_uninstall_data_i d) @ stored_bytes be (dev_log d))), d)"
  using assms by (simp add: store_uninstall_data_def next_fault_none ud_fwrite_ok store_entries_bytes dev_log_def)

lemma stored_bytes_full: "\<forall>e \<in> set es. ud_data e \<noteq> [] \<Longrightarrow> stored_bytes be es = concat (map (entry_bytes be) es)"
  by (induction es) simp_all

lemma load_entry_empty:
  assumes "dv_faults d = []" "i < length (dv_uninstall_data d)" "ud_data e = []" "ud_count e = 0"
  shows "load_entry be i (entry_bytes be e) d = (Bail, d)"
proof -
  have "load_host be (store_host be 8 w) = w" for w :: u64 by (rule load_store_host) simp
  with assms show ?thesis
    by (simp add: load_entry_def ud_fread_ok next_fault_none entry_bytes_def)
qed

lemma load_entries_stop:
  assumes "dv_faults d = []" "i + length es = n" "n \<le> length (dv_uninstall_data d)"
    "\<forall>e \<in> set es. length (ud_data e) = unat (ud_count e)" "\<exists>e \<in> set es. ud_data e = []"
  shows "\<exists>d'. load_entries be n i (stored_bytes be es) d = (Bail, d') \<and> dv_disk d' = dv_disk d \<and>
    dv_uninstall_data_i d' = dv_uninstall_data_i d"
  using assms
proof (induction es arbitrary: i d)
  case Nil
  then show ?case by simp
next
  case (Cons e es)
  have i: "i < length (dv_uninstall_data d)" "i < n" using Cons.prems by simp_all
  show ?case
  proof (cases "ud_data e = []")
    case True
    then have "ud_count e = 0" using Cons.prems(4) by (simp add: unat_eq_zero)
    with True i Cons.prems(1) load_entry_empty [of d i e be] show ?thesis
      by (simp add: load_entries.simps [of be n i])
  next
    case False
    let ?d1 = "d\<lparr>dv_uninstall_data := (dv_uninstall_data d)[i := e]\<rparr>"
    have "\<exists>d'. load_entries be n (i + 1) (stored_bytes be es) ?d1 = (Bail, d') \<and> dv_disk d' = dv_disk ?d1 \<and>
        dv_uninstall_data_i d' = dv_uninstall_data_i ?d1"
      using Cons.prems False by (intro Cons.IH) auto
    then show ?thesis
      using i False load_entry_ok [of d i e be "stored_bytes be es"] Cons.prems(1,4)
      by (simp add: load_entries.simps [of be n i])
  qed
qed

lemma load_stored_stop:
  assumes nf: "dv_faults d = []" and n: "length es = unat n" "unat n \<le> length (dv_uninstall_data d)"
    and es: "\<forall>e \<in> set es. length (ud_data e) = unat (ud_count e)" "\<exists>e \<in> set es. ud_data e = []"
  shows "\<exists>d'. load_uninstall_data be (Some (store_host be 8 (n :: u64) @ stored_bytes be es)) d = (Bail, d') \<and>
    dv_disk d' = dv_disk d \<and> dv_uninstall_data_i d' = n"
proof -
  have "load_host be (store_host be 8 n) = n" by (rule load_store_host) simp
  moreover have "\<exists>d'. load_entries be (unat n) 0 (stored_bytes be es) (d\<lparr>dv_uninstall_data_i := n\<rparr>) = (Bail, d') \<and>
      dv_disk d' = dv_disk (d\<lparr>dv_uninstall_data_i := n\<rparr>) \<and>
      dv_uninstall_data_i d' = dv_uninstall_data_i (d\<lparr>dv_uninstall_data_i := n\<rparr>)"
    using nf n es by (intro load_entries_stop) simp_all
  ultimately show ?thesis
    using nf by (simp add: load_uninstall_data_def ud_fread_ok Let_def)
qed

section \<open>The second run\<close>

text \<open>What a successful installation leaves: the state before the clean-up satisfies the undo
  invariant, and the undo file holds its log, up to the first empty entry.\<close>

definition undo_file :: "bool \<Rightarrow> dev \<Rightarrow> u8 list" where
  "undo_file be d = store_host be 8 (dv_uninstall_data_i d) @ stored_bytes be (rev (dev_log d))"

lemma store_reversed:
  assumes "inst_inv orig d"
  shows "store_uninstall_data be (reverse_uninstall_data d) =
    ((full_log d, Some (undo_file be d)), reverse_uninstall_data d)"
  using store_uninstall_data_bytes [of "reverse_uninstall_data d" be] dev_log_reverse(1) [OF assms] assms
  by (simp add: inst_inv_def dev_base_def full_log_def undo_file_def)

lemma install_success_state:
  assumes mode: "\<not> io_uninstall_mode opts" and len: "length img < 2 ^ 64" and disk: "length disk < 2 ^ 63"
    and run: "install_on_device be img rnd opts files (dev_open disk []) = (Ret (EXIT_SUCCESS, written), d')"
  shows "\<exists>d0 d. device_init (dev_open disk []) = (True, d0) \<and> install_body be img rnd opts d0 = (Ret (), d) \<and>
    inst_inv disk d \<and> 512 \<le> length disk \<and> dv_disk d' = dv_disk d \<and>
    written = (if io_uninstall_file opts = None then None else Some (undo_file be d))"
proof -
  have size: "512 \<le> length disk"
  proof (rule ccontr)
    assume "\<not> 512 \<le> length disk"
    then have "fst (device_init (dev_open disk [])) = False"
      by (intro device_init_small) (simp_all add: dev_open_def)
    then obtain d where "device_init (dev_open disk []) = (False, d)"
      by (cases "device_init (dev_open disk [])") simp
    with run show False
      by (auto simp: install_on_device_def pbind_def free_uninstall_data_def pret_def EXIT_SUCCESS_def EXIT_FAILURE_def
          split: if_splits)
  qed
  obtain d0 where d0: "device_init (dev_open disk []) = (True, d0)" "dev_ok d0" "inst_inv disk d0"
    using device_init_inv [OF size disk] by blast
  note keep = keepsD [OF keeps_install_body [OF len, of disk be rnd opts] d0(2,3)]
  obtain r1 d1 where body: "install_body be img rnd opts d0 = (r1, d1)" by fastforce
  note eq = install_on_device_eq [OF d0(1) mode, of be img rnd files, unfolded body]
  show ?thesis
  proof (cases r1)
    case (Ret x)
    have inv: "inst_inv disk d1" using keep(1) body Ret by blast
    from run eq Ret store_reversed [OF inv, of be] have "dv_disk d' = dv_disk d1 \<and>
        written = (if io_uninstall_file opts = None then None else Some (undo_file be d1))"
      by (auto simp: pbind_def install_cleanup_def Let_def free_uninstall_data_def pret_def split: if_splits)
    with d0(1) body Ret inv size show ?thesis by auto
  next
    case Bail
    obtain d2 where "install_cleanup be opts False d1 = (Ret (EXIT_FAILURE, None), d2)"
      using install_cleanup_failed [OF keep(2)] body Bail by blast
    with run eq Bail show ?thesis
      by (auto simp: pbind_def free_uninstall_data_def pret_def EXIT_SUCCESS_def EXIT_FAILURE_def split: if_splits)
  next
    case Undefined
    with run eq show ?thesis by simp
  qed
qed

lemma later_run:
  assumes inv: "inst_inv orig d" and len: "512 \<le> length orig" "length orig < 2 ^ 63"
    and mode: "io_uninstall_mode opts" "io_uninstall_file opts = Some udf" "files udf = Some (undo_file be d)"
  shows "\<exists>d'. install_on_device be img rnd opts files (dev_open (dv_disk d) []) =
      (Ret (if full_log d then EXIT_SUCCESS else EXIT_FAILURE, None), d') \<and>
    dv_disk d' = (if full_log d then orig else dv_disk d)"
proof (cases "full_log d")
  case True
  then have "store_uninstall_data be (reverse_uninstall_data d) = ((True, Some (undo_file be d)), reverse_uninstall_data d)"
    using store_reversed [OF inv, of be] by simp
  from later_uninstall [OF inv len this] True mode show ?thesis
    by (auto simp: install_on_device_def uninstall_mode_def pbind_def free_uninstall_data_def pret_def)
next
  case False
  have disk: "length (dv_disk d) = length orig" using inv by (simp add: inst_inv_def agree_def)
  obtain d0 where d0: "device_init (dev_open (dv_disk d) []) = (True, d0)" "dev_ok d0" "inst_inv (dv_disk d) d0"
    "dv_disk d0 = dv_disk d" "dv_block_size d0 = 512"
    using device_init_inv [of "dv_disk d"] len disk by auto
  have log: "log_ok (dev_size d) orig (dev_log d)" using inv by (simp add: inst_inv_def)
  have "\<exists>d'. load_uninstall_data be (Some (store_host be 8 (dv_uninstall_data_i d) @ stored_bytes be (rev (dev_log d)))) d0 =
      (Bail, d') \<and> dv_disk d' = dv_disk d0 \<and> dv_uninstall_data_i d' = dv_uninstall_data_i d"
    using d0(2,3) inv dev_log_reverse(2) [OF inv] log_entry_lengths [OF log] False
    by (intro load_stored_stop) (auto simp: dev_ok_def dev_base_def inst_inv_def full_log_def word_le_nat_alt)
  then obtain d1 where "load_uninstall_data be (files udf) d0 = (Bail, d1)" "dv_disk d1 = dv_disk d"
    "dv_uninstall_data_i d1 = dv_uninstall_data_i d"
    using d0(4) mode(3) by (auto simp: undo_file_def)
  with d0(1) False mode inv show ?thesis
    by (simp add: install_on_device_def uninstall_mode_def pbind_def free_uninstall_data_def pret_def inst_inv_def not_less)
qed

text \<open>The command with its arguments parsed.\<close>

lemma bios_install_parsed:
  assumes "parse_install_args (\<lambda>n. files n \<noteq> None) (tl argv) default_opts = Inr opts"
    "io_device opts = Some name" "files name = Some disk"
    "install_on_device be img rnd opts files (dev_open disk []) = (Ret (status, written), d)"
  shows "bios_install be img rnd [] argv files = (Ret status, case written of
      None \<Rightarrow> files(name \<mapsto> dv_disk d)
    | Some bytes \<Rightarrow> files(name \<mapsto> dv_disk d, the (io_uninstall_file opts) \<mapsto> bytes))"
proof -
  have "tl argv \<noteq> []" using assms(1,2) by (auto simp: default_opts_def)
  then have "\<not> length argv < 2" by (cases argv; cases "tl argv") auto
  with assms show ?thesis by (simp add: bios_install_def Let_def)
qed

lemma bios_install_success:
  assumes parse: "parse_install_args (\<lambda>n. files n \<noteq> None) (tl argv) default_opts = Inr opts"
    "io_device opts = Some name" "files name = Some disk"
    and opts: "\<not> io_uninstall_mode opts" "io_uninstall_file opts = Some udf"
    and len: "length img < 2 ^ 64" "length disk < 2 ^ 63"
    and run: "bios_install be img rnd [] argv files = (Ret EXIT_SUCCESS, files1)"
  shows "\<exists>d0 d. device_init (dev_open disk []) = (True, d0) \<and> install_body be img rnd opts d0 = (Ret (), d) \<and>
    inst_inv disk d \<and> 512 \<le> length disk \<and> files1 = files(name \<mapsto> dv_disk d, udf \<mapsto> undo_file be d)"
proof -
  obtain r d' where inst: "install_on_device be img rnd opts files (dev_open disk []) = (r, d')" by fastforce
  have "tl argv \<noteq> []" using parse(1,2) by (auto simp: default_opts_def)
  then have argv: "\<not> length argv < 2" by (cases argv; cases "tl argv") auto
  from install_on_device_outcome [OF opts(1) len inst] obtain written where written: "r = Ret (EXIT_SUCCESS, written)"
    using run argv parse inst by (auto simp: bios_install_def EXIT_SUCCESS_def EXIT_FAILURE_def Let_def)
  from install_success_state [OF opts(1) len inst [unfolded written]] opts(2) obtain d0 d where
    "device_init (dev_open disk []) = (True, d0)" "install_body be img rnd opts d0 = (Ret (), d)" "inst_inv disk d"
    "512 \<le> length disk" "dv_disk d' = dv_disk d" "written = Some (undo_file be d)" by auto
  moreover from this have "files1 = files(name \<mapsto> dv_disk d, udf \<mapsto> undo_file be d)"
    using bios_install_parsed [OF parse inst [unfolded written]] run opts(2) by simp
  ultimately show ?thesis by blast
qed

text \<open>A second run with \<open>--uninstall\<close> on the files that the first one left.\<close>

lemma second_run:
  assumes "inst_inv disk d" "512 \<le> length disk" "length disk < 2 ^ 63"
    "files1 = files(name \<mapsto> dv_disk d, udf \<mapsto> undo_file be d)" "udf \<noteq> name"
    "parse_install_args (\<lambda>n. files1 n \<noteq> None) (tl argv) default_opts = Inr opts"
    "io_device opts = Some name" "io_uninstall_mode opts" "io_uninstall_file opts = Some udf"
  shows "bios_install be img rnd [] argv files1 =
    (if full_log d then (Ret EXIT_SUCCESS, files1(name \<mapsto> disk)) else (Ret EXIT_FAILURE, files1))"
proof -
  have files: "files1 udf = Some (undo_file be d)" "files1 name = Some (dv_disk d)" using assms(4,5) by auto
  from later_run [where files = files1, OF assms(1-3,8,9) files(1), of img rnd] obtain d' where
    "install_on_device be img rnd opts files1 (dev_open (dv_disk d) []) =
      (Ret (if full_log d then EXIT_SUCCESS else EXIT_FAILURE, None), d')"
    "dv_disk d' = (if full_log d then disk else dv_disk d)" by blast
  with bios_install_parsed [OF assms(6,7) files(2)] files show ?thesis
    by (auto simp: map_upd_triv)
qed

lemma mbr_body_full_log:
  assumes "\<not> io_force_mbr opts" "image_ok img" "no_gpt disk" "4192 \<le> whole disk" "length img \<le> whole disk"
    "length disk < 2 ^ 63" "mbr_valid disk"
    "device_init (dev_open disk []) = (True, d0)" "install_body be img rnd opts d0 = (Ret (), d)"
  shows "full_log d"
proof -
  have "512 \<le> length disk" using assms(4) whole_le [of disk] by simp
  then have "holds disk 0 d0"
    using device_init_inv [of disk] assms(6,8) by (auto simp: holds_def inst_inv_def full_log_def dev_log_def)
  moreover obtain i where "evals (install_body be img rnd opts) disk 0 (if mbr_valid disk then Ret () else Bail)
      (mbr_installed be img (with_active disk)) i"
    using evals_install_body [OF assms(1-5), of be rnd] by blast
  ultimately have "holds (mbr_installed be img (with_active disk)) i d"
    using assms(7,9) unfolding evals_def by fastforce
  then show ?thesis by (simp add: holds_def)
qed

section \<open>Properties\<close>

text \<open>C5: Uninstalling undoes a successful installation: when the first run saved its undo data in a
  file other than the device, a second run with \<open>--uninstall\<close>, on the same device and file, either
  succeeds and the device is what it was before the installation, or fails and changes nothing.\<close>

theorem uninstall_undoes_install:
  assumes "parse_install_args (\<lambda>n. files n \<noteq> None) (tl argv) default_opts = Inr opts"
    "io_device opts = Some name" "files name = Some disk"
    "\<not> io_uninstall_mode opts" "io_uninstall_file opts = Some udf" "udf \<noteq> name"
    "length img < 2 ^ 64" "length disk < 2 ^ 63"
    "bios_install be img rnd [] argv files = (Ret EXIT_SUCCESS, files1)"
    "parse_install_args (\<lambda>n. files1 n \<noteq> None) (tl argv2) default_opts = Inr opts2"
    "io_device opts2 = Some name" "io_uninstall_mode opts2" "io_uninstall_file opts2 = Some udf"
  shows "bios_install be img2 rnd2 [] argv2 files1 \<in>
    {(Ret EXIT_SUCCESS, files1(name \<mapsto> disk)), (Ret EXIT_FAILURE, files1)}"
proof -
  obtain d where "inst_inv disk d" "512 \<le> length disk" "files1 = files(name \<mapsto> dv_disk d, udf \<mapsto> undo_file be d)"
    using bios_install_success [OF assms(1-5,7-9)] by blast
  from second_run [OF this(1,2) assms(8) this(3) assms(6,10-13), of img2 rnd2] show ?thesis by simp
qed

lemma blank_first_run:
  "\<exists>files1. bios_install False (replicate 1536 7) (\<lambda>_. 0) []
    [''bios-install'', ''sda'', ''--uninstall-data-file=u''] [''sda'' \<mapsto> replicate 8192 0] = (Ret EXIT_SUCCESS, files1)"
proof -
  let ?opts = "default_opts\<lparr>io_device := Some ''sda'', io_uninstall_file := Some ''=u''\<rparr>"
  let ?files = "[''sda'' \<mapsto> replicate 8192 (0 :: u8)]" and ?argv = "[''bios-install'', ''sda'', ''--uninstall-data-file=u'']"
  have "if mbr_valid (replicate 8192 0) then
      \<exists>written d'. install_on_device False (replicate 1536 7) (\<lambda>_. 0) ?opts ?files (dev_open (replicate 8192 0) []) =
        (Ret (EXIT_SUCCESS, written), d') \<and> dv_disk d' = mbr_installed False (replicate 1536 7) (with_active (replicate 8192 0)) \<and>
        (written \<noteq> None \<longrightarrow> io_uninstall_file ?opts \<noteq> None)
    else \<exists>d'. install_on_device False (replicate 1536 7) (\<lambda>_. 0) ?opts ?files (dev_open (replicate 8192 0) []) =
        (Ret (EXIT_FAILURE, None), d') \<and> dv_disk d' = replicate 8192 0"
    by (rule install_done) (simp_all add: default_opts_def image_ok_def whole_def blank_disk)
  then obtain written d' where
    run: "install_on_device False (replicate 1536 7) (\<lambda>_. 0) ?opts ?files (dev_open (replicate 8192 0) []) =
      (Ret (EXIT_SUCCESS, written), d')"
    using blank_disk(2) by auto
  have "parse_install_args (\<lambda>n. ?files n \<noteq> None) (tl ?argv) default_opts = Inr ?opts"
    by (simp add: default_opts_def UNINSTALL_FILE_OPT_def)
  from bios_install_parsed [OF this _ _ run] show ?thesis by simp
qed

theorem uninstall_undoes_install_witness:
  "\<exists>files1. bios_install False (replicate 1536 7) (\<lambda>_. 0) []
      [''bios-install'', ''sda'', ''--uninstall-data-file=u''] [''sda'' \<mapsto> replicate 8192 0] = (Ret EXIT_SUCCESS, files1) \<and>
    bios_install False (replicate 1536 7) (\<lambda>_. 0) []
      [''bios-install'', ''sda'', ''--uninstall'', ''--uninstall-data-file=u''] files1 \<in>
      {(Ret EXIT_SUCCESS, files1(''sda'' \<mapsto> replicate 8192 0)), (Ret EXIT_FAILURE, files1)}"
proof -
  let ?opts = "default_opts\<lparr>io_device := Some ''sda'', io_uninstall_file := Some ''=u''\<rparr>"
  let ?files = "[''sda'' \<mapsto> replicate 8192 (0 :: u8)]" and ?argv = "[''bios-install'', ''sda'', ''--uninstall-data-file=u'']"
  let ?argv2 = "[''bios-install'', ''sda'', ''--uninstall'', ''--uninstall-data-file=u'']"
  obtain files1 where first: "bios_install False (replicate 1536 7) (\<lambda>_. 0) [] ?argv ?files = (Ret EXIT_SUCCESS, files1)"
    using blank_first_run by blast
  have parse: "parse_install_args (\<lambda>n. ?files n \<noteq> None) (tl ?argv) default_opts = Inr ?opts"
    by (simp add: default_opts_def UNINSTALL_FILE_OPT_def)
  have dev: "files1 ''sda'' \<noteq> None"
    using bios_install_success [OF parse _ _ _ _ _ _ first, of "''sda''" "replicate 8192 0" "''=u''"]
    by (auto simp: default_opts_def)
  then have "parse_install_args (\<lambda>n. files1 n \<noteq> None) (tl ?argv2) default_opts = Inr (?opts\<lparr>io_uninstall_mode := True\<rparr>)"
    by (simp add: default_opts_def UNINSTALL_FILE_OPT_def)
  from uninstall_undoes_install [OF parse _ _ _ _ _ _ _ first this] first show ?thesis
    by (auto simp: default_opts_def)
qed

text \<open>C7: Behind a master boot record the undo is complete: on a disk without a GPT whose MBR passes the
  checks, installing and then uninstalling with the same undo file succeeds both times and leaves the
  disk as it was.\<close>

theorem mbr_uninstall_restores:
  assumes "parse_install_args (\<lambda>n. files n \<noteq> None) (tl argv) default_opts = Inr opts"
    "io_device opts = Some name" "files name = Some disk"
    "\<not> io_uninstall_mode opts" "\<not> io_force_mbr opts" "io_uninstall_file opts = Some udf" "udf \<noteq> name"
    "image_ok img" "no_gpt disk" "9 * 512 \<le> length disk" "length disk < 2 ^ 63" "length img \<le> whole disk" "mbr_valid disk"
    "\<And>files1 :: string \<rightharpoonup> u8 list. files1 name \<noteq> None \<Longrightarrow> parse_install_args (\<lambda>n. files1 n \<noteq> None) (tl argv2) default_opts = Inr opts2"
    "io_device opts2 = Some name" "io_uninstall_mode opts2" "io_uninstall_file opts2 = Some udf"
  shows "\<exists>files1. bios_install be img rnd [] argv files = (Ret EXIT_SUCCESS, files1) \<and>
    files1 name = Some (mbr_installed be img (with_active disk)) \<and>
    bios_install be img2 rnd2 [] argv2 files1 = (Ret EXIT_SUCCESS, files1(name \<mapsto> disk))"
proof -
  have whole: "4192 \<le> whole disk" using whole_sectors [OF assms(10)] by simp
  obtain written d' where run: "install_on_device be img rnd opts files (dev_open disk []) = (Ret (EXIT_SUCCESS, written), d')"
    "dv_disk d' = mbr_installed be img (with_active disk)"
    using install_done [OF assms(4,5,8,9) whole assms(12,11), of be rnd files] assms(13) by auto
  obtain files1 where first: "bios_install be img rnd [] argv files = (Ret EXIT_SUCCESS, files1)"
    using bios_install_parsed [OF assms(1-3) run(1)] by blast
  have img: "length img < 2 ^ 64" using assms(8) by (simp add: image_ok_def)
  obtain d0 d where d: "device_init (dev_open disk []) = (True, d0)" "install_body be img rnd opts d0 = (Ret (), d)"
    "inst_inv disk d" "512 \<le> length disk" "files1 = files(name \<mapsto> dv_disk d, udf \<mapsto> undo_file be d)"
    using bios_install_success [OF assms(1-4,6) img assms(11) first] by blast
  have name: "files1 name = Some (dv_disk d)" using d(5) assms(7) by simp
  then have parse2: "parse_install_args (\<lambda>n. files1 n \<noteq> None) (tl argv2) default_opts = Inr opts2"
    using assms(14) [of files1] by simp
  have "full_log d" by (rule mbr_body_full_log [OF assms(5,8,9) whole assms(12,11,13) d(1,2)])
  then have "bios_install be img2 rnd2 [] argv2 files1 = (Ret EXIT_SUCCESS, files1(name \<mapsto> disk))"
    using second_run [OF d(3,4) assms(11) d(5) assms(7) parse2 assms(15-17), of img2 rnd2] by simp
  moreover have "files1 name = Some (mbr_installed be img (with_active disk))"
    using bios_install_parsed [OF assms(1-3) run(1)] first run(2) assms(6,7) by (auto split: option.splits)
  ultimately show ?thesis using first by blast
qed

theorem mbr_uninstall_restores_witness:
  "\<exists>files1. bios_install True (replicate 1536 7) (\<lambda>_. 0) []
      [''bios-install'', ''sda'', ''--uninstall-data-file=u''] [''sda'' \<mapsto> replicate 8192 0] = (Ret EXIT_SUCCESS, files1) \<and>
    files1 ''sda'' = Some (mbr_installed True (replicate 1536 7) (with_active (replicate 8192 0))) \<and>
    bios_install True [] (\<lambda>_. 0) []
      [''bios-install'', ''sda'', ''--uninstall'', ''--uninstall-data-file=u''] files1 =
      (Ret EXIT_SUCCESS, files1(''sda'' \<mapsto> replicate 8192 0))"
  by (rule mbr_uninstall_restores [where opts = "default_opts\<lparr>io_device := Some ''sda'', io_uninstall_file := Some ''=u''\<rparr>"
      and ?opts2.0 = "default_opts\<lparr>io_device := Some ''sda'', io_uninstall_file := Some ''=u'', io_uninstall_mode := True\<rparr>"
      and udf = "''=u''"])
     (simp_all add: default_opts_def UNINSTALL_FILE_OPT_def image_ok_def whole_def blank_disk)

end
