(* ===== verification/Limine_Gpt_Run.thy ===== *)
theory Limine_Gpt_Run
  imports Limine_Run
begin

text \<open>
  What an installation without I/O errors does to the bytes of a disk with a GUID partition table:
  into a given partition, and between the partition entries and the first usable block. The
  numbers of the tables are read from the bytes of the disk, so nothing here depends on the byte
  order of the host except where the code does.
\<close>

section \<open>The tables as bytes\<close>

text \<open>The header at byte \<open>at\<close>.\<close>

definition header_at :: "bool \<Rightarrow> u8 list \<Rightarrow> nat \<Rightarrow> gpt_table_header" where
  "header_at be v at = load_gpt_table_header be (slice_at v at 96)"

definition gpt_alternate_lba :: "u8 list \<Rightarrow> nat \<Rightarrow> nat" where
  "gpt_alternate_lba v at = le_nat (slice_at v (at + 32) 8)"

definition gpt_entry_lba :: "u8 list \<Rightarrow> nat \<Rightarrow> nat" where
  "gpt_entry_lba v at = le_nat (slice_at v (at + 72) 8)"

definition gpt_entry_count :: "u8 list \<Rightarrow> nat \<Rightarrow> nat" where
  "gpt_entry_count v at = le_nat (slice_at v (at + 80) 4)"

definition gpt_entry_size :: "u8 list \<Rightarrow> nat \<Rightarrow> nat" where
  "gpt_entry_size v at = le_nat (slice_at v (at + 84) 4)"

lemma le_nat_slice_bound: "i + n \<le> length v \<Longrightarrow> le_nat (slice_at v i n) < 256 ^ n"
  using le_nat_bound [of "slice_at v i n"] by simp

lemma header_fields:
  assumes "at + 96 \<le> length v"
  shows "unat (ENDSWAP64 be (gh_alternate_lba (header_at be v at))) = gpt_alternate_lba v at"
    "unat (ENDSWAP64 be (gh_partition_entry_lba (header_at be v at))) = gpt_entry_lba v at"
    "unat (ENDSWAP32 be (gh_number_of_partition_entries (header_at be v at))) = gpt_entry_count v at"
    "unat (ENDSWAP32 be (gh_size_of_partition_entry (header_at be v at))) = gpt_entry_size v at"
  using assms le_nat_slice_bound [of "at + 32" 8 v] le_nat_slice_bound [of "at + 72" 8 v]
    le_nat_slice_bound [of "at + 80" 4 v] le_nat_slice_bound [of "at + 84" 4 v]
  by (simp_all add: header_at_def load_gpt_table_header_def slice_slice ENDSWAP_load unat_of_nat_lt
      gpt_alternate_lba_def gpt_entry_lba_def gpt_entry_count_def gpt_entry_size_def)

lemma header_signature:
  "at + 96 \<le> length v \<Longrightarrow> gpt_signature_ok (header_at be v at) \<longleftrightarrow> slice_at v at 8 = GPT_SIGNATURE"
  by (simp add: header_at_def gpt_signature_ok_def load_gpt_table_header_def slice_slice)

text \<open>
  A disk with a table at block 1 of \<open>lb\<close> bytes, a backup where the table says, and no ISO 9660 volume,
  which would be offered for conversion.
\<close>

definition gpt_disk :: "u8 list \<Rightarrow> nat \<Rightarrow> bool" where
  "gpt_disk v lb \<longleftrightarrow> lb \<in> {512, 4096} \<and> (lb = 4096 \<longrightarrow> slice_at v 512 8 \<noteq> GPT_SIGNATURE) \<and>
     slice_at v lb 8 = GPT_SIGNATURE \<and> gpt_alternate_lba v lb * lb + 96 \<le> whole v \<and>
     slice_at v (gpt_alternate_lba v lb * lb) 8 = GPT_SIGNATURE \<and>
     32774 \<le> whole v \<and> length v < 2 ^ 63 \<and> slice_at v 32769 5 \<noteq> ISO_SIGNATURE"

text \<open>The same without a word on a volume.\<close>

definition gpt_tables :: "u8 list \<Rightarrow> nat \<Rightarrow> bool" where
  "gpt_tables v lb \<longleftrightarrow> lb \<in> {512, 4096} \<and> (lb = 4096 \<longrightarrow> slice_at v 512 8 \<noteq> GPT_SIGNATURE) \<and>
     slice_at v lb 8 = GPT_SIGNATURE \<and> gpt_alternate_lba v lb * lb + 96 \<le> whole v \<and>
     slice_at v (gpt_alternate_lba v lb * lb) 8 = GPT_SIGNATURE \<and> 32774 \<le> whole v \<and> length v < 2 ^ 63"

lemma gpt_disk_tables: "gpt_disk v lb \<longleftrightarrow> gpt_tables v lb \<and> slice_at v 32769 5 \<noteq> ISO_SIGNATURE"
  by (auto simp: gpt_disk_def gpt_tables_def)

abbreviation backup_at :: "u8 list \<Rightarrow> nat \<Rightarrow> nat" where
  "backup_at v lb \<equiv> gpt_alternate_lba v lb * lb"

section \<open>Finding the table\<close>

lemma evals_probe_gpt:
  assumes "gpt_tables v lb"
  shows "evals (probe_gpt be False lb_guesses) v i (Ret (Some (header_at be v lb, of_nat lb))) v i"
proof -
  have v: "lb = 512 \<or> lb = 4096" "lb = 4096 \<longrightarrow> slice_at v 512 8 \<noteq> GPT_SIGNATURE" "slice_at v lb 8 = GPT_SIGNATURE"
    "32774 \<le> whole v" "32774 \<le> length v"
    using assms whole_le [of v] by (auto simp: gpt_tables_def)
  then have "gpt_signature_ok (header_at be v 512) \<longleftrightarrow> lb = 512" "lb = 4096 \<Longrightarrow> gpt_signature_ok (header_at be v 4096)"
    using header_signature [of 512 v be] header_signature [of 4096 v be] by auto
  then show ?thesis
    unfolding lb_guesses_def probe_gpt.simps sizeof_gpt_table_header_def Let_def
    by (intro evals_read_bind) (use v in \<open>auto simp: evals_pret header_at_def intro!: evals_read_bind\<close>)
qed

lemma lb_product:
  assumes "lb \<in> {512, 4096}" "n * lb \<le> k" "k < 2 ^ 63"
  shows "unat (of_nat lb * x :: u64) = n * lb \<longleftrightarrow> unat (x * of_nat lb) = n * lb"
    "unat x = n \<Longrightarrow> unat (x * of_nat lb :: u64) = n * lb"
proof -
  have "unat (of_nat lb :: u64) = lb" using assms(1) by auto
  then show "unat x = n \<Longrightarrow> unat (x * of_nat lb :: u64) = n * lb"
    using assms(2,3) by (subst unat_mult_no_wrap) simp_all
qed (simp add: mult.commute)

lemma evals_find_gpt_disk:
  assumes "gpt_tables v lb"
  shows "evals (find_gpt be False) v i
    (Ret (Some (header_at be v lb, header_at be v (backup_at v lb), of_nat lb))) v i"
proof -
  have v: "lb \<in> {512, 4096}" "backup_at v lb + 96 \<le> whole v" "slice_at v (backup_at v lb) 8 = GPT_SIGNATURE"
    "length v < 2 ^ 63" "lb + 96 \<le> length v"
    using assms whole_le [of v] by (auto simp: gpt_tables_def)
  have u: "unat (of_nat lb * ENDSWAP64 be (gh_alternate_lba (header_at be v lb)) :: u64) = backup_at v lb"
    unfolding mult.commute [of "of_nat lb :: u64"]
    by (rule lb_product(2) [OF v(1) _ v(4)]) (use v whole_le [of v] header_fields [OF v(5)] in \<open>simp_all\<close>)
  have ok: "gpt_signature_ok (header_at be v (backup_at v lb))"
    using header_signature [of "backup_at v lb" v be] v whole_le [of v] by simp
  have "evals (read_secondary be (header_at be v lb) (of_nat lb)) v i (Ret (header_at be v (backup_at v lb))) v i"
    unfolding read_secondary_def sizeof_gpt_table_header_def Let_def
    by (rule evals_read_bind) (use v u ok in \<open>simp_all add: evals_pret header_at_def\<close>)
  then show ?thesis
    unfolding find_gpt_def
    by (intro evals_pbind [OF evals_probe_gpt [OF assms]], unfold option.case prod.case)
       (rule evals_pbind [OF _ evals_pret])
qed

lemma evals_install_gpt:
  assumes v: "gpt_disk v lb" and force: "\<not> io_force_mbr opts"
    and place: "evals (pbind (place_stage2 be img
        (Some (header_at be v lb, header_at be v (backup_at v lb), of_nat lb)) (io_part_ndx opts)) (write_stages be img)) v 0 r v' i'"
  shows "evals (install_body be img rnd opts) v 0 r v' i'"
proof -
  let ?gpt = "Some (header_at be v lb, header_at be v (backup_at v lb), of_nat lb :: u64)"
  have "evals (isohybrid_conversion be rnd (header_at be v lb) (of_nat lb)) v 0 (Ret True) v 0"
    unfolding isohybrid_conversion_def
    by (rule evals_read_bind) (use v in \<open>simp_all add: gpt_disk_def evals_pret\<close>)
  then have "evals (if io_gpt2mbr_allowed opts then
      pbind (isohybrid_conversion be rnd (header_at be v lb) (of_nat lb)) (\<lambda>still. pret (if still then ?gpt else None))
      else pret ?gpt) v 0 (Ret ?gpt) v 0"
    by (auto intro!: evals_if evals_pret evals_pbind [where x = True] simp: evals_pret)
  note conv = this
  show ?thesis
    unfolding install_body_def
    using force by (simp only: if_False) (rule evals_pbind [OF evals_find_gpt_disk [OF v [unfolded gpt_disk_tables, THEN conjunct1]]];
      unfold option.case prod.case; rule evals_pbind [OF conv]; simp add: evals_pbind [OF evals_pret] place)
qed

section \<open>Aligning\<close>

lemma block_mask: "lb \<in> {512, 4096} \<Longrightarrow> \<exists>k. lb = 2 ^ k \<and> (of_nat lb - 1 :: u64) = mask k \<and> k \<le> 12"
proof (elim insertE emptyE)
  assume lb: "lb = 512"
  have "(511 :: u64) = mask 9" by (simp add: mask_eq_exp_minus_1)
  with lb show ?thesis by (intro exI [of _ 9]) simp
next
  assume lb: "lb = 4096"
  have "(4095 :: u64) = mask 12" by (simp add: mask_eq_exp_minus_1)
  with lb show ?thesis by (intro exI [of _ 12]) simp
qed

lemma and_block_mask:
  assumes "lb \<in> {512, 4096}"
  shows "unat (x AND (of_nat lb - 1) :: u64) = unat x mod lb"
proof -
  obtain k where "lb = 2 ^ k" "(of_nat lb - 1 :: u64) = mask k" using block_mask [OF assms] by blast
  then show ?thesis by (simp only: take_bit_eq_mask [symmetric] unsigned_take_bit_eq) (simp only: take_bit_eq_mod)
qed

lemma unat_align_down:
  assumes "lb \<in> {512, 4096}"
  shows "unat (align_down (of_nat lb) x) = unat x div lb * lb"
proof -
  let ?m = "of_nat lb - 1 :: u64"
  have "(x AND ?m) + (x AND NOT ?m) = (x AND ?m) OR (x AND NOT ?m)"
    by (rule disjunctive_add_eq_or) (rule bit_eqI, auto simp: bit_simps)
  also have "\<dots> = x" by (rule bit_eqI) (auto simp: bit_simps)
  finally have "x AND NOT ?m = x - (x AND ?m)" by (simp add: eq_diff_eq add.commute)
  moreover have "x AND ?m \<le> x" by (rule word_and_le2)
  ultimately have "unat (align_down (of_nat lb) x) = unat x - unat x mod lb"
    using and_block_mask [OF assms, of x] by (simp add: align_down_def unat_sub)
  also have "\<dots> = unat x div lb * lb" by (rule minus_mod_eq_div_mult)
  finally show ?thesis .
qed

definition round_up :: "nat \<Rightarrow> nat \<Rightarrow> nat" where
  "round_up lb n = (n + (lb - 1)) div lb * lb"

lemma round_up_ge: "0 < lb \<Longrightarrow> n \<le> round_up lb n"
proof -
  assume "0 < lb"
  have "n + (lb - 1) = round_up lb n + (n + (lb - 1)) mod lb" by (simp add: round_up_def)
  moreover have "(n + (lb - 1)) mod lb < lb" using \<open>0 < lb\<close> by simp
  ultimately show ?thesis by linarith
qed

lemma round_up_shift: "0 < lb \<Longrightarrow> round_up lb (k * lb + n) = k * lb + round_up lb n"
  by (simp only: round_up_def add.assoc div_mult_self3 add_mult_distrib)

lemma round_up_aligned: "0 < lb \<Longrightarrow> n mod lb = 0 \<Longrightarrow> round_up lb n = n"
  using round_up_shift [of lb "n div lb" 0] div_mult_mod_eq [of n lb] by (simp add: round_up_def)

lemma round_up_other:
  assumes "0 < lb" "n mod lb \<noteq> 0"
  shows "(n + lb) div lb * lb = round_up lb n"
proof -
  have "n + (lb - 1) = (n div lb + 1) * lb + (n mod lb - 1)"
    using assms div_mult_mod_eq [of n lb] unfolding add_mult_distrib by linarith
  moreover have "n mod lb - 1 < lb" using assms(1) mod_less_divisor [of lb n] by linarith
  ultimately have "(n + (lb - 1)) div lb = n div lb + 1" using assms(1) by (simp only: div_mult_self3) simp
  with assms(1) show ?thesis by (simp add: round_up_def div_add_self2)
qed

lemma round_up_less: "0 < lb \<Longrightarrow> round_up lb n < n + lb"
proof -
  assume "0 < lb"
  then show ?thesis using div_times_less_eq_dividend [of "n + (lb - 1)" lb] unfolding round_up_def by linarith
qed

section \<open>Installing into a partition\<close>

definition entry_at :: "u8 list \<Rightarrow> nat \<Rightarrow> nat \<Rightarrow> nat" where
  "entry_at v lb k = gpt_entry_lba v lb * lb + k * gpt_entry_size v lb"

definition entry_used :: "u8 list \<Rightarrow> nat \<Rightarrow> bool" where
  "entry_used v e \<longleftrightarrow> slice_at v (e + 16) 16 \<noteq> replicate 16 0"

definition entry_start :: "u8 list \<Rightarrow> nat \<Rightarrow> nat" where
  "entry_start v e = le_nat (slice_at v (e + 32) 8)"

definition entry_end :: "u8 list \<Rightarrow> nat \<Rightarrow> nat" where
  "entry_end v e = le_nat (slice_at v (e + 40) 8)"

lemma store_zero: "store_host be k (0 :: 'a::len word) = replicate k 0"
proof -
  have "le_bytes k 0 = replicate k 0" by (induction k) simp_all
  then show ?thesis by (simp add: store_host_def)
qed

lemma load_host_zero: "length bs = 8 \<Longrightarrow> load_host be bs = (0 :: u64) \<longleftrightarrow> bs = replicate 8 0"
  using store_load_host [of 8 bs be, where 'a = 64] load_store_host [of 8 be "0 :: u64"] store_zero [of be 8, where 'a = 64]
  by auto

lemma entry_fields:
  assumes "e + 128 \<le> length v"
  shows "gpt_entry_unused (load_gpt_entry be (slice_at v e 128)) \<longleftrightarrow> \<not> entry_used v e"
    "unat (ENDSWAP64 be (ge_starting_lba (load_gpt_entry be (slice_at v e 128)))) = entry_start v e"
    "unat (ENDSWAP64 be (ge_ending_lba (load_gpt_entry be (slice_at v e 128)))) = entry_end v e"
proof -
  have "slice_at v (e + 16) 16 = slice_at v (e + 16) 8 @ slice_at v (e + 24) 8"
    using slice_append_slice [of "e + 16" 8 8 v] assms by (simp add: add.assoc)
  moreover have "replicate 16 (0 :: u8) = replicate 8 0 @ replicate 8 0"
    by (simp flip: replicate_add)
  ultimately have "entry_used v e \<longleftrightarrow> \<not> (slice_at v (e + 16) 8 = replicate 8 0 \<and> slice_at v (e + 24) 8 = replicate 8 0)"
    using assms by (simp add: entry_used_def)
  then show "gpt_entry_unused (load_gpt_entry be (slice_at v e 128)) \<longleftrightarrow> \<not> entry_used v e"
    using assms by (simp add: gpt_entry_unused_def load_gpt_entry_def slice_slice load_host_zero)
  show "unat (ENDSWAP64 be (ge_starting_lba (load_gpt_entry be (slice_at v e 128)))) = entry_start v e"
    "unat (ENDSWAP64 be (ge_ending_lba (load_gpt_entry be (slice_at v e 128)))) = entry_end v e"
    using assms le_nat_slice_bound [of "e + 32" 8 v] le_nat_slice_bound [of "e + 40" 8 v]
    by (simp_all add: load_gpt_entry_def slice_slice ENDSWAP_load unat_of_nat_lt entry_start_def entry_end_def)
qed

text \<open>Partition \<open>k\<close>, counted from 0, is in use, lies on the disk behind the boot sector and has 32 KiB.\<close>

definition partition_ok :: "u8 list \<Rightarrow> nat \<Rightarrow> nat \<Rightarrow> bool" where
  "partition_ok v lb k \<longleftrightarrow> k < gpt_entry_count v lb \<and> k * gpt_entry_size v lb < 2 ^ 32 \<and>
     entry_at v lb k + 128 \<le> whole v \<and> entry_used v (entry_at v lb k) \<and>
     0 < entry_start v (entry_at v lb k) \<and> entry_start v (entry_at v lb k) \<le> entry_end v (entry_at v lb k) \<and>
     (entry_end v (entry_at v lb k) + 1) * lb \<le> whole v \<and>
     32768 \<le> (entry_end v (entry_at v lb k) - entry_start v (entry_at v lb k) + 1) * lb"

abbreviation part_start :: "u8 list \<Rightarrow> nat \<Rightarrow> nat \<Rightarrow> nat" where
  "part_start v lb k \<equiv> entry_start v (entry_at v lb k) * lb"

abbreviation part_end :: "u8 list \<Rightarrow> nat \<Rightarrow> nat \<Rightarrow> nat" where
  "part_end v lb k \<equiv> (entry_end v (entry_at v lb k) + 1) * lb"

lemma evals_place_in_partition:
  assumes v: "gpt_disk v lb" and part: "scan_u32 part = Some n" "unat n = Suc k" "partition_ok v lb k"
    and size_a: "unat size_a = half" "half \<le> 32768"
  shows "\<exists>a b. unat a = part_start v lb k \<and> unat b = part_start v lb k + round_up lb half \<and>
    evals (place_in_partition be (header_at be v lb) (of_nat lb) size_a part) v i (Ret (a, b)) v i"
proof -
  let ?h = "header_at be v lb" and ?e = "entry_at v lb k"
  have lb: "lb \<in> {512, 4096}" "0 < lb" "unat (of_nat lb :: u64) = lb" "lb + 96 \<le> length v" "length v < 2 ^ 63"
    using v whole_le [of v] by (auto simp: gpt_disk_def)
  note h = header_fields [OF lb(4), of be]
  have p: "k < gpt_entry_count v lb" "k * gpt_entry_size v lb < 2 ^ 32" "?e + 128 \<le> whole v" "entry_used v ?e"
    "0 < entry_start v ?e" "entry_start v ?e \<le> entry_end v ?e" "(entry_end v ?e + 1) * lb \<le> whole v"
    "32768 \<le> (entry_end v ?e - entry_start v ?e + 1) * lb"
    using part(3) by (simp_all add: partition_ok_def)
  have small: "whole v < 2 ^ 63" using whole_le [of v] lb(5) by linarith
  have e: "?e + 128 \<le> length v" using p(3) whole_le [of v] by linarith
  have num: "unat (n - 1) = k" using part(2) by (simp add: unat_sub word_le_nat_alt)
  then have "\<not> n - 1 > ENDSWAP32 be (gh_number_of_partition_entries ?h)"
    using p(1) h(3) by (simp add: word_less_nat_alt)
  moreover have "unat ((n - 1) * ENDSWAP32 be (gh_size_of_partition_entry ?h)) = k * gpt_entry_size v lb"
    using p(2) h(4) num by (subst unat_mult_no_wrap) simp_all
  then have off: "unat (ucast ((n - 1) * ENDSWAP32 be (gh_size_of_partition_entry ?h)) :: u64) = k * gpt_entry_size v lb"
    using p(2) by (simp add: unsigned_ucast_eq unsigned_take_bit_eq take_bit_nat_eq_self)
  have table: "unat (ENDSWAP64 be (gh_partition_entry_lba ?h) * of_nat lb) = gpt_entry_lba v lb * lb"
    by (rule lb_product(2) [OF lb(1) _ small]) (use h(2) p(3) in \<open>simp_all add: entry_at_def\<close>)
  have loc: "unat (ENDSWAP64 be (gh_partition_entry_lba ?h) * of_nat lb +
      ucast ((n - 1) * ENDSWAP32 be (gh_size_of_partition_entry ?h))) = ?e"
    using p(3) small by (subst unat_add_no_wrap) (simp_all add: off table entry_at_def)
  define E where "E = load_gpt_entry be (slice_at v ?e 128)"
  note f = entry_fields [OF e, of be, folded E_def]
  let ?s = "ENDSWAP64 be (ge_starting_lba E)" and ?t = "ENDSWAP64 be (ge_ending_lba E)"
  have "unat (?t - ?s) = entry_end v ?e - entry_start v ?e"
    using f(2,3) p(6) by (simp add: unat_sub word_le_nat_alt)
  moreover have fits: "(entry_end v ?e - entry_start v ?e + 1) * lb \<le> whole v"
    using p(7) by (rule order_trans [rotated]) (simp add: mult_le_mono1)
  then have "entry_end v ?e - entry_start v ?e + 1 \<le> whole v" using lb(2) by (cases lb) auto
  ultimately have "unat (?t - ?s + 1) = entry_end v ?e - entry_start v ?e + 1"
    using small by (subst unat_add_no_wrap) simp_all
  with fits have "unat ((?t - ?s + 1) * of_nat lb) = (entry_end v ?e - entry_start v ?e + 1) * lb"
    by (intro lb_product(2) [OF lb(1) _ small])
  with p(8) have room: "\<not> (?t - ?s + 1) * of_nat lb < 32768" by (simp add: word_less_nat_alt)
  define a where "a = ?s * of_nat lb"
  have "entry_start v ?e * lb \<le> entry_end v ?e * lb" using p(6) by simp
  then have inside: "part_start v lb k + 32768 \<le> whole v" using p(6,7,8) by (auto simp: diff_mult_distrib)
  then have a: "unat a = part_start v lb k"
    unfolding a_def using f(2) by (intro lb_product(2) [OF lb(1) _ small]) simp_all
  have "unat (ucast size_a :: u64) = half"
    using size_a unsigned_less [of size_a, where 'a = nat]
    by (simp add: unsigned_ucast_eq unsigned_take_bit_eq take_bit_nat_eq_self)
  then have b0: "unat (a + ucast size_a) = part_start v lb k + half"
    using a inside small size_a(2) by (subst unat_add_no_wrap) simp_all
  have "lb \<le> 4096" using lb(1) by auto
  then have b1: "unat (a + ucast size_a + of_nat lb) = part_start v lb k + half + lb"
    using b0 lb(3) inside small size_a(2) by (subst unat_add_no_wrap) simp_all
  define b where "b = (if (a + ucast size_a) AND (of_nat lb - 1) \<noteq> 0 then align_down (of_nat lb) (a + ucast size_a + of_nat lb)
    else a + ucast size_a)"
  have "(a + ucast size_a) AND (of_nat lb - 1) \<noteq> 0 \<longleftrightarrow> (part_start v lb k + half) mod lb \<noteq> 0"
    using and_block_mask [OF lb(1), of "a + ucast size_a"] b0 by (simp add: word_unat_eq_iff)
  then have "unat b = round_up lb (part_start v lb k + half)"
    using b0 b1 lb(2) round_up_other [of lb "part_start v lb k + half"] round_up_aligned [of lb "part_start v lb k + half"]
    by (auto simp: b_def unat_align_down [OF lb(1)])
  then have b: "unat b = part_start v lb k + round_up lb half" by (simp only: round_up_shift [OF lb(2)])
  have "evals (place_in_partition be ?h (of_nat lb) size_a part) v i (Ret (a, b)) v i"
    unfolding place_in_partition_def part(1) option.case Let_def
    using \<open>\<not> n - 1 > _\<close> f(1) p(4) room
    by (simp only: if_False) (rule evals_read_bind;
      simp add: sizeof_gpt_entry_def loc p(3) flip: E_def;
      simp add: E_def a_def b_def evals_pret)
  with a b show ?thesis by blast
qed

section \<open>What the boot sector finds\<close>

abbreviation stage2_rest :: "u8 list \<Rightarrow> nat" where
  "stage2_rest img \<equiv> length img - (512 + half_a img)"

text \<open>
  The boot sector of \<open>r\<close> is the image's with the time stamp, disk identifier and partitions of \<open>v\<close>, it
  has the sizes and addresses of the halves of stage 2, and these are there.
\<close>

definition boots_from :: "u8 list \<Rightarrow> nat \<Rightarrow> nat \<Rightarrow> u8 list \<Rightarrow> u8 list \<Rightarrow> bool" where
  "boots_from img a b v r \<longleftrightarrow> slice_at r 440 70 = slice_at v 440 70 \<and> slice_at r 218 6 = slice_at v 218 6 \<and>
     slice_at r 0 218 = slice_at img 0 218 \<and> slice_at r 224 196 = slice_at img 224 196 \<and>
     slice_at r 510 2 = slice_at img 510 2 \<and>
     slice_at r 420 20 = le_bytes 2 (half_a img) @ le_bytes 2 (half_b img) @ le_bytes 8 a @ le_bytes 8 b \<and>
     slice_at r a (half_a img) = slice_at img 512 (half_a img) \<and>
     slice_at r b (stage2_rest img) = drop (512 + half_a img) img"

text \<open>A byte at which two disks agree.\<close>

definition same_outside :: "nat set \<Rightarrow> u8 list \<Rightarrow> u8 list \<Rightarrow> bool" where
  "same_outside X v r \<longleftrightarrow> length r = length v \<and> (\<forall>i < length v. i \<notin> X \<longrightarrow> r ! i = v ! i)"

lemma same_outside_refl: "same_outside X v v"
  by (simp add: same_outside_def)

lemma same_outside_trans: "same_outside X v u \<Longrightarrow> same_outside X u r \<Longrightarrow> same_outside X v r"
  by (simp add: same_outside_def)

lemma same_outside_mono: "same_outside X v r \<Longrightarrow> X \<subseteq> Y \<Longrightarrow> same_outside Y v r"
  by (auto simp: same_outside_def)

lemma same_outside_splice:
  "i + length ys \<le> length v \<Longrightarrow> {i..<i + length ys} \<subseteq> X \<Longrightarrow> same_outside X v (splice_at v i ys)"
  by (auto simp: same_outside_def nth_splice subset_iff)

lemma same_outside_writes:
  "writes_fit (length v) ws \<Longrightarrow> (\<forall>(buffer, loc) \<in> set ws. {unat loc..<unat loc + length buffer} \<subseteq> X) \<Longrightarrow>
   same_outside X v (apply_writes ws v)"
proof (induction ws arbitrary: v)
  case (Cons w ws)
  obtain buffer loc where w: "w = (buffer, loc)" by (cases w)
  have "same_outside X v (splice_at v (unat loc) buffer)"
    using Cons.prems by (intro same_outside_splice) (simp_all add: w)
  moreover have "same_outside X (splice_at v (unat loc) buffer) (apply_writes ws (splice_at v (unat loc) buffer))"
    using Cons.prems by (intro Cons.IH) (simp_all add: w)
  ultimately show ?case by (simp add: w same_outside_trans)
qed (simp add: same_outside_refl)

lemma same_outside_slice:
  "same_outside X v r \<Longrightarrow> i + n \<le> length v \<Longrightarrow> {i..<i + n} \<inter> X = {} \<Longrightarrow> slice_at r i n = slice_at v i n"
  by (rule nth_equalityI) (simp_all add: same_outside_def nth_slice disjoint_iff)

text \<open>The last write to a range is what is read back.\<close>

lemma slice_last_write:
  "writes_fit (length v) ws \<Longrightarrow> j < length ws \<Longrightarrow> ws ! j = (buffer, loc) \<Longrightarrow>
   \<forall>(buffer', loc') \<in> set (drop (Suc j) ws). i + k \<le> unat loc' \<or> unat loc' + length buffer' \<le> i \<Longrightarrow>
   unat loc \<le> i \<Longrightarrow> i + k \<le> unat loc + length buffer \<Longrightarrow>
   slice_at (apply_writes ws v) i k = slice_at buffer (i - unat loc) k"
proof (induction ws arbitrary: v j)
  case (Cons w ws)
  obtain buffer1 loc1 where w: "w = (buffer1, loc1)" by (cases w)
  let ?v = "splice_at v (unat loc1) buffer1"
  have len: "length ?v = length v" "writes_fit (length v) ws" using Cons.prems(1) by (simp_all add: w)
  show ?case
  proof (cases j)
    case 0
    then have fit: "unat loc + length buffer \<le> length v" "loc1 = loc" "buffer1 = buffer"
      using Cons.prems(1,3) by (simp_all add: w)
    then have "slice_at (apply_writes ws ?v) i k = slice_at ?v i k"
      using Cons.prems(4,6) len 0 by (intro slice_apply_writes [of "length v"]) simp_all
    also have "\<dots> = slice_at buffer (i - unat loc) k" using Cons.prems(5,6) fit by (simp add: slice_splice_inner)
    finally show ?thesis by (simp add: w)
  next
    case (Suc m)
    with Cons.IH [of ?v m] Cons.prems len show ?thesis by (simp add: w)
  qed
qed simp

lemma slice_at_append: "slice_at v i (m + n) = slice_at v i m @ slice_at v (i + m) n"
  by (simp add: slice_at_def take_add add.commute)

lemma staged_boots:
  assumes img: "image_ok img" and a: "512 \<le> unat a" "unat a + half_a img \<le> unat b"
    and b: "unat b + stage2_rest img \<le> length v"
  shows "boots_from img (unat a) (unat b) v (staged be img (a, b) v)"
    "same_outside ({0..<512} \<union> {unat a..<unat a + half_a img} \<union> {unat b..<unat b + stage2_rest img}) v (staged be img (a, b) v)"
proof -
  note ha = unat_stage2_size_a [OF img] and hb = unat_stage2_size_b [OF img]
  have big: "1024 \<le> length img" "length img \<le> 65536" using img by (simp_all add: image_ok_def)
  have len: "512 \<le> length v" "unat a + half_a img \<le> length v" "512 \<le> unat b" using a b by linarith+
  define A B C where "A = take 512 img" and "B = slice_at img 512 (half_a img)" and "C = drop (512 + half_a img) img"
  have parts: "length A = 512" "length B = half_a img" "length C = stage2_rest img"
    using big ha(2) by (simp_all add: A_def B_def C_def)
  define ws where "ws = [(A, 0), (B, a), (C, b), (le_bytes 2 (half_a img), 420), (le_bytes 2 (half_b img), 422),
    (le_bytes 8 (unat a), 424), (le_bytes 8 (unat b), 432), (slice_at v 218 6, 218), (slice_at v 440 70, 440)]"
  have staged: "staged be img (a, b) v = apply_writes ws v"
    by (simp add: staged_def stage_writes_cons [OF img] ha(1) hb store_ENDSWAP ws_def A_def B_def C_def)
  have fit: "writes_fit (length v) ws" using len a b parts big ha(3) by (simp add: ws_def)
  show "same_outside ({0..<512} \<union> {unat a..<unat a + half_a img} \<union> {unat b..<unat b + stage2_rest img}) v (staged be img (a, b) v)"
    unfolding staged
    by (rule same_outside_writes [OF fit]) (use len parts in \<open>simp add: ws_def; fastforce\<close>)
  let ?r = "apply_writes ws v"
  note last = slice_last_write [OF fit]
  have "slice_at ?r 0 218 = slice_at A 0 218" "slice_at ?r 224 196 = slice_at A 224 196" "slice_at ?r 510 2 = slice_at A 510 2"
    by (subst last [of 0 A 0]; use len a parts in \<open>simp add: ws_def\<close>)+
  moreover have "slice_at ?r (unat a) (half_a img) = slice_at B 0 (half_a img)"
    by (subst last [of 1 B a]; use len a parts in \<open>simp add: ws_def\<close>)
  moreover have "slice_at ?r (unat b) (stage2_rest img) = slice_at C 0 (stage2_rest img)"
    by (subst last [of 2 C b]; use len a parts in \<open>simp add: ws_def\<close>)
  moreover have "slice_at ?r 420 2 = slice_at (le_bytes 2 (half_a img)) 0 2"
    by (subst last [of 3 "le_bytes 2 (half_a img)" 420]; use len in \<open>simp add: ws_def\<close>)
  moreover have "slice_at ?r 422 2 = slice_at (le_bytes 2 (half_b img)) 0 2"
    by (subst last [of 4 "le_bytes 2 (half_b img)" 422]; use len in \<open>simp add: ws_def\<close>)
  moreover have "slice_at ?r 424 8 = slice_at (le_bytes 8 (unat a)) 0 8"
    by (subst last [of 5 "le_bytes 8 (unat a)" 424]; use len in \<open>simp add: ws_def\<close>)
  moreover have "slice_at ?r 432 8 = slice_at (le_bytes 8 (unat b)) 0 8"
    by (subst last [of 6 "le_bytes 8 (unat b)" 432]; use len in \<open>simp add: ws_def\<close>)
  moreover have "slice_at ?r 218 6 = slice_at (slice_at v 218 6) 0 6"
    by (subst last [of 7 "slice_at v 218 6" 218]; use len in \<open>simp add: ws_def\<close>)
  moreover have "slice_at ?r 440 70 = slice_at (slice_at v 440 70) 0 70"
    by (subst last [of 8 "slice_at v 440 70" 440]; use len in \<open>simp add: ws_def\<close>)
  moreover have "slice_at ?r 420 20 = slice_at ?r 420 2 @ slice_at ?r 422 2 @ slice_at ?r 424 8 @ slice_at ?r 432 8"
    using slice_at_append [of ?r 420 2 18] slice_at_append [of ?r 422 2 16] slice_at_append [of ?r 424 8 8] by simp
  moreover have "slice_at A i n = slice_at img i n" if "i + n \<le> 512" for i n
    using that big by (simp add: A_def slice_at_def drop_take min_def)
  moreover have "slice_at w 0 (length w) = w" for w :: "u8 list" by (simp add: slice_at_def)
  from this [of B] this [of C] this [of "le_bytes 2 (half_a img)"] this [of "le_bytes 2 (half_b img)"]
    this [of "le_bytes 8 (unat a)"] this [of "le_bytes 8 (unat b)"] this [of "slice_at v 218 6"] this [of "slice_at v 440 70"]
  have "slice_at B 0 (half_a img) = B" "slice_at C 0 (stage2_rest img) = C"
    "slice_at (le_bytes 2 (half_a img)) 0 2 = le_bytes 2 (half_a img)" "slice_at (le_bytes 2 (half_b img)) 0 2 = le_bytes 2 (half_b img)"
    "slice_at (le_bytes 8 (unat a)) 0 8 = le_bytes 8 (unat a)" "slice_at (le_bytes 8 (unat b)) 0 8 = le_bytes 8 (unat b)"
    "slice_at (slice_at v 218 6) 0 6 = slice_at v 218 6" "slice_at (slice_at v 440 70) 0 70 = slice_at v 440 70"
    using parts len by simp_all
  ultimately show "boots_from img (unat a) (unat b) v (staged be img (a, b) v)"
    unfolding staged boots_from_def B_def C_def by simp
qed

section \<open>The entries of the table\<close>

text \<open>One more than the number of the last entry in use, 0 when none is.\<close>

definition used_end :: "u8 list \<Rightarrow> nat \<Rightarrow> nat" where
  "used_end v lb = fold (\<lambda>k m. if entry_used v (entry_at v lb k) then Suc k else m) [0..<gpt_entry_count v lb] 0"

lemma used_fold:
  "m \<le> n \<Longrightarrow> fold (\<lambda>k m. if P k then Suc k else m) [0..<n] 0 = m \<longleftrightarrow>
     (\<forall>k. m \<le> k \<longrightarrow> k < n \<longrightarrow> \<not> P k) \<and> (0 < m \<longrightarrow> P (m - 1))"
proof (induction n arbitrary: m)
  case (Suc n)
  show ?case
  proof (cases "P n")
    case True
    then show ?thesis using Suc.prems by (cases "m = Suc n") (auto intro: exI [of _ n] simp: le_Suc_eq)
  next
    case False
    have "fold (\<lambda>k m. if P k then Suc k else m) [0..<n] 0 \<le> n" by (induction n) auto
    with False Suc show ?thesis by (cases "m = Suc n") (auto simp: less_Suc_eq le_Suc_eq)
  qed
qed simp

lemma used_end_le: "used_end v lb \<le> gpt_entry_count v lb"
proof -
  have "fold (\<lambda>k m. if P k then Suc k else m) [0..<n] 0 \<le> n" for P n by (induction n) auto
  then show ?thesis by (simp add: used_end_def)
qed

lemma unat_ucast_u32: "unat (ucast (x :: u32) :: u64) = unat x"
  using unsigned_less [of x, where 'a = nat]
  by (simp add: unsigned_ucast_eq unsigned_take_bit_eq take_bit_nat_eq_self)

lemma unat_entry_offset:
  assumes "unat (base :: u64) = table" "unat (esize :: u32) = sz" "table + k * sz < 2 ^ 64"
  shows "unat (base + of_nat k * ucast esize) = table + k * sz"
proof (cases "sz = 0")
  case True
  then have "esize = 0" using assms(2) by (simp add: unat_eq_0)
  with assms(1) True show ?thesis by simp
next
  case False
  then have "k \<le> k * sz" by simp
  then have "k < 2 ^ 64" using assms(3) by linarith
  then have "unat (of_nat k :: u64) = k" by (intro unat_of_nat_lt) simp
  then have "unat (of_nat k * ucast esize :: u64) = k * sz"
    using assms(2,3) by (subst unat_mult_no_wrap) (simp_all add: unat_ucast_u32)
  with assms(1,3) show ?thesis by (subst unat_add_no_wrap) simp_all
qed

lemma unat_table:
  assumes "at + 96 \<le> length v" "lb \<in> {512, 4096}" "gpt_entry_lba v at * lb < 2 ^ 63"
  shows "unat (ENDSWAP64 be (gh_partition_entry_lba (header_at be v at)) * of_nat lb) = gpt_entry_lba v at * lb"
  by (rule lb_product(2) [OF assms(2) _ assms(3)]) (simp_all add: header_fields(2) [OF assms(1)])

lemma evals_read_gpt_entry:
  assumes "lb + 96 \<le> length v" "lb \<in> {512, 4096}" "entry_at v lb k + 128 \<le> whole v" "length v < 2 ^ 63"
  shows "evals (read_gpt_entry be (header_at be v lb) (of_nat lb) k) v i
    (Ret (load_gpt_entry be (slice_at v (entry_at v lb k) 128))) v i"
proof -
  have small: "entry_at v lb k < 2 ^ 63" using assms(3,4) whole_le [of v] by linarith
  then have "gpt_entry_lba v lb * lb < 2 ^ 63" unfolding entry_at_def by linarith
  note table = unat_table [OF assms(1,2) this]
  have "unat (ENDSWAP64 be (gh_partition_entry_lba (header_at be v lb)) * of_nat lb +
      of_nat k * ucast (ENDSWAP32 be (gh_size_of_partition_entry (header_at be v lb)))) = entry_at v lb k"
    unfolding entry_at_def
    by (rule unat_entry_offset [OF table header_fields(4) [OF assms(1)]]) (use small in \<open>simp add: entry_at_def\<close>)
  then show ?thesis
    unfolding read_gpt_entry_def sizeof_gpt_entry_def
    by (intro evals_read_bind) (use assms(3) in \<open>simp_all add: evals_pret\<close>)
qed

lemma evals_max_entry_used:
  assumes "lb + 96 \<le> length v" "lb \<in> {512, 4096}" "length v < 2 ^ 63"
  shows "sorted_wrt (<) js \<Longrightarrow> \<forall>k \<in> set js. m \<le> k \<and> entry_at v lb k + 128 \<le> whole v \<Longrightarrow>
    evals (max_entry_used be (header_at be v lb) (of_nat lb) js (int m - 1)) v i
      (Ret (int (fold (\<lambda>k m. if entry_used v (entry_at v lb k) then Suc k else m) js m) - 1)) v i"
proof (induction js arbitrary: m)
  case (Cons k js)
  let ?m = "if entry_used v (entry_at v lb k) then Suc k else m"
  have "entry_at v lb k + 128 \<le> length v" using Cons.prems(2) whole_le [of v] by fastforce
  then have "(if \<not> gpt_entry_unused (load_gpt_entry be (slice_at v (entry_at v lb k) 128)) \<and> int k > int m - 1
      then int k else int m - 1) = int ?m - 1"
    using Cons.prems(2) entry_fields(1) [of "entry_at v lb k" v be] by auto
  moreover have "evals (max_entry_used be (header_at be v lb) (of_nat lb) js (int ?m - 1)) v i
      (Ret (int (fold (\<lambda>k m. if entry_used v (entry_at v lb k) then Suc k else m) js ?m) - 1)) v i"
    using Cons.prems by (intro Cons.IH) (auto simp: Suc_le_eq)
  ultimately show ?case
    unfolding max_entry_used.simps fold.simps comp_apply
    using Cons.prems(2) by (intro evals_pbind [OF evals_read_gpt_entry [OF assms(1,2) _ assms(3)]]) simp_all
qed (simp add: evals_pret)

section \<open>Clearing entries\<close>

definition zero_run :: "nat \<Rightarrow> nat \<Rightarrow> nat \<Rightarrow> nat \<Rightarrow> u8 list \<Rightarrow> u8 list" where
  "zero_run table sz first count v = splice_at v (table + first * sz) (replicate ((count - first) * sz) 0)"

lemma apply_zero_writes:
  assumes "\<And>k. k < count \<Longrightarrow> unat (f k) = table + k * sz" "table + count * sz \<le> length v" "first \<le> count"
  shows "apply_writes (map (\<lambda>k. (replicate sz 0, f k)) [first..<count]) v = zero_run table sz first count v"
  using assms
proof (induction count)
  case (Suc c)
  show ?case
  proof (cases "first = Suc c")
    case False
    then have le: "first \<le> c" using Suc.prems(3) by simp
    have app: "apply_writes (xs @ ys) w = apply_writes ys (apply_writes xs w)" for xs ys w
      by (simp add: apply_writes_def)
    have "table + c * sz \<le> length v" using Suc.prems(2) by simp
    then have "apply_writes (map (\<lambda>k. (replicate sz 0, f k)) [first..<c]) v = zero_run table sz first c v"
      using Suc.prems(1) le by (intro Suc.IH) simp_all
    then have "apply_writes (map (\<lambda>k. (replicate sz 0, f k)) [first..<Suc c]) v =
        splice_at (zero_run table sz first c v) (table + c * sz) (replicate sz 0)"
      using le Suc.prems(1) [of c] by (simp add: app)
    also have "table + c * sz = table + first * sz + length (replicate ((c - first) * sz) (0 :: u8))"
      using le by (simp add: diff_mult_distrib)
    also have "splice_at (zero_run table sz first c v) \<dots> (replicate sz 0) =
        splice_at v (table + first * sz) (replicate ((c - first) * sz) 0 @ replicate sz 0)"
      unfolding zero_run_def
      by (rule splice_append) (use Suc.prems(2) le in \<open>simp add: diff_mult_distrib\<close>)
    also have "\<dots> = zero_run table sz first (Suc c) v"
      using le by (simp add: zero_run_def Suc_diff_le add.commute flip: replicate_add)
    finally show ?thesis .
  qed (simp add: zero_run_def)
qed (simp add: zero_run_def)

lemma length_zero_run: "table + count * sz \<le> length v \<Longrightarrow> first \<le> count \<Longrightarrow> length (zero_run table sz first count v) = length v"
  unfolding zero_run_def
  by (rule length_splice) (simp add: diff_mult_distrib)

lemma evals_zero_entries:
  assumes h: "unat (ENDSWAP64 be (gh_partition_entry_lba h) * of_nat lb) = table"
    "unat (ENDSWAP32 be (gh_size_of_partition_entry h)) = sz" "0 < sz"
    and v: "table + count * sz \<le> whole v" "whole v < 2 ^ 63" "first \<le> count" "i \<le> 256"
  shows "evals (zero_entries be h (of_nat lb) False sz first count) v i (if i + (count - first) \<le> 256 then Ret () else Bail)
    (zero_run table sz first count v) (i + (count - first))"
proof -
  let ?ws = "map (\<lambda>k. (replicate sz (0 :: u8), ENDSWAP64 be (gh_partition_entry_lba h) * of_nat lb +
      of_nat k * ucast (ENDSWAP32 be (gh_size_of_partition_entry h)))) [first..<count]"
  have inside: "table + k * sz + sz \<le> table + count * sz" if "k < count" for k
  proof -
    have "(k + 1) * sz \<le> count * sz" using that by (intro mult_le_mono1) simp
    then show ?thesis by simp
  qed
  have loc: "unat (ENDSWAP64 be (gh_partition_entry_lba h) * of_nat lb +
      of_nat k * ucast (ENDSWAP32 be (gh_size_of_partition_entry h))) = table + k * sz" if "k < count" for k
    by (rule unat_entry_offset [OF h(1,2)]) (use inside [OF that] v(1,2) in simp)
  have "sz < 2 ^ 32" using h(2) unsigned_less [of "ENDSWAP32 be (gh_size_of_partition_entry h)", where 'a = nat] by simp
  then have fit: "writes_fit (whole v) ?ws"
    unfolding writes_fit_def using loc inside v(1) by (fastforce simp: less_le_trans)
  have "apply_writes ?ws v = zero_run table sz first count v"
    by (rule apply_zero_writes [OF loc _ v(3)]) (use v(1) whole_le [of v] in simp_all)
  moreover have solid: "[] \<notin> fst ` set ?ws" using h(3) by auto
  ultimately have "evals (write_all device_write ?ws) v i (if i + (count - first) \<le> 256 then Ret () else Bail)
      (zero_run table sz first count v) (i + (count - first))"
    using evals_write_all_count [OF fit v(4)] by simp
  then show ?thesis by (simp add: zero_entries_def Let_def h(2))
qed

section \<open>Rewriting the headers\<close>

text \<open>Storing a header with a changed field is storing it and overwriting the bytes of the field.\<close>

lemma store_header_fields:
  assumes "header_wf h"
  shows "store_gpt_table_header be (h\<lparr>gh_crc32 := x\<rparr>) = splice_at (store_gpt_table_header be h) 16 (store_host be 4 x)"
    "store_gpt_table_header be (h\<lparr>gh_number_of_partition_entries := x\<rparr>) =
      splice_at (store_gpt_table_header be h) 80 (store_host be 4 x)"
    "store_gpt_table_header be (h\<lparr>gh_partition_entry_array_crc32 := x\<rparr>) =
      splice_at (store_gpt_table_header be h) 88 (store_host be 4 x)"
proof -
  obtain a b where "gh_disk_guid h = [a, b]"
    using assms by (auto simp: header_wf_def numeral_2_eq_2 length_Suc_conv)
  with assms show "store_gpt_table_header be (h\<lparr>gh_crc32 := x\<rparr>) = splice_at (store_gpt_table_header be h) 16 (store_host be 4 x)"
    "store_gpt_table_header be (h\<lparr>gh_number_of_partition_entries := x\<rparr>) =
      splice_at (store_gpt_table_header be h) 80 (store_host be 4 x)"
    "store_gpt_table_header be (h\<lparr>gh_partition_entry_array_crc32 := x\<rparr>) =
      splice_at (store_gpt_table_header be h) 88 (store_host be 4 x)"
    by (simp_all add: store_gpt_table_header_def splice_at_def header_wf_def)
qed

text \<open>The bytes of a rewritten header, given those it had.\<close>

definition header_crc :: "u8 list \<Rightarrow> u32" where
  "header_crc bs = crc32 (take 92 (splice_at bs 16 (replicate 4 0)))"

definition new_header_bytes :: "u8 list \<Rightarrow> u32 \<Rightarrow> nat \<Rightarrow> u8 list" where
  "new_header_bytes bs array_crc count =
     (let bs = splice_at (splice_at bs 88 (le_bytes 4 (unat array_crc))) 80 (le_bytes 4 count)
      in splice_at bs 16 (le_bytes 4 (unat (header_crc bs))))"

lemma store_new_header:
  assumes len: "at + 96 \<le> length v" and count: "unat count < 2 ^ 32"
  shows "store_gpt_table_header False (new_header False (header_at False v at) array_crc count) =
    new_header_bytes (slice_at v at 96) array_crc (unat count)"
proof -
  have wf: "header_wf (header_at False v at)"
    unfolding header_at_def by (rule header_wf_load) (use len in \<open>simp add: sizeof_gpt_table_header_def\<close>)
  define h1 where "h1 = header_at False v at\<lparr>gh_partition_entry_array_crc32 := ENDSWAP32 False array_crc\<rparr>"
  define h2 where "h2 = h1\<lparr>gh_number_of_partition_entries := ucast (ENDSWAP64 False count)\<rparr>"
  have wf1: "header_wf h1" "header_wf h2" using wf by (simp_all add: h1_def h2_def header_wf_def)
  have "unat (ucast (ENDSWAP64 False count) :: u32) = unat count"
    using count by (simp add: ENDSWAP64_def unsigned_ucast_eq unsigned_take_bit_eq take_bit_nat_eq_self)
  then have b: "store_host False 4 (ucast (ENDSWAP64 False count) :: u32) = le_bytes 4 (unat count)"
    by (simp add: store_host_def)
  have b0: "store_gpt_table_header False (header_at False v at) = slice_at v at 96"
    unfolding header_at_def by (rule store_load_gpt_table_header) (use len in simp)
  define bs where "bs = splice_at (splice_at (slice_at v at 96) 88 (le_bytes 4 (unat array_crc))) 80 (le_bytes 4 (unat count))"
  have bs: "store_gpt_table_header False h2 = bs"
    unfolding h2_def store_header_fields(2) [OF wf1(1)] b
    by (simp only: h1_def store_header_fields(3) [OF wf] b0 store_ENDSWAP bs_def)
  have lbs: "length bs = 96" using len by (simp add: bs_def)
  define h3 where "h3 = h2\<lparr>gh_crc32 := 0\<rparr>"
  have h3: "header_wf h3" "store_gpt_table_header False h3 = splice_at bs 16 (replicate 4 0)"
    using wf1(2) store_header_fields(1) [OF wf1(2), of False 0] bs store_zero [of False 4, where 'a = 32]
    by (simp_all add: h3_def header_wf_def)
  have "new_header False (header_at False v at) array_crc count = h3\<lparr>gh_crc32 := ENDSWAP32 False (header_crc bs)\<rparr>"
    unfolding new_header_def Let_def h1_def [symmetric] h2_def [symmetric] h3_def [symmetric]
    by (simp add: h3(2) header_crc_def)
  then have "store_gpt_table_header False (new_header False (header_at False v at) array_crc count) =
      splice_at (splice_at bs 16 (replicate 4 0)) 16 (le_bytes 4 (unat (header_crc bs)))"
    by (simp only: store_header_fields(1) [OF h3(1)] h3(2) store_ENDSWAP)
  also have "\<dots> = splice_at bs 16 (le_bytes 4 (unat (header_crc bs)))"
    by (rule splice_splice_over) (simp_all add: lbs)
  finally show ?thesis by (simp add: new_header_bytes_def bs_def Let_def)
qed

text \<open>On a big-endian host the number of entries is lost: the wrong half of the swapped count is stored.\<close>

lemma take_le_bytes: "j \<le> k \<Longrightarrow> take j (le_bytes k n) = le_bytes j n"
proof (induction k arbitrary: j n)
  case (Suc k)
  then show ?case by (cases j) simp_all
qed simp

lemma drop_le_bytes: "drop j (le_bytes k n) = le_bytes (k - j) (n div 256 ^ j)"
proof (induction j arbitrary: k n)
  case (Suc j)
  then show ?case by (cases k) (simp_all add: div_mult2_eq)
qed simp

lemma le_nat_zeros: "le_nat (replicate k 0) = 0"
  by (induction k) simp_all

lemma new_header_big_endian:
  assumes "unat count < 2 ^ 32"
  shows "gh_number_of_partition_entries (new_header True h array_crc count) = 0"
proof -
  have "le_bytes 4 (unat (endswap64 count)) = take 4 (rev (le_bytes 8 (unat count)))"
    by (simp add: take_le_bytes flip: endswap_reverses(3))
  also have "\<dots> = rev (drop 4 (le_bytes 8 (unat count)))" by (simp add: take_rev)
  also have "\<dots> = rev (le_bytes 4 0)" using assms by (simp add: drop_le_bytes)
  also have "\<dots> = replicate 4 0" using store_zero [of False 4, where 'a = 32] by (simp add: store_host_def)
  finally have "unat (endswap64 count) mod 256 ^ 4 = le_nat (replicate 4 0)"
    using le_nat_le_bytes [of 4 "unat (endswap64 count)"] by simp
  then have "unat (endswap64 count) mod 2 ^ 32 = 0" by (simp add: le_nat_zeros)
  then have "(ucast (endswap64 count) :: u32) = 0"
    by (simp add: word_unat_eq_iff unsigned_ucast_eq unsigned_take_bit_eq take_bit_eq_mod)
  then show ?thesis by (simp add: new_header_def Let_def ENDSWAP64_def)
qed

lemma evals_fault_bind: "evals (f False) v i r v' i' \<Longrightarrow> evals (pbind fault f) v i r v' i'"
  by (rule evals_pbind [where x = False and ?v1.0 = v and ?i1.0 = i])
     (simp_all add: evals_def fault_def holds_def dev_ok_no_fault)

lemma evals_allocate_bind: "evals (f ()) v i r v' i' \<Longrightarrow> evals (pbind allocate f) v i r v' i'"
  by (rule evals_pbind [where x = "()" and ?v1.0 = v and ?i1.0 = i])
     (simp_all add: evals_def allocate_def holds_def dev_ok_no_fault)

lemma length_new_header_bytes: "length bs = 96 \<Longrightarrow> length (new_header_bytes bs c n) = 96"
  by (simp add: new_header_bytes_def Let_def)

lemma evals_write_header:
  assumes len: "at + 96 \<le> length v0" and count: "unat count < 2 ^ 32"
    and loc: "unat loc = at" "at + 96 \<le> whole v"
  shows "evals (write_header False (new_header False (header_at False v0 at) array_crc count) loc) v i
    (if i < 256 then Ret () else Bail) (splice_at v at (new_header_bytes (slice_at v0 at 96) array_crc (unat count))) (i + 1)"
  using evals_write [of loc 96 v "new_header_bytes (slice_at v0 at 96) array_crc (unat count)" i] evals_write_full [of i] loc len
  by (simp add: write_header_def store_new_header [OF len count] sizeof_gpt_table_header_def length_new_header_bytes)

text \<open>Both tables of \<open>v\<close> rewritten to \<open>count\<close> entries, those from \<open>first\<close> on cleared.\<close>

definition cleared :: "u8 list \<Rightarrow> nat \<Rightarrow> nat \<Rightarrow> nat \<Rightarrow> u8 list" where
  "cleared v lb first count =
     zero_run (gpt_entry_lba v (backup_at v lb) * lb) (gpt_entry_size v lb) first count
       (zero_run (gpt_entry_lba v lb * lb) (gpt_entry_size v lb) first count v)"

definition new_array_crc :: "u8 list \<Rightarrow> nat \<Rightarrow> nat \<Rightarrow> nat \<Rightarrow> u32" where
  "new_array_crc v lb first count =
     crc32 (slice_at (cleared v lb first count) (gpt_entry_lba v lb * lb) (count * gpt_entry_size v lb))"

definition rewritten :: "u8 list \<Rightarrow> nat \<Rightarrow> nat \<Rightarrow> nat \<Rightarrow> u8 list" where
  "rewritten v lb first count =
     splice_at (splice_at (cleared v lb first count)
       lb (new_header_bytes (slice_at v lb 96) (new_array_crc v lb first count) count))
       (backup_at v lb) (new_header_bytes (slice_at v (backup_at v lb) 96) (new_array_crc v lb first count) count)"

lemma evals_rewrite_tables:
  assumes v: "gpt_disk v lb" and sz: "gpt_entry_size v (backup_at v lb) = gpt_entry_size v lb" "0 < gpt_entry_size v lb"
    and tables: "gpt_entry_lba v lb * lb + unat count * gpt_entry_size v lb \<le> whole v"
      "gpt_entry_lba v (backup_at v lb) * lb + unat count * gpt_entry_size v lb \<le> whole v"
    and count: "unat count < 2 ^ 32" "first \<le> unat count" "i \<le> 256"
  shows "evals (rewrite_tables False (header_at False v lb) (header_at False v (backup_at v lb)) (of_nat lb) (int first - 1) count)
    v i (if i + 2 * (unat count - first) + 2 \<le> 256 then Ret () else Bail)
    (rewritten v lb first (unat count)) (i + 2 * (unat count - first) + 2)"
proof -
  let ?h = "header_at False v lb" and ?s = "header_at False v (backup_at v lb)" and ?n = "unat count" and ?k = "unat count - first"
  have lb: "lb \<in> {512, 4096}" "unat (of_nat lb :: u64) = lb" "lb + 96 \<le> whole v" "backup_at v lb + 96 \<le> whole v" "whole v < 2 ^ 63"
    using v whole_le [of v] by (auto simp: gpt_disk_def)
  have at: "lb + 96 \<le> length v" "backup_at v lb + 96 \<le> length v" using lb whole_le [of v] by linarith+
  have "gpt_entry_lba v lb * lb < 2 ^ 63" "gpt_entry_lba v (backup_at v lb) * lb < 2 ^ 63"
    using tables lb(5) by linarith+
  note table = unat_table [OF at(1) lb(1) this(1), of False] unat_table [OF at(2) lb(1) this(2), of False]
  note size = header_fields(4) [OF at(1), of False] header_fields(4) [OF at(2), of False, unfolded sz(1)]
  define v1 where "v1 = zero_run (gpt_entry_lba v lb * lb) (gpt_entry_size v lb) first ?n v"
  have len1: "length v1 = length v"
    unfolding v1_def by (rule length_zero_run [OF _ count(2)]) (use tables(1) whole_le [of v] in linarith)
  have len2: "length (cleared v lb first ?n) = length v"
    unfolding cleared_def v1_def [symmetric]
    by (subst length_zero_run [OF _ count(2)]) (use len1 tables(2) whole_le [of v] in linarith)+
  note w = whole_cong [OF len1] whole_cong [OF len2]
  have z1: "evals (zero_entries False ?h (of_nat lb) False (gpt_entry_size v lb) first ?n) v i
      (if i + ?k \<le> 256 then Ret () else Bail) v1 (i + ?k)"
    unfolding v1_def by (rule evals_zero_entries [OF table(1) size(1) sz(2) tables(1) lb(5) count(2,3)])
  have z2: "evals (zero_entries False ?s (of_nat lb) False (gpt_entry_size v lb) first ?n) v1 (i + ?k)
      (if i + ?k + ?k \<le> 256 then Ret () else Bail) (cleared v lb first ?n) (i + ?k + ?k)" if "i + ?k \<le> 256"
    unfolding cleared_def v1_def [symmetric]
    by (rule evals_zero_entries [OF table(2) size(2) sz(2) _ _ count(2) that]) (use tables(2) lb(5) w in linarith)+
  have "unat (count * ucast (ENDSWAP32 False (gh_size_of_partition_entry ?h))) = ?n * gpt_entry_size v lb"
    by (subst unat_mult_no_wrap) (use tables(1) lb(5) in \<open>simp_all add: unat_ucast_u32 size\<close>)
  note read = this
  define u where "u = splice_at (cleared v lb first ?n) lb (new_header_bytes (slice_at v lb 96) (new_array_crc v lb first ?n) ?n)"
  have "length u = length v"
    unfolding u_def by (subst length_splice) (use len2 at in \<open>simp_all add: length_new_header_bytes\<close>)
  note wu = whole_cong [OF this]
  have h1: "evals (write_header False (new_header False ?h (new_array_crc v lb first ?n) count) (of_nat lb))
      (cleared v lb first ?n) (i + ?k + ?k) (if i + ?k + ?k < 256 then Ret () else Bail) u (i + ?k + ?k + 1)"
    unfolding u_def by (rule evals_write_header [OF at(1) count(1) lb(2)]) (use lb(3) w(2) in linarith)
  have loc: "unat (of_nat lb * ENDSWAP64 False (gh_alternate_lba ?h)) = backup_at v lb"
    unfolding mult.commute [of "of_nat lb :: u64"]
    by (rule lb_product(2) [OF lb(1) _ lb(5)]) (use lb(4) header_fields(1) [OF at(1), of False] in simp_all)
  have h2: "evals (write_header False (new_header False ?s (new_array_crc v lb first ?n) count)
        (of_nat lb * ENDSWAP64 False (gh_alternate_lba ?h)))
      u (i + ?k + ?k + 1) (if i + ?k + ?k + 1 < 256 then Ret () else Bail) (rewritten v lb first ?n) (i + ?k + ?k + 1 + 1)"
    unfolding rewritten_def u_def [symmetric]
    by (rule evals_write_header [OF at(2) count(1) loc]) (use lb(4) wu in linarith)
  have read_back: "evals (pbind (device_read (ENDSWAP64 False (gh_partition_entry_lba ?h) * of_nat lb)
        (count * ucast (ENDSWAP32 False (gh_size_of_partition_entry ?h)))) (\<lambda>partition_array.
      pbind (write_header False (new_header False ?h (crc32 partition_array) count) (of_nat lb)) (\<lambda>_.
        write_header False (new_header False ?s (crc32 partition_array) count)
          (of_nat lb * ENDSWAP64 False (gh_alternate_lba ?h)))))
      (cleared v lb first ?n) (i + ?k + ?k)
      (if i + ?k + ?k < 256 \<and> i + ?k + ?k + 1 < 256 then Ret () else Bail) (rewritten v lb first ?n) (i + ?k + ?k + 1 + 1)"
    by (rule evals_read_bind)
       (use tables(1) w evals_pbind_count [OF h1 h2] in \<open>simp_all add: read table(1) flip: new_array_crc_def\<close>)
  have first: "nat (int first - 1 + 1) = first" by simp
  have "evals (rewrite_tables False ?h ?s (of_nat lb) (int first - 1) count) v i
      (if i + ?k \<le> 256 \<and> i + ?k + ?k \<le> 256 \<and> i + ?k + ?k < 256 \<and> i + ?k + ?k + 1 < 256 then Ret () else Bail)
      (rewritten v lb first ?n) (i + ?k + ?k + 1 + 1)"
    unfolding rewrite_tables_def Let_def first size(1)
    by (intro evals_fault_bind evals_pbind_count [OF z1] evals_pbind_count [OF z2] evals_allocate_bind read_back) 
  moreover have "(i + ?k \<le> 256 \<and> i + ?k + ?k \<le> 256 \<and> i + ?k + ?k < 256 \<and> i + ?k + ?k + 1 < 256) = (i + 2 * ?k + 2 \<le> 256)"
    by auto
  moreover have "i + ?k + ?k + 1 + 1 = i + 2 * ?k + 2" by simp
  ultimately show ?thesis by (simp only:)
qed

section \<open>Placing the halves behind the entries\<close>

definition blocks_of :: "nat \<Rightarrow> nat \<Rightarrow> nat" where
  "blocks_of lb n = (n + (lb - 1)) div lb"

text \<open>The entries that remain in each table, and where the halves go.\<close>

definition embed_count :: "u8 list \<Rightarrow> u8 list \<Rightarrow> nat \<Rightarrow> nat" where
  "embed_count img v lb = (32 - blocks_of lb (half_a img)) * (lb div gpt_entry_size v lb)"

definition embed_a :: "u8 list \<Rightarrow> u8 list \<Rightarrow> nat \<Rightarrow> nat" where
  "embed_a img v lb = (gpt_entry_lba v lb + (32 - blocks_of lb (half_a img))) * lb"

definition embed_b :: "u8 list \<Rightarrow> u8 list \<Rightarrow> nat \<Rightarrow> nat" where
  "embed_b img v lb = (gpt_entry_lba v (backup_at v lb) + (32 - blocks_of lb (half_b img))) * lb"

lemma blocks_of_bounds:
  assumes "0 < lb" "n \<le> 32 * lb"
  shows "n \<le> blocks_of lb n * lb" "blocks_of lb n * lb < n + lb" "blocks_of lb n \<le> 32"
proof -
  show "n \<le> blocks_of lb n * lb" using round_up_ge [OF assms(1), of n] by (simp add: round_up_def blocks_of_def)
  show b: "blocks_of lb n * lb < n + lb"
    using round_up_less [OF assms(1), of n] by (simp add: round_up_def blocks_of_def)
  show "blocks_of lb n \<le> 32"
  proof (rule ccontr)
    assume "\<not> blocks_of lb n \<le> 32"
    then have "33 * lb \<le> blocks_of lb n * lb" by (intro mult_le_mono1) simp
    with b assms(2) show False by linarith
  qed
qed

lemma unat_embed_loc:
  assumes lb: "lb \<in> {512, 4096}" and e: "unat e = E" "(E + 32) * lb < 2 ^ 63" and h: "unat (esize :: u16) = half" "half \<le> 32 * lb"
  shows "unat (align_down (of_nat lb) ((e + 32) * of_nat lb - ucast esize)) = (E + (32 - blocks_of lb half)) * lb"
proof -
  have lb0: "0 < lb" "unat (of_nat lb :: u64) = lb" using lb by auto
  have "E + 32 \<le> (E + 32) * lb" using lb0(1) by simp
  then have "E + 32 < 2 ^ 63" using e(2) by linarith
  then have "unat (e + 32) = E + 32" using e(1) by (subst unat_add_no_wrap) simp_all
  then have top: "unat ((e + 32) * of_nat lb) = (E + 32) * lb" by (rule lb_product(2) [OF lb order_refl e(2)])
  have u: "unat (ucast esize :: u64) = half"
    using h(1) unsigned_less [of esize, where 'a = nat]
    by (simp add: unsigned_ucast_eq unsigned_take_bit_eq take_bit_nat_eq_self)
  have le: "half \<le> (E + 32) * lb" using h(2) by (simp add: add_mult_distrib)
  then have diff: "unat ((e + 32) * of_nat lb - ucast esize) = (E + 32) * lb - half"
    using top u by (subst unat_sub) (simp_all add: word_le_nat_alt)
  let ?q = "blocks_of lb half"
  note q = blocks_of_bounds [OF lb0(1) h(2)]
  have "(E + (32 - ?q)) * lb + ?q * lb = (E + 32) * lb"
    unfolding add_mult_distrib [symmetric] using q(3) by simp
  then have "(E + 32) * lb - half = (?q * lb - half) + (E + (32 - ?q)) * lb" using q(1) by linarith
  moreover have "?q * lb - half < lb" using q(2) lb0(1) by linarith
  ultimately have "((E + 32) * lb - half) div lb = E + (32 - ?q)"
    using lb0(1) by (simp only: div_mult_self1 [OF less_imp_neq [OF lb0(1), symmetric]] div_less add_0)
  then show ?thesis by (simp only: unat_align_down [OF lb] diff)
qed

lemma sint_small: "unat (w :: u64) < 2 ^ 63 \<Longrightarrow> sint w = int (unat w)"
proof -
  assume "unat w < 2 ^ 63"
  then have "int (unat w) < 2 ^ 63" by (simp only: flip: of_nat_less_iff [where 'a = int]) (simp only: of_nat_power of_nat_numeral)
  then have "signed_take_bit 63 (int (unat w)) = int (unat w)"
    by (intro signed_take_bit_int_eq_self) (simp_all only: order_trans [OF _ of_nat_0_le_iff] neg_le_0_iff_le zero_le_power zero_le_numeral)
  moreover have "sint w = signed_take_bit 63 (int (unat w))" by (simp add: sint_uint)
  ultimately show ?thesis by (rule trans [rotated])
qed

text \<open>
  What the tables have to look like: both with entries of the same size, the used ones on the disk
  and equal, and 32 blocks each behind the headers and apart from one another.
\<close>

definition embeddable :: "u8 list \<Rightarrow> nat \<Rightarrow> bool" where
  "embeddable v lb \<longleftrightarrow> gpt_disk v lb \<and>
     128 \<le> gpt_entry_size v lb \<and> gpt_entry_size v lb dvd lb \<and> gpt_entry_size v (backup_at v lb) = gpt_entry_size v lb \<and>
     gpt_entry_lba v lb * lb + gpt_entry_count v lb * gpt_entry_size v lb \<le> whole v \<and>
     2 \<le> gpt_entry_lba v lb \<and> gpt_entry_lba v lb + 32 \<le> gpt_entry_lba v (backup_at v lb) \<and>
     gpt_entry_lba v (backup_at v lb) + 32 \<le> gpt_alternate_lba v lb"

lemma embed_count_array:
  "embeddable v lb \<Longrightarrow> embed_count img v lb * gpt_entry_size v lb = (32 - blocks_of lb (half_a img)) * lb"
  by (auto simp: embeddable_def embed_count_def)

lemma evals_embed_tables:
  assumes v: "embeddable v lb" and img: "image_ok img" "half_a img \<le> 32 * lb"
  defines "first \<equiv> used_end v lb" and "count \<equiv> embed_count img v lb"
  assumes r: "first \<le> count \<Longrightarrow> \<forall>n. unat n = count \<longrightarrow>
      evals (rewrite_tables be (header_at be v lb) (header_at be v (backup_at v lb)) (of_nat lb) (int first - 1) n) v 0 (r :: unit outcome) v' i'"
    and r2: "r = Bail \<or> r = Ret ()"
  shows "\<exists>a b. unat a = embed_a img v lb \<and> unat b = embed_b img v lb \<and>
    evals (embed_in_gpt be (header_at be v lb) (header_at be v (backup_at v lb)) (of_nat lb)
      (stage2_size_a (image_stage2_size img)) (stage2_size_b (image_stage2_size img))) v 0
      (if first \<le> count \<and> r = Ret () then Ret (a, b) else Bail) v' i'"
proof -
  let ?h = "header_at be v lb" and ?s = "header_at be v (backup_at v lb)" and ?sz = "gpt_entry_size v lb"
  have disk: "gpt_disk v lb" and t: "128 \<le> ?sz" "?sz dvd lb" "gpt_entry_lba v lb * lb + gpt_entry_count v lb * ?sz \<le> whole v"
    "gpt_entry_lba v lb + 32 \<le> gpt_entry_lba v (backup_at v lb)" "gpt_entry_lba v (backup_at v lb) + 32 \<le> gpt_alternate_lba v lb"
    using v by (simp_all add: embeddable_def)
  have lb: "lb \<in> {512, 4096}" "unat (of_nat lb :: u64) = lb" "lb + 96 \<le> length v" "backup_at v lb + 96 \<le> whole v" "length v < 2 ^ 63" "0 < lb"
    using disk whole_le [of v] by (auto simp: gpt_disk_def)
  have at2: "backup_at v lb + 96 \<le> length v" using lb(4) whole_le [of v] by linarith
  note h = header_fields [OF lb(3), of be] and s = header_fields [OF at2, of be]
  have "(gpt_entry_lba v (backup_at v lb) + 32) * lb \<le> backup_at v lb" using t(5) by (rule mult_le_mono1)
  then have low2: "(gpt_entry_lba v (backup_at v lb) + 32) * lb < 2 ^ 63" using at2 lb(5) by linarith
  have "(gpt_entry_lba v lb + 32) * lb \<le> (gpt_entry_lba v (backup_at v lb) + 32) * lb"
    using t(4) by (intro mult_le_mono1) linarith
  then have low1: "(gpt_entry_lba v lb + 32) * lb < 2 ^ 63" using low2 by linarith
  have "half_b img \<le> half_a img" unfolding half_a_def half_b_def by (intro mult_le_mono1 div_le_mono) simp
  then have hb: "half_b img \<le> 32 * lb" using img(2) by linarith
  note sa = unat_stage2_size_a(1) [OF img(1)] and sb = unat_stage2_size_b [OF img(1)]
  define a where "a = align_down (of_nat lb) ((ENDSWAP64 be (gh_partition_entry_lba ?h) + 32) * of_nat lb -
    ucast (stage2_size_a (image_stage2_size img)))"
  define b where "b = align_down (of_nat lb) ((ENDSWAP64 be (gh_partition_entry_lba ?s) + 32) * of_nat lb -
    ucast (stage2_size_b (image_stage2_size img)))"
  have a: "unat a = embed_a img v lb" unfolding a_def embed_a_def by (rule unat_embed_loc [OF lb(1) h(2) low1 sa img(2)])
  have b: "unat b = embed_b img v lb" unfolding b_def embed_b_def by (rule unat_embed_loc [OF lb(1) s(2) low2 sb hb])
  define n where "n = (a div of_nat lb - ENDSWAP64 be (gh_partition_entry_lba ?h)) *
    (of_nat lb div ucast (ENDSWAP32 be (gh_size_of_partition_entry ?h)))"
  have "unat (a div of_nat lb) = gpt_entry_lba v lb + (32 - blocks_of lb (half_a img))"
    using a lb(2,6) by (simp add: unat_div embed_a_def)
  then have new: "unat (a div of_nat lb - ENDSWAP64 be (gh_partition_entry_lba ?h)) = 32 - blocks_of lb (half_a img)"
    using h(2) by (subst unat_sub) (simp_all add: word_le_nat_alt)
  have per: "unat (of_nat lb div ucast (ENDSWAP32 be (gh_size_of_partition_entry ?h)) :: u64) = lb div ?sz"
    by (simp add: unat_div lb(2) unat_ucast_u32 h(4))
  have "lb \<le> 4096" using lb(1) by auto
  then have "lb div ?sz \<le> 4096" by (rule order_trans [OF div_le_dividend])
  then have "(32 - blocks_of lb (half_a img)) * (lb div ?sz) \<le> 32 * 4096" by (intro mult_le_mono) simp_all
  then have n2: "count \<le> 131072" by (simp add: count_def embed_count_def)
  then have n: "unat n = count"
    unfolding n_def count_def embed_count_def by (subst unat_mult_no_wrap) (simp_all add: new per)
  then have sn: "sint n = int count" using n2 by (subst sint_small) simp_all
  have "entry_at v lb k + 128 \<le> whole v" if "k < gpt_entry_count v lb" for k
  proof -
    have "(k + 1) * ?sz \<le> gpt_entry_count v lb * ?sz" using that by (intro mult_le_mono1) simp
    then show ?thesis using t(1,3) by (simp add: entry_at_def)
  qed
  then have "evals (max_entry_used be ?h (of_nat lb) [0..<gpt_entry_count v lb] (int 0 - 1)) v 0 (Ret (int first - 1)) v 0"
    unfolding first_def used_end_def
    by (intro evals_max_entry_used [OF lb(3,1,5)]) simp_all
  then have used: "evals (max_entry_used be ?h (of_nat lb) [0..<unat (ENDSWAP32 be (gh_number_of_partition_entries ?h))] (-1)) v 0
      (Ret (int first - 1)) v 0" by (simp add: h(3))
  have "unat (ucast (ENDSWAP32 be (gh_size_of_partition_entry ?h)) :: u64) \<noteq> 0" using t(1) by (simp add: unat_ucast_u32 h(4))
  then have nz: "(ucast (ENDSWAP32 be (gh_size_of_partition_entry ?h)) :: u64) \<noteq> 0" by auto
  have "evals (if sint n \<le> int first - 1 then pbail else pbind (rewrite_tables be ?h ?s (of_nat lb) (int first - 1) n) (\<lambda>_. pret (a, b)))
      v 0 (if first \<le> count \<and> r = Ret () then Ret (a, b) else Bail) v' i'"
  proof (cases "first \<le> count")
    case True
    then have rw: "evals (rewrite_tables be ?h ?s (of_nat lb) (int first - 1) n) v 0 r v' i'" using r n by blast
    from r2 show ?thesis
    proof
      assume "r = Bail"
      with rw True sn show ?thesis by (simp add: evals_pbind_bail)
    next
      assume "r = Ret ()"
      with rw have "evals (pbind (rewrite_tables be ?h ?s (of_nat lb) (int first - 1) n) (\<lambda>_. pret (a, b))) v 0 (Ret (a, b)) v' i'"
        by (auto intro: evals_pbind evals_pret)
      with True sn \<open>r = Ret ()\<close> show ?thesis by simp
    qed
  next
    case False
    then show ?thesis using sn by (simp add: evals_pbail)
  qed
  then have "evals (embed_in_gpt be ?h ?s (of_nat lb) (stage2_size_a (image_stage2_size img)) (stage2_size_b (image_stage2_size img)))
      v 0 (if first \<le> count \<and> r = Ret () then Ret (a, b) else Bail) v' i'"
    unfolding embed_in_gpt_def Let_def
    by (intro evals_pbind [OF used]) (simp only: nz if_False a_def [symmetric] b_def [symmetric] n_def [symmetric])
  with a b show ?thesis by blast
qed

section \<open>The rewritten tables\<close>

text \<open>
  The checksums of the table whose header is at byte \<open>at\<close>: that of the 92 bytes of the header, with
  its own field taken as zero, and that of the entries.
\<close>

definition table_valid :: "u8 list \<Rightarrow> nat \<Rightarrow> nat \<Rightarrow> bool" where
  "table_valid r lb at \<longleftrightarrow>
     slice_at r (at + 16) 4 = le_bytes 4 (unat (crc32 (slice_at r at 16 @ replicate 4 0 @ slice_at r (at + 20) 72))) \<and>
     slice_at r (at + 88) 4 = le_bytes 4 (unat (crc32
       (slice_at r (gpt_entry_lba r at * lb) (gpt_entry_count r at * gpt_entry_size r at))))"

lemma new_header_slices:
  fixes c :: u32 and count :: nat
  assumes "length bs = 96"
  defines "nb \<equiv> new_header_bytes bs c count"
  shows "slice_at nb 0 8 = slice_at bs 0 8" "slice_at nb 32 8 = slice_at bs 32 8" "slice_at nb 72 8 = slice_at bs 72 8"
    "slice_at nb 80 4 = le_bytes 4 count" "slice_at nb 84 4 = slice_at bs 84 4" "slice_at nb 88 4 = le_bytes 4 (unat c)"
    "slice_at nb 16 4 = le_bytes 4 (unat (crc32 (slice_at nb 0 16 @ replicate 4 0 @ slice_at nb 20 72)))"
proof -
  define m where "m = splice_at (splice_at bs 88 (le_bytes 4 (unat c))) 80 (le_bytes 4 count)"
  have len: "length m = 96" using assms(1) by (simp add: m_def)
  have nb: "nb = splice_at m 16 (le_bytes 4 (unat (header_crc m)))" by (simp add: nb_def new_header_bytes_def m_def Let_def)
  show "slice_at nb 0 8 = slice_at bs 0 8" "slice_at nb 32 8 = slice_at bs 32 8" "slice_at nb 72 8 = slice_at bs 72 8"
    "slice_at nb 80 4 = le_bytes 4 count" "slice_at nb 84 4 = slice_at bs 84 4" "slice_at nb 88 4 = le_bytes 4 (unat c)"
    using assms(1) by (simp_all add: nb m_def slice_splice_other)
  have "take 92 (splice_at m 16 (replicate 4 0)) = slice_at m 0 16 @ replicate 4 0 @ slice_at m 20 72"
    using len by (simp add: splice_at_def slice_at_def min_def)
  moreover have "slice_at nb 0 16 = slice_at m 0 16" "slice_at nb 20 72 = slice_at m 20 72"
    using len by (simp_all add: nb slice_splice_other)
  ultimately show "slice_at nb 16 4 = le_bytes 4 (unat (crc32 (slice_at nb 0 16 @ replicate 4 0 @ slice_at nb 20 72)))"
    using len by (simp add: nb header_crc_def)
qed

text \<open>A disk on which a header has been replaced and its entries are given.\<close>

lemma table_valid_new:
  assumes len: "at + 96 \<le> length v" "length r = length v"
    and header: "slice_at r at 96 = new_header_bytes (slice_at v at 96) (crc32 entries) count"
    and count: "count < 2 ^ 32"
    and array: "slice_at r (gpt_entry_lba v at * lb) (count * gpt_entry_size v at) = entries"
  shows "table_valid r lb at" "gpt_entry_count r at = count" "gpt_entry_lba r at = gpt_entry_lba v at"
    "gpt_entry_size r at = gpt_entry_size v at" "gpt_alternate_lba r at = gpt_alternate_lba v at"
    "slice_at r at 8 = slice_at v at 8"
proof -
  have sub: "slice_at r (at + j) n = slice_at (slice_at r at 96) j n" "slice_at v (at + j) n = slice_at (slice_at v at 96) j n"
    if "j + n \<le> 96" for j n using that len by (simp_all add: slice_slice)
  have "length (slice_at v at 96) = 96" using len by simp
  note nb = new_header_slices [OF this, of "crc32 entries" count, folded header]
  show lba: "gpt_entry_lba r at = gpt_entry_lba v at" and sz: "gpt_entry_size r at = gpt_entry_size v at"
    and "gpt_alternate_lba r at = gpt_alternate_lba v at"
    using nb(2,3,5) by (simp_all add: gpt_entry_lba_def gpt_entry_size_def gpt_alternate_lba_def sub)
  show cnt: "gpt_entry_count r at = count"
    using nb(4) count by (simp add: gpt_entry_count_def sub le_nat_le_bytes)
  show "slice_at r at 8 = slice_at v at 8" using nb(1) sub [of 0 8] by simp
  have "slice_at r (at + 88) 4 = le_bytes 4 (unat (crc32 entries))" using nb(6) by (simp add: sub)
  moreover have "slice_at r at 16 = slice_at (slice_at r at 96) 0 16" "slice_at r (at + 20) 72 = slice_at (slice_at r at 96) 20 72"
    using sub(1) [of 0 16] sub(1) [of 20 72] by simp_all
  ultimately show "table_valid r lb at"
    using nb(7) unfolding table_valid_def lba sz cnt array by (simp add: sub)
qed

lemma slice_zero_run:
  assumes "table + count * sz \<le> length v" "first \<le> count"
  shows "slice_at (zero_run table sz first count v) table (count * sz) =
    slice_at v table (first * sz) @ replicate ((count - first) * sz) 0"
proof -
  have le: "first * sz + (count - first) * sz = count * sz"
    using assms(2) by (simp flip: add_mult_distrib)
  then have fit: "table + first * sz + (count - first) * sz \<le> length v" using assms(1) by linarith
  have "slice_at (zero_run table sz first count v) table (first * sz + (count - first) * sz) =
      slice_at (zero_run table sz first count v) table (first * sz) @
      slice_at (zero_run table sz first count v) (table + first * sz) ((count - first) * sz)"
    by (rule slice_at_append)
  then show ?thesis
    using fit by (simp add: le zero_run_def slice_splice_other)
qed

lemma slice_zero_run_other:
  assumes "table + count * sz \<le> length v" "first \<le> count" "j + n \<le> length v" "j + n \<le> table \<or> table + count * sz \<le> j"
  shows "slice_at (zero_run table sz first count v) j n = slice_at v j n"
proof -
  have "first * sz + (count - first) * sz = count * sz"
    using assms(2) by (simp flip: add_mult_distrib)
  then show ?thesis
    unfolding zero_run_def using assms by (intro slice_splice_other) auto
qed

abbreviation table_at :: "u8 list \<Rightarrow> nat \<Rightarrow> nat" where
  "table_at v lb \<equiv> gpt_entry_lba v lb * lb"

abbreviation backup_table_at :: "u8 list \<Rightarrow> nat \<Rightarrow> nat" where
  "backup_table_at v lb \<equiv> gpt_entry_lba v (backup_at v lb) * lb"

lemma table_layout:
  assumes "embeddable v lb"
  shows "512 \<le> lb" "lb + 96 \<le> table_at v lb" "table_at v lb + 32 * lb \<le> backup_table_at v lb"
    "backup_table_at v lb + 32 * lb \<le> backup_at v lb" "backup_at v lb + 96 \<le> length v"
proof -
  have disk: "gpt_disk v lb" and t: "2 \<le> gpt_entry_lba v lb" "gpt_entry_lba v lb + 32 \<le> gpt_entry_lba v (backup_at v lb)"
    "gpt_entry_lba v (backup_at v lb) + 32 \<le> gpt_alternate_lba v lb"
    using assms by (simp_all add: embeddable_def)
  show lb: "512 \<le> lb" "backup_at v lb + 96 \<le> length v" using disk whole_le [of v] by (auto simp: gpt_disk_def)
  have "2 * lb \<le> table_at v lb" using t(1) by (rule mult_le_mono1)
  with lb(1) show "lb + 96 \<le> table_at v lb" by linarith
  show "table_at v lb + 32 * lb \<le> backup_table_at v lb" "backup_table_at v lb + 32 * lb \<le> backup_at v lb"
    using t(2,3) [THEN mult_le_mono1, of lb] by (simp_all only: add_mult_distrib)
qed

text \<open>What rewriting may change.\<close>

definition table_bytes :: "u8 list \<Rightarrow> nat \<Rightarrow> nat set" where
  "table_bytes v lb = {lb..<lb + 96} \<union> {table_at v lb..<table_at v lb + 32 * lb} \<union>
     {backup_at v lb..<backup_at v lb + 96} \<union> {backup_table_at v lb..<backup_table_at v lb + 32 * lb}"

lemma same_outside_zero_run:
  assumes "table + count * sz \<le> length v" "first \<le> count" "{table..<table + count * sz} \<subseteq> X"
  shows "same_outside X v (zero_run table sz first count v)"
proof -
  have le: "first * sz + (count - first) * sz = count * sz"
    using assms(2) by (simp flip: add_mult_distrib)
  then have "{table + first * sz..<table + first * sz + (count - first) * sz} \<subseteq> {table..<table + count * sz}" by auto
  with assms(3) have "{table + first * sz..<table + first * sz + (count - first) * sz} \<subseteq> X" by (rule order_trans [rotated])
  then show ?thesis unfolding zero_run_def using assms(1) le by (intro same_outside_splice) simp_all
qed

lemma rewritten_disk:
  fixes v lb first count
  assumes v: "embeddable v lb" and count: "first \<le> count" "count * gpt_entry_size v lb \<le> 32 * lb"
  defines "sz \<equiv> gpt_entry_size v lb" and "T \<equiv> table_at v lb" and "U \<equiv> backup_table_at v lb" and "B \<equiv> backup_at v lb"
  defines "r \<equiv> rewritten v lb first count" and "crc \<equiv> new_array_crc v lb first count"
  shows "same_outside (table_bytes v lb) v r"
    "slice_at r lb 96 = new_header_bytes (slice_at v lb 96) crc count"
    "slice_at r B 96 = new_header_bytes (slice_at v B 96) crc count"
    "slice_at r T (count * sz) = slice_at v T (first * sz) @ replicate ((count - first) * sz) 0"
    "slice_at r U (count * sz) = slice_at v U (first * sz) @ replicate ((count - first) * sz) 0"
    "crc = crc32 (slice_at v T (first * sz) @ replicate ((count - first) * sz) 0)"
proof -
  note lay = table_layout [OF v, folded T_def U_def B_def] and sz = count(2) [folded sz_def]
  let ?v1 = "zero_run T sz first count v" and ?c = "cleared v lb first count"
  have c: "?c = zero_run U sz first count ?v1" by (simp add: cleared_def sz_def T_def U_def B_def)
  have fitT: "T + count * sz \<le> length v" and fitU: "U + count * sz \<le> length v" using lay sz by linarith+
  have len1: "length ?v1 = length v" by (rule length_zero_run [OF fitT count(1)])
  have len2: "length ?c = length v" unfolding c by (simp add: length_zero_run [OF _ count(1)] fitU len1)
  have at: "lb + 96 \<le> length v" "B + 96 \<le> length v" using lay by linarith+
  let ?H = "new_header_bytes (slice_at v lb 96) crc count" and ?S = "new_header_bytes (slice_at v B 96) crc count"
  have lens: "length ?H = 96" "length ?S = 96" using at by (simp_all add: length_new_header_bytes)
  have r: "r = splice_at (splice_at ?c lb ?H) B ?S" by (simp add: r_def rewritten_def B_def crc_def)
  show "slice_at r lb 96 = ?H" "slice_at r B 96 = ?S"
    unfolding r using lens at len2 lay by (simp_all add: slice_splice_other)
  have entries: "slice_at r i n = slice_at ?c i n" if "lb + 96 \<le> i" "i + n \<le> B" for i n
    unfolding r using lens at len2 that by (simp add: slice_splice_other)
  have cT: "slice_at ?c T (count * sz) = slice_at v T (first * sz) @ replicate ((count - first) * sz) 0"
    unfolding c slice_zero_run [OF fitT count(1), symmetric]
    by (rule slice_zero_run_other [OF _ count(1)]) (use len1 fitT fitU lay sz in linarith)+
  have "first * sz \<le> count * sz" using count(1) by (rule mult_le_mono1)
  then have "slice_at ?v1 U (first * sz) = slice_at v U (first * sz)"
    by (intro slice_zero_run_other [OF fitT count(1)]) (use fitU lay sz in linarith)+
  then have cU: "slice_at ?c U (count * sz) = slice_at v U (first * sz) @ replicate ((count - first) * sz) 0"
    unfolding c using slice_zero_run [of U count sz ?v1 first] fitU count(1) len1 by simp
  show "slice_at r T (count * sz) = slice_at v T (first * sz) @ replicate ((count - first) * sz) 0"
    using cT lay sz by (subst entries) linarith+
  show "slice_at r U (count * sz) = slice_at v U (first * sz) @ replicate ((count - first) * sz) 0"
    using cU lay sz by (subst entries) linarith+
  show "crc = crc32 (slice_at v T (first * sz) @ replicate ((count - first) * sz) 0)"
    using cT by (simp add: crc_def new_array_crc_def T_def sz_def)
  note bytes = table_bytes_def [of v lb, folded T_def U_def B_def]
  have "same_outside (table_bytes v lb) v ?v1"
    by (rule same_outside_zero_run [OF fitT count(1)]) (use sz in \<open>auto simp: bytes\<close>)
  moreover have "same_outside (table_bytes v lb) ?v1 ?c"
    unfolding c by (rule same_outside_zero_run [OF _ count(1)]) (use len1 fitU sz in \<open>auto simp: bytes\<close>)
  moreover have "same_outside (table_bytes v lb) ?c (splice_at ?c lb ?H)"
    by (rule same_outside_splice) (use lens len2 at in \<open>auto simp: bytes\<close>)
  moreover have "same_outside (table_bytes v lb) (splice_at ?c lb ?H) r"
    unfolding r by (rule same_outside_splice) (use lens len2 at in \<open>auto simp: bytes\<close>)
  ultimately show "same_outside (table_bytes v lb) v r" by (blast intro: same_outside_trans)
qed

section \<open>The runs\<close>

text \<open>The region of a partition with room for both halves, the second one aligned.\<close>

definition fits_partition :: "u8 list \<Rightarrow> nat \<Rightarrow> bool" where
  "fits_partition img lb \<longleftrightarrow> round_up lb (half_a img) + stage2_rest img \<le> 32768"

lemma gpt_host_run:
  assumes "parse_install_args (\<lambda>n. files n \<noteq> None) (tl argv) default_opts = Inr opts"
    "io_device opts = Some name" "files name = Some disk" "io_uninstall_file opts \<noteq> Some name"
    "\<not> io_uninstall_mode opts" "gpt_disk disk lb"
    and body: "evals (install_body be img rnd opts) disk 0 (Ret ()) r i" "i \<le> 256"
  shows "\<exists>files'. bios_install be img rnd [] argv files = (Ret EXIT_SUCCESS, files') \<and> files' name = Some r"
proof -
  have len: "512 \<le> length disk" "length disk < 2 ^ 63"
    using assms(6) whole_le [of disk] by (auto simp: gpt_disk_def)
  obtain written d where "install_on_device be img rnd opts files (dev_open disk []) = (Ret (EXIT_SUCCESS, written), d)"
    "dv_disk d = r" "written \<noteq> None \<longrightarrow> io_uninstall_file opts \<noteq> None"
    using install_succeeds [OF assms(5) len body] by blast
  with bios_install_run [OF assms(1-4)] show ?thesis by blast
qed

lemma partition_install_run:
  assumes img: "image_ok img" "fits_partition img lb" and v: "gpt_disk v lb" "partition_ok v lb k"
    and opts: "\<not> io_force_mbr opts" "io_part_ndx opts = Some part" "scan_u32 part = Some n" "unat n = Suc k"
  shows "\<exists>a b. unat a = part_start v lb k \<and> unat b = part_start v lb k + round_up lb (half_a img) \<and>
    512 \<le> unat a \<and> unat a + half_a img \<le> unat b \<and> unat b + stage2_rest img \<le> part_end v lb k \<and>
    part_end v lb k \<le> length v \<and> evals (install_body be img rnd opts) v 0 (Ret ()) (staged be img (a, b) v) 9"
proof -
  note ha = unat_stage2_size_a [OF img(1)]
  have lb: "lb \<in> {512, 4096}" "0 < lb" "1024 \<le> whole v" using v(1) by (auto simp: gpt_disk_def)
  from evals_place_in_partition [OF v(1) opts(3,4) v(2) ha(1,3), of be 0] obtain a b where
    ab: "unat a = part_start v lb k" "unat b = part_start v lb k + round_up lb (half_a img)" and
    place: "evals (place_in_partition be (header_at be v lb) (of_nat lb) (stage2_size_a (image_stage2_size img)) part) v 0
      (Ret (a, b)) v 0" by blast
  let ?e = "entry_at v lb k"
  have p: "0 < entry_start v ?e" "entry_start v ?e \<le> entry_end v ?e" "part_end v lb k \<le> whole v"
    "32768 \<le> (entry_end v ?e - entry_start v ?e + 1) * lb"
    using v(2) by (simp_all add: partition_ok_def)
  have "entry_end v ?e + 1 = entry_start v ?e + (entry_end v ?e - entry_start v ?e + 1)" using p(2) by simp
  then have "part_end v lb k = part_start v lb k + (entry_end v ?e - entry_start v ?e + 1) * lb"
    by (metis add_mult_distrib)
  then have inside: "part_start v lb k + 32768 \<le> part_end v lb k" using p(4) by linarith
  have "1 * lb \<le> part_start v lb k" using p(1) by (intro mult_le_mono1) simp
  moreover have "512 \<le> lb" using lb(1) by auto
  ultimately have a: "512 \<le> unat a" using ab(1) by linarith
  have order: "unat a + half_a img \<le> unat b" using ab round_up_ge [OF lb(2), of "half_a img"] by linarith
  have b: "unat b + stage2_rest img \<le> part_end v lb k" using ab(2) inside img(2) unfolding fits_partition_def by linarith
  have "evals (write_stages be img (a, b)) v 0 (Ret ()) (staged be img (a, b) v) (0 + 9)"
    by (rule evals_write_stages [OF img(1) lb(3)]) (use order b p(3) in linarith)+
  then have "evals (pbind (place_stage2 be img
      (Some (header_at be v lb, header_at be v (backup_at v lb), of_nat lb)) (io_part_ndx opts)) (write_stages be img))
      v 0 (Ret ()) (staged be img (a, b) v) 9"
    by (intro evals_pbind [where x = "(a, b)" and ?v1.0 = v and ?i1.0 = 0])
       (simp_all add: place_stage2_def opts(2) place)
  then have "evals (install_body be img rnd opts) v 0 (Ret ()) (staged be img (a, b) v) 9"
    by (rule evals_install_gpt [OF v(1) opts(1)])
  with ab a order b p(3) whole_le [of v] show ?thesis by (intro exI [of _ a] exI [of _ b]) simp
qed

lemma half_sum: "(n + 1) div 2 + n div 2 = (n :: nat)"
  by presburger

lemma stage2_rest_le: "image_ok img \<Longrightarrow> stage2_rest img \<le> half_b img"
proof -
  let ?n = "(length img - 1) div 512"
  have "half_a img + half_b img = ?n * 512"
    unfolding half_a_def half_b_def add_mult_distrib [symmetric] half_sum by (rule refl)
  moreover have "length img - 1 < 512 + ?n * 512" by (rule dividend_less_div_times) simp
  ultimately show ?thesis by linarith
qed

text \<open>The two tables agree on the entries in use, and the run has room in the undo log.\<close>

definition tables_agree :: "u8 list \<Rightarrow> nat \<Rightarrow> bool" where
  "tables_agree v lb \<longleftrightarrow> slice_at v (table_at v lb) (used_end v lb * gpt_entry_size v lb) =
     slice_at v (backup_table_at v lb) (used_end v lb * gpt_entry_size v lb)"

definition log_has_room :: "u8 list \<Rightarrow> u8 list \<Rightarrow> nat \<Rightarrow> bool" where
  "log_has_room img v lb \<longleftrightarrow> 2 * (embed_count img v lb - used_end v lb) + 11 \<le> 256"

lemma embed_halves:
  assumes v: "embeddable v lb" and img: "image_ok img" "half_a img \<le> 32 * lb"
  shows "table_at v lb + embed_count img v lb * gpt_entry_size v lb = embed_a img v lb"
    "embed_a img v lb + half_a img \<le> table_at v lb + 32 * lb"
    "backup_table_at v lb + embed_count img v lb * gpt_entry_size v lb \<le> embed_b img v lb"
    "embed_b img v lb + stage2_rest img \<le> backup_table_at v lb + 32 * lb"
proof -
  have lb: "0 < lb" using table_layout(1) [OF v] by simp
  have le: "half_b img \<le> half_a img" unfolding half_a_def half_b_def by (intro mult_le_mono1 div_le_mono) simp
  note qa = blocks_of_bounds [OF lb img(2)]
  have "half_b img \<le> 32 * lb" using le img(2) by linarith
  note qb = blocks_of_bounds [OF lb this]
  have "blocks_of lb (half_b img) \<le> blocks_of lb (half_a img)"
    unfolding blocks_of_def using le by (intro div_le_mono) simp
  then have order: "(32 - blocks_of lb (half_a img)) * lb \<le> (32 - blocks_of lb (half_b img)) * lb"
    by (intro mult_le_mono1 diff_le_mono2)
  have split: "(32 - q) * lb + q * lb = 32 * lb" if "q \<le> 32" for q
    unfolding add_mult_distrib [symmetric] using that by simp
  note arr = embed_count_array [OF v, of img]
  show "table_at v lb + embed_count img v lb * gpt_entry_size v lb = embed_a img v lb"
    by (simp only: arr embed_a_def add_mult_distrib)
  show "embed_a img v lb + half_a img \<le> table_at v lb + 32 * lb"
    using split [OF qa(3)] qa(1) unfolding embed_a_def add_mult_distrib by linarith
  show "backup_table_at v lb + embed_count img v lb * gpt_entry_size v lb \<le> embed_b img v lb"
    using order unfolding arr embed_b_def add_mult_distrib by linarith
  show "embed_b img v lb + stage2_rest img \<le> backup_table_at v lb + 32 * lb"
    using split [OF qb(3)] qb(1) stage2_rest_le [OF img(1)] unfolding embed_b_def add_mult_distrib by linarith
qed

lemma embed_count_bounds:
  assumes "embeddable v lb"
  shows "embed_count img v lb * gpt_entry_size v lb \<le> 32 * lb" "embed_count img v lb < 2 ^ 32"
proof -
  show le: "embed_count img v lb * gpt_entry_size v lb \<le> 32 * lb"
    unfolding embed_count_array [OF assms] by (intro mult_le_mono1) simp
  have "1 \<le> gpt_entry_size v lb" "lb \<le> 4096" using assms by (auto simp: embeddable_def gpt_disk_def)
  then have "embed_count img v lb * 1 \<le> embed_count img v lb * gpt_entry_size v lb" by (intro mult_le_mono2)
  with le \<open>lb \<le> 4096\<close> have "embed_count img v lb \<le> 131072" by linarith
  then show "embed_count img v lb < 2 ^ 32" by simp
qed

lemma embed_install_run:
  assumes v: "embeddable v lb" and img: "image_ok img" "half_a img \<le> 32 * lb"
    and opts: "\<not> io_force_mbr opts" "io_part_ndx opts = None"
  defines "u \<equiv> rewritten v lb (used_end v lb) (embed_count img v lb)"
  shows "\<exists>a b i. unat a = embed_a img v lb \<and> unat b = embed_b img v lb \<and> (log_has_room img v lb \<longrightarrow> i \<le> 256) \<and>
    evals (install_body False img rnd opts) v 0
      (if used_end v lb \<le> embed_count img v lb \<and> log_has_room img v lb then Ret () else Bail) (staged False img (a, b) u) i"
proof -
  have disk: "gpt_disk v lb" and sz: "gpt_entry_size v (backup_at v lb) = gpt_entry_size v lb" "0 < gpt_entry_size v lb"
    using v by (auto simp: embeddable_def)
  note lay = table_layout [OF v] and cnt = embed_count_bounds [OF v, of img] and halves = embed_halves [OF v img]
  have w: "backup_at v lb + 96 \<le> whole v" "1024 \<le> whole v" using disk by (auto simp: gpt_disk_def)
  let ?k = "embed_count img v lb - used_end v lb"
  let ?r = "if 2 * ?k + 2 \<le> 256 then Ret () else Bail"
  have "\<forall>n. unat n = embed_count img v lb \<longrightarrow>
      evals (rewrite_tables False (header_at False v lb) (header_at False v (backup_at v lb)) (of_nat lb)
        (int (used_end v lb) - 1) n) v 0 ?r u (2 * ?k + 2)" if "used_end v lb \<le> embed_count img v lb"
  proof (intro allI impI)
    fix n :: u64 assume n: "unat n = embed_count img v lb"
    have "evals (rewrite_tables False (header_at False v lb) (header_at False v (backup_at v lb)) (of_nat lb)
        (int (used_end v lb) - 1) n) v 0 (if 0 + 2 * (unat n - used_end v lb) + 2 \<le> 256 then Ret () else Bail)
        (rewritten v lb (used_end v lb) (unat n)) (0 + 2 * (unat n - used_end v lb) + 2)"
      by (rule evals_rewrite_tables [OF disk sz]) (use cnt that lay w(1) n in simp_all)
    then show "evals (rewrite_tables False (header_at False v lb) (header_at False v (backup_at v lb)) (of_nat lb)
        (int (used_end v lb) - 1) n) v 0 ?r u (2 * ?k + 2)" by (simp only: u_def n add_0)
  qed
  note tables = this
  have r2: "?r = Bail \<or> ?r = Ret ()" and ret: "?r = Ret () \<longleftrightarrow> 2 * ?k + 2 \<le> 256" by simp_all
  from evals_embed_tables [OF v img tables r2] obtain a b where ab: "unat a = embed_a img v lb" "unat b = embed_b img v lb"
    and place: "evals (embed_in_gpt False (header_at False v lb) (header_at False v (backup_at v lb)) (of_nat lb)
      (stage2_size_a (image_stage2_size img)) (stage2_size_b (image_stage2_size img))) v 0
      (if used_end v lb \<le> embed_count img v lb \<and> ?r = Ret () then Ret (a, b) else Bail) u (2 * ?k + 2)" by blast
  let ?P = "used_end v lb \<le> embed_count img v lb \<and> 2 * ?k + 2 \<le> 256"
  have stages: "evals (write_stages False img (a, b)) u (2 * ?k + 2) (if 2 * ?k + 2 + 9 \<le> 256 then Ret () else Bail)
      (staged False img (a, b) u) (2 * ?k + 2 + 9)" if P: ?P
  proof (rule evals_write_stages_count [OF img(1)])
    have "length u = length v"
      unfolding u_def using rewritten_disk(1) [OF v _ cnt(1)] P by (simp add: same_outside_def)
    note wu = whole_cong [OF this]
    show "1024 \<le> whole u" "2 * ?k + 2 \<le> 256" "unat a + half_a img \<le> whole u" "unat b + stage2_rest img \<le> whole u"
      using P ab halves lay w wu by linarith+
  qed
  have "evals (place_stage2 False img (Some (header_at False v lb, header_at False v (backup_at v lb), of_nat lb)) (io_part_ndx opts))
      v 0 (if ?P then Ret (a, b) else Bail) u (2 * ?k + 2)"
    using place unfolding ret by (simp add: place_stage2_def opts(2))
  from evals_pbind_count [OF this, where f = "write_stages False img", OF stages]
  have "evals (pbind (place_stage2 False img
      (Some (header_at False v lb, header_at False v (backup_at v lb), of_nat lb)) (io_part_ndx opts)) (write_stages False img))
      v 0 (if ?P \<and> 2 * ?k + 2 + 9 \<le> 256 then Ret () else Bail) (staged False img (a, b) u) (2 * ?k + 2 + 9)"
    by simp
  moreover have "(?P \<and> 2 * ?k + 2 + 9 \<le> 256) = (used_end v lb \<le> embed_count img v lb \<and> log_has_room img v lb)"
    by (auto simp: log_has_room_def)
  ultimately have "evals (install_body False img rnd opts) v 0
      (if used_end v lb \<le> embed_count img v lb \<and> log_has_room img v lb then Ret () else Bail)
      (staged False img (a, b) u) (2 * ?k + 2 + 9)"
    by (intro evals_install_gpt [OF disk opts(1)]) (simp only:)
  with ab show ?thesis by (intro exI [of _ a] exI [of _ b] exI [of _ "2 * ?k + 2 + 9"]) (simp add: log_has_room_def)
qed

text \<open>The disk after embedding.\<close>

lemma boots_from_cong:
  "boots_from img a b u r \<Longrightarrow> slice_at u 440 70 = slice_at v 440 70 \<Longrightarrow> slice_at u 218 6 = slice_at v 218 6 \<Longrightarrow>
   boots_from img a b v r"
  by (simp add: boots_from_def)

definition embedded :: "u8 list \<Rightarrow> nat \<Rightarrow> nat \<Rightarrow> u8 list \<Rightarrow> bool" where
  "embedded v lb count r \<longleftrightarrow> (\<forall>at \<in> {lb, backup_at v lb}.
     table_valid r lb at \<and> gpt_entry_count r at = count \<and> gpt_entry_lba r at = gpt_entry_lba v at \<and>
     gpt_entry_size r at = gpt_entry_size v at \<and> gpt_alternate_lba r at = gpt_alternate_lba v at \<and>
     slice_at r at 8 = GPT_SIGNATURE \<and>
     slice_at r (gpt_entry_lba v at * lb) (used_end v lb * gpt_entry_size v lb) =
       slice_at v (gpt_entry_lba v at * lb) (used_end v lb * gpt_entry_size v lb) \<and>
     slice_at r (gpt_entry_lba v at * lb + used_end v lb * gpt_entry_size v lb) ((count - used_end v lb) * gpt_entry_size v lb) =
       replicate ((count - used_end v lb) * gpt_entry_size v lb) 0)"

lemma staged_embedded:
  assumes v: "embeddable v lb" and img: "image_ok img" "half_a img \<le> 32 * lb"
    and first: "used_end v lb \<le> embed_count img v lb" and agree: "tables_agree v lb"
    and ab: "unat a = embed_a img v lb" "unat b = embed_b img v lb"
  defines "u \<equiv> rewritten v lb (used_end v lb) (embed_count img v lb)"
  defines "r \<equiv> staged False img (a, b) u"
  shows "boots_from img (embed_a img v lb) (embed_b img v lb) v r" "embedded v lb (embed_count img v lb) r"
    "same_outside ({0..<512} \<union> table_bytes v lb) v r"
proof -
  let ?n = "embed_count img v lb" and ?m = "used_end v lb" and ?sz = "gpt_entry_size v lb"
  have disk: "gpt_disk v lb" and sz: "gpt_entry_size v (backup_at v lb) = ?sz" using v by (simp_all add: embeddable_def)
  note lay = table_layout [OF v] and cnt = embed_count_bounds [OF v, of img] and halves = embed_halves [OF v img]
  note rw = rewritten_disk [OF v first cnt(1), folded u_def]
  have len: "length u = length v" using rw(1) by (simp add: same_outside_def)
  have pre: "512 \<le> unat a" "unat a + half_a img \<le> unat b" "unat b + stage2_rest img \<le> length u"
    using halves lay ab len by linarith+
  note st = staged_boots [OF img(1) pre, of False, folded r_def, unfolded ab]
  have low: "slice_at u i k = slice_at v i k" if "i + k \<le> 512" for i k
    by (rule same_outside_slice [OF rw(1)]) (use that lay in \<open>auto simp: table_bytes_def\<close>)
  show "boots_from img (embed_a img v lb) (embed_b img v lb) v r"
    using st(1) by (rule boots_from_cong) (simp_all add: low)
  have "{embed_a img v lb..<embed_a img v lb + half_a img} \<union> {embed_b img v lb..<embed_b img v lb + stage2_rest img} \<subseteq> table_bytes v lb"
    using halves by (auto simp: table_bytes_def)
  then have "same_outside ({0..<512} \<union> table_bytes v lb) u r"
    by (intro same_outside_mono [OF st(2)]) auto
  moreover have "same_outside ({0..<512} \<union> table_bytes v lb) v u" by (rule same_outside_mono [OF rw(1)]) simp
  ultimately show "same_outside ({0..<512} \<union> table_bytes v lb) v r" by (rule same_outside_trans [rotated])
  have keep: "slice_at r i k = slice_at u i k"
    if "512 \<le> i" "i + k \<le> length v" "i + k \<le> embed_a img v lb \<or> embed_a img v lb + half_a img \<le> i"
      "i + k \<le> embed_b img v lb \<or> embed_b img v lb + stage2_rest img \<le> i" for i k
    by (rule same_outside_slice [OF st(2)]) (use that len in auto)
  let ?new = "\<lambda>at. slice_at v (gpt_entry_lba v at * lb) (?m * ?sz) @ replicate ((?n - ?m) * ?sz) 0"
  have heads: "slice_at r at 96 = slice_at u at 96" if "at \<in> {lb, backup_at v lb}" for at
    by (rule keep) (use that lay halves in auto)
  have arrays: "slice_at r (gpt_entry_lba v at * lb) (?n * ?sz) = slice_at u (gpt_entry_lba v at * lb) (?n * ?sz)"
    if "at \<in> {lb, backup_at v lb}" for at
    by (rule keep) (use that lay halves cnt in auto)
  have entries: "slice_at r (gpt_entry_lba v at * lb) (?n * ?sz) = ?new at" if "at \<in> {lb, backup_at v lb}" for at
    using arrays [OF that] rw(4,5) that by auto
  have crc: "new_array_crc v lb ?m ?n = crc32 (?new at)" if "at \<in> {lb, backup_at v lb}" for at
    using rw(6) agree that by (auto simp: tables_agree_def)
  have split: "?n * ?sz = ?m * ?sz + (?n - ?m) * ?sz" using first by (simp flip: add_mult_distrib)
  show "embedded v lb ?n r"
    unfolding embedded_def
  proof
    fix at assume at: "at \<in> {lb, backup_at v lb}"
    have len_at: "at + 96 \<le> length v" "length r = length v"
      using at lay st(2) len by (auto simp: same_outside_def)
    have size: "gpt_entry_size v at = ?sz" using at sz by auto
    have table: "gpt_entry_lba v at * lb + ?n * ?sz \<le> length v" using at halves lay by auto
    have "slice_at r at 96 = new_header_bytes (slice_at v at 96) (crc32 (?new at)) ?n"
      using heads [OF at] rw(2,3) at by (auto simp flip: crc [OF at])
    note new = table_valid_new [OF len_at this cnt(2), of lb, unfolded size, OF entries [OF at]]
    have sig: "slice_at v at 8 = GPT_SIGNATURE" using disk at by (auto simp: gpt_disk_def)
    have "slice_at r (gpt_entry_lba v at * lb) (?m * ?sz) @
        slice_at r (gpt_entry_lba v at * lb + ?m * ?sz) ((?n - ?m) * ?sz) = ?new at"
      using entries [OF at] slice_at_append [of r "gpt_entry_lba v at * lb" "?m * ?sz" "(?n - ?m) * ?sz"] split by simp
    moreover have "length (slice_at r (gpt_entry_lba v at * lb) (?m * ?sz)) = length (slice_at v (gpt_entry_lba v at * lb) (?m * ?sz))"
      using table split len_at by simp
    ultimately show "table_valid r lb at \<and> gpt_entry_count r at = ?n \<and> gpt_entry_lba r at = gpt_entry_lba v at \<and>
       gpt_entry_size r at = gpt_entry_size v at \<and> gpt_alternate_lba r at = gpt_alternate_lba v at \<and>
       slice_at r at 8 = GPT_SIGNATURE \<and>
       slice_at r (gpt_entry_lba v at * lb) (?m * ?sz) = slice_at v (gpt_entry_lba v at * lb) (?m * ?sz) \<and>
       slice_at r (gpt_entry_lba v at * lb + ?m * ?sz) ((?n - ?m) * ?sz) = replicate ((?n - ?m) * ?sz) 0"
      using new sig size by (simp only: append_eq_append_conv simp_thms)
  qed
qed

lemma gpt_host_bails:
  assumes "parse_install_args (\<lambda>n. files n \<noteq> None) (tl argv) default_opts = Inr opts"
    "io_device opts = Some name" "files name = Some disk" "io_uninstall_file opts \<noteq> Some name"
    "\<not> io_uninstall_mode opts" "gpt_disk disk lb" "image_ok img"
    and body: "evals (install_body be img rnd opts) disk 0 Bail r i"
  shows "\<exists>files'. bios_install be img rnd [] argv files = (Ret EXIT_FAILURE, files') \<and> files' name = Some disk"
proof -
  have len: "512 \<le> length disk" "length disk < 2 ^ 63" "length img < 2 ^ 64"
    using assms(6,7) whole_le [of disk] by (auto simp: gpt_disk_def image_ok_def)
  obtain d where "install_on_device be img rnd opts files (dev_open disk []) = (Ret (EXIT_FAILURE, None), d)" "dv_disk d = disk"
    using install_bails [OF assms(5) len(3,1,2) body] by blast
  with bios_install_run [OF assms(1-4), of be img rnd EXIT_FAILURE None] show ?thesis by blast
qed

lemma embed_install:
  assumes args: "parse_install_args (\<lambda>n. files n \<noteq> None) (tl argv) default_opts = Inr opts"
    "io_device opts = Some name" "files name = Some disk" "io_uninstall_file opts \<noteq> Some name" "\<not> io_uninstall_mode opts"
    and opts: "\<not> io_force_mbr opts" "io_part_ndx opts = None"
    and img: "image_ok img" "half_a img \<le> 32 * lb" and v: "embeddable disk lb" "tables_agree disk lb"
  shows "if used_end disk lb \<le> embed_count img disk lb \<and> log_has_room img disk lb
    then \<exists>files' r. bios_install False img rnd [] argv files = (Ret EXIT_SUCCESS, files') \<and> files' name = Some r \<and>
      boots_from img (embed_a img disk lb) (embed_b img disk lb) disk r \<and> embedded disk lb (embed_count img disk lb) r \<and>
      same_outside ({0..<512} \<union> table_bytes disk lb) disk r
    else \<exists>files'. bios_install False img rnd [] argv files = (Ret EXIT_FAILURE, files') \<and> files' name = Some disk"
proof -
  have disk: "gpt_disk disk lb" using v(1) by (simp add: embeddable_def)
  from embed_install_run [OF v(1) img opts, of rnd] obtain a b i where
    ab: "unat a = embed_a img disk lb" "unat b = embed_b img disk lb" "log_has_room img disk lb \<longrightarrow> i \<le> 256"
    and body: "evals (install_body False img rnd opts) disk 0
      (if used_end disk lb \<le> embed_count img disk lb \<and> log_has_room img disk lb then Ret () else Bail)
      (staged False img (a, b) (rewritten disk lb (used_end disk lb) (embed_count img disk lb))) i" by blast
  show ?thesis
  proof (cases "used_end disk lb \<le> embed_count img disk lb \<and> log_has_room img disk lb")
    case True
    then have first: "used_end disk lb \<le> embed_count img disk lb" by simp
    from True body have "\<exists>files'. bios_install False img rnd [] argv files = (Ret EXIT_SUCCESS, files') \<and>
        files' name = Some (staged False img (a, b) (rewritten disk lb (used_end disk lb) (embed_count img disk lb)))"
      by (intro gpt_host_run [OF args disk]) (use ab(3) in simp_all)
    with staged_embedded [OF v(1) img first v(2) ab(1,2)] show ?thesis unfolding if_P [OF True] by blast
  next
    case False
    with body have "evals (install_body False img rnd opts) disk 0 Bail
      (staged False img (a, b) (rewritten disk lb (used_end disk lb) (embed_count img disk lb))) i" by (simp only: if_False)
    from gpt_host_bails [OF args disk img(1) this] show ?thesis unfolding if_not_P [OF False] .
  qed
qed

lemma log_full_4k:
  assumes v: "embeddable v 4096" "gpt_entry_size v 4096 = 128" "gpt_entry_count v 4096 \<le> 128" and img: "image_ok img"
  shows "\<not> log_has_room img v 4096"
proof -
  have "half_a img \<le> 32768" by (rule unat_stage2_size_a(3) [OF img])
  then have "(half_a img + 4095) div 4096 \<le> (32768 + 4095) div 4096" by (intro div_le_mono) simp
  then have "blocks_of 4096 (half_a img) \<le> 8" by (simp add: blocks_of_def)
  then have "768 \<le> embed_count img v 4096" by (simp add: embed_count_def v(2))
  moreover have "used_end v 4096 \<le> 128" using used_end_le [of v 4096] v(3) by linarith
  ultimately show ?thesis by (simp add: log_has_room_def)
qed

lemma embed_4k_fails:
  assumes args: "parse_install_args (\<lambda>n. files n \<noteq> None) (tl argv) default_opts = Inr opts"
    "io_device opts = Some name" "files name = Some disk" "io_uninstall_file opts \<noteq> Some name" "\<not> io_uninstall_mode opts"
    and opts: "\<not> io_force_mbr opts" "io_part_ndx opts = None" and img: "image_ok img"
    and v: "embeddable disk 4096" "gpt_entry_size disk 4096 = 128" "gpt_entry_count disk 4096 \<le> 128"
  shows "\<exists>files'. bios_install False img rnd [] argv files = (Ret EXIT_FAILURE, files') \<and> files' name = Some disk"
proof -
  have disk: "gpt_disk disk 4096" using v(1) by (simp add: embeddable_def)
  have "half_a img \<le> 32 * 4096" using unat_stage2_size_a(3) [OF img] by simp
  from embed_install_run [OF v(1) img this opts, of rnd] log_full_4k [OF v img] obtain r i where
    "evals (install_body False img rnd opts) disk 0 Bail r i" by auto
  from gpt_host_bails [OF args disk img this] show ?thesis .
qed

section \<open>A small disk\<close>

definition example_header :: "nat \<Rightarrow> nat \<Rightarrow> u8 list" where
  "example_header alternate entries = GPT_SIGNATURE @ replicate 24 0 @ le_bytes 8 alternate @ replicate 32 0 @
     le_bytes 8 entries @ le_bytes 4 2 @ le_bytes 4 128 @ replicate 8 0"

definition example_entry :: "u8 list" where
  "example_entry = replicate 16 1 @ replicate 16 2 @ le_bytes 8 34 @ le_bytes 8 97 @ replicate 80 0"

text \<open>Blocks of 512 bytes: header, entries, one partition of 32 KiB, the backup entries and header.\<close>

definition example_gpt :: "u8 list" where
  "example_gpt = splice_at (splice_at (splice_at (splice_at (replicate 67072 0) 512 (example_header 130 2))
     1024 example_entry) 50176 example_entry) 66560 (example_header 1 98)"

lemma example_lengths [simp]: "length (example_header a e) = 96" "length example_entry = 128" "length example_gpt = 67072"
  by (simp_all add: example_header_def example_entry_def example_gpt_def GPT_SIGNATURE_def)

lemma example_header_slices:
  "slice_at (example_header a e) 0 8 = GPT_SIGNATURE" "slice_at (example_header a e) 32 8 = le_bytes 8 a"
  "slice_at (example_header a e) 72 8 = le_bytes 8 e" "slice_at (example_header a e) 80 4 = le_bytes 4 2"
  "slice_at (example_header a e) 84 4 = le_bytes 4 128"
  by (simp_all add: example_header_def slice_at_def GPT_SIGNATURE_def)

lemma example_entry_slices:
  "slice_at example_entry 16 16 = replicate 16 2" "slice_at example_entry 32 8 = le_bytes 8 34"
  "slice_at example_entry 40 8 = le_bytes 8 97"
  by (simp_all add: example_entry_def slice_at_def)

lemma example_slices:
  "i + k \<le> 96 \<Longrightarrow> slice_at example_gpt (512 + i) k = slice_at (example_header 130 2) i k"
  "i + k \<le> 96 \<Longrightarrow> slice_at example_gpt (66560 + i) k = slice_at (example_header 1 98) i k"
  "i + k \<le> 128 \<Longrightarrow> slice_at example_gpt (1024 + i) k = slice_at example_entry i k"
  "i + k \<le> 128 \<Longrightarrow> slice_at example_gpt (50176 + i) k = slice_at example_entry i k"
  "1152 \<le> i \<Longrightarrow> i + k \<le> 50176 \<Longrightarrow> slice_at example_gpt i k = replicate k 0"
  by (simp_all add: example_gpt_def slice_splice_other slice_splice_inner slice_replicate)

section \<open>Properties\<close>


lemma example_fields:
  "gpt_alternate_lba example_gpt 512 = 130" "gpt_entry_lba example_gpt 512 = 2" "gpt_entry_count example_gpt 512 = 2"
  "gpt_entry_size example_gpt 512 = 128" "gpt_entry_lba example_gpt 66560 = 98" "gpt_entry_size example_gpt 66560 = 128"
  "whole example_gpt = 67072"
  using example_slices(1) [of 32 8] example_slices(1) [of 72 8] example_slices(1) [of 80 4] example_slices(1) [of 84 4]
    example_slices(2) [of 72 8] example_slices(2) [of 84 4]
  by (simp_all add: gpt_alternate_lba_def gpt_entry_lba_def gpt_entry_count_def gpt_entry_size_def example_header_slices
      le_nat_le_bytes whole_def)

lemma example_used: "entry_used example_gpt 1024" "\<not> entry_used example_gpt 1152"
  using example_slices(3) [of 16 16] example_slices(5) [of 1168 16]
  by (simp_all add: entry_used_def example_entry_slices replicate_eq_replicate)

lemma example_gpt_disk: "gpt_disk example_gpt 512"
  using example_slices(1) [of 0 8] example_slices(2) [of 0 8] example_slices(5) [of 32769 5]
  by (simp add: gpt_disk_def example_fields example_header_slices ISO_SIGNATURE_def replicate_neq_Cons)

lemma example_embeddable: "embeddable example_gpt 512"
  by (simp add: embeddable_def example_gpt_disk example_fields)

lemma example_used_end: "used_end example_gpt 512 = 1"
  using example_used by (simp add: used_end_def example_fields entry_at_def numeral_2_eq_2)

lemma example_agree: "tables_agree example_gpt 512"
  using example_slices(3) [of 0 128] example_slices(4) [of 0 128]
  by (simp add: tables_agree_def example_used_end example_fields)

lemma example_partition: "partition_ok example_gpt 512 0" "entry_start example_gpt 1024 = 34" "entry_end example_gpt 1024 = 97"
  using example_slices(3) [of 32 8] example_slices(3) [of 40 8] example_used(1)
  by (simp_all add: partition_ok_def entry_at_def example_fields entry_start_def entry_end_def example_entry_slices le_nat_le_bytes)

lemma example_image: "image_ok (replicate 2560 7)" "half_a (replicate 2560 7) = 1024" "half_b (replicate 2560 7) = 1024"
  by (simp_all add: image_ok_def half_a_def half_b_def)

text \<open>C9: Installing into the GPT itself, without I/O errors, on a little-endian host: when the two tables are laid out
  apart from one another and agree on the entries in use, \<open>bios_install\<close> succeeds exactly when the entries in use fit
  the shorter tables and every write has room in the undo log. Then the boot sector finds both halves
  of stage 2, both tables are valid by their checksums, keep the entries in use and have zeros
  behind them, and no other byte changes. Otherwise the disk is as before.\<close>

theorem gpt_embed_install:
  assumes "parse_install_args (\<lambda>n. files n \<noteq> None) (tl argv) default_opts = Inr opts"
    "io_device opts = Some name" "files name = Some disk" "io_uninstall_file opts \<noteq> Some name" "\<not> io_uninstall_mode opts"
    "\<not> io_force_mbr opts" "io_part_ndx opts = None"
    "image_ok img" "half_a img \<le> 32 * lb" "embeddable disk lb" "tables_agree disk lb"
  shows "if used_end disk lb \<le> embed_count img disk lb \<and> log_has_room img disk lb
    then \<exists>files' r. bios_install False img rnd [] argv files = (Ret EXIT_SUCCESS, files') \<and> files' name = Some r \<and>
      boots_from img (embed_a img disk lb) (embed_b img disk lb) disk r \<and> embedded disk lb (embed_count img disk lb) r \<and>
      same_outside ({0..<512} \<union> table_bytes disk lb) disk r
    else \<exists>files'. bios_install False img rnd [] argv files = (Ret EXIT_FAILURE, files') \<and> files' name = Some disk"
  using assms by (rule embed_install)

theorem gpt_embed_install_witness:
  "\<exists>files' r. bios_install False (replicate 2560 7) (\<lambda>_. 0) [] [''bios-install'', ''sda''] [''sda'' \<mapsto> example_gpt] =
      (Ret EXIT_SUCCESS, files') \<and> files' ''sda'' = Some r \<and> embedded example_gpt 512 120 r"
proof -
  have count: "embed_count (replicate 2560 7) example_gpt 512 = 120"
    by (simp add: embed_count_def blocks_of_def example_image example_fields)
  then have "log_has_room (replicate 2560 7) example_gpt 512" by (simp add: log_has_room_def example_used_end)
  then show ?thesis
    using gpt_embed_install [of "[''sda'' \<mapsto> example_gpt]" "[''bios-install'', ''sda'']"
        "default_opts\<lparr>io_device := Some ''sda''\<rparr>" "''sda''" example_gpt "replicate 2560 7" 512 "\<lambda>_. 0"]
      example_embeddable example_agree example_used_end count
    by (auto simp: default_opts_def example_image UNINSTALL_FILE_OPT_def)
qed


text \<open>A disk with 4096-byte blocks and an empty table.\<close>

definition example_4k :: "u8 list" where
  "example_4k = splice_at (splice_at (replicate 278528 0) 4096 (example_header 67 2)) 274432 (example_header 1 35)"

lemma example_4k_slices:
  "i + k \<le> 96 \<Longrightarrow> slice_at example_4k (4096 + i) k = slice_at (example_header 67 2) i k"
  "i + k \<le> 96 \<Longrightarrow> slice_at example_4k (274432 + i) k = slice_at (example_header 1 35) i k"
  "i + k \<le> 4096 \<Longrightarrow> slice_at example_4k i k = replicate k 0"
  "4192 \<le> i \<Longrightarrow> i + k \<le> 274432 \<Longrightarrow> slice_at example_4k i k = replicate k 0"
  by (simp_all add: example_4k_def slice_splice_other slice_splice_inner slice_replicate)

lemma example_4k_fields:
  "gpt_alternate_lba example_4k 4096 = 67" "gpt_entry_lba example_4k 4096 = 2" "gpt_entry_count example_4k 4096 = 2"
  "gpt_entry_size example_4k 4096 = 128" "gpt_entry_lba example_4k 274432 = 35" "gpt_entry_size example_4k 274432 = 128"
  "whole example_4k = 278528" "length example_4k = 278528"
  using example_4k_slices(1) [of 32 8] example_4k_slices(1) [of 72 8] example_4k_slices(1) [of 80 4] example_4k_slices(1) [of 84 4]
    example_4k_slices(2) [of 72 8] example_4k_slices(2) [of 84 4]
  by (simp_all add: gpt_alternate_lba_def gpt_entry_lba_def gpt_entry_count_def gpt_entry_size_def example_header_slices
      le_nat_le_bytes whole_def example_4k_def)

lemma example_4k_embeddable: "embeddable example_4k 4096"
  using example_4k_slices(1) [of 0 8] example_4k_slices(2) [of 0 8] example_4k_slices(3) [of 512 8] example_4k_slices(4) [of 32769 5]
  by (simp add: embeddable_def gpt_disk_def example_4k_fields example_header_slices ISO_SIGNATURE_def GPT_SIGNATURE_def replicate_neq_Cons)

text \<open>C39: With 4096-byte blocks, installing into the GPT itself never works for a table of the standard size: for every
  image and whatever entries are in use, \<open>bios_install\<close> runs out of the 256 entries of its undo log
  while it clears the entries that the longer blocks make room for, fails and leaves the disk as it was.\<close>

theorem gpt_embed_4k_fails:
  assumes "parse_install_args (\<lambda>n. files n \<noteq> None) (tl argv) default_opts = Inr opts"
    "io_device opts = Some name" "files name = Some disk" "io_uninstall_file opts \<noteq> Some name" "\<not> io_uninstall_mode opts"
    "\<not> io_force_mbr opts" "io_part_ndx opts = None" "image_ok img"
    "embeddable disk 4096" "gpt_entry_size disk 4096 = 128" "gpt_entry_count disk 4096 \<le> 128"
  shows "\<exists>files'. bios_install False img rnd [] argv files = (Ret EXIT_FAILURE, files') \<and> files' name = Some disk"
  using assms by (rule embed_4k_fails)

theorem gpt_embed_4k_fails_witness:
  "\<exists>files'. bios_install False (replicate 2560 7) (\<lambda>_. 0) [] [''bios-install'', ''sda''] [''sda'' \<mapsto> example_4k] =
      (Ret EXIT_FAILURE, files') \<and> files' ''sda'' = Some example_4k"
  using gpt_embed_4k_fails [of "[''sda'' \<mapsto> example_4k]" "[''bios-install'', ''sda'']"
      "default_opts\<lparr>io_device := Some ''sda''\<rparr>" "''sda''" example_4k "replicate 2560 7" "\<lambda>_. 0"]
    example_4k_embeddable example_4k_fields
  by (simp add: default_opts_def example_image UNINSTALL_FILE_OPT_def)

end
