(* ===== verification/Limine_Iso_Run.thy ===== *)
theory Limine_Iso_Run
  imports Limine_Gpt_Run
begin

text \<open>
  What an installation without I/O errors does to an ISOHYBRID, a disk that is both an ISO 9660 volume
  and has a GPT (\<open>bios_install\<close> in \<open>limine.c\<close>): the tables are cleared, their partitions become entries of
  a master boot record, and the boot image goes behind it.
\<close>

section \<open>The partitions\<close>

definition used_entries :: "u8 list \<Rightarrow> nat \<Rightarrow> nat list" where
  "used_entries v lb = filter (\<lambda>k. entry_used v (entry_at v lb k)) [0..<gpt_entry_count v lb]"

text \<open>The type of an entry in an MBR, \<open>-1\<close> when there is none.\<close>

definition entry_type :: "u8 list \<Rightarrow> nat \<Rightarrow> int" where
  "entry_type v e = gpt2mbr_type (of_nat (le_nat (slice_at v e 8))) (of_nat (le_nat (slice_at v (e + 8) 8)))"

definition convertible :: "u8 list \<Rightarrow> nat \<Rightarrow> bool" where
  "convertible v e \<longleftrightarrow> entry_start v e \<le> entry_end v e \<and> entry_end v e < 2 ^ 32 \<and> entry_type v e \<noteq> - 1"

definition part_of :: "u8 list \<Rightarrow> nat \<Rightarrow> part_to_conv" where
  "part_of v e = \<lparr>pc_lba_start = of_nat (entry_start v e), pc_lba_end = of_nat (entry_end v e),
     pc_chs_start = lba2chs (of_nat (entry_start v e)), pc_chs_end = lba2chs (of_nat (entry_end v e)),
     pc_type = of_int (entry_type v e)\<rparr>"

lemma entry_lbas:
  assumes "e + 128 \<le> length v"
  shows "ENDSWAP64 be (ge_starting_lba (load_gpt_entry be (slice_at v e 128))) = of_nat (entry_start v e)"
    "ENDSWAP64 be (ge_ending_lba (load_gpt_entry be (slice_at v e 128))) = of_nat (entry_end v e)"
    "gpt2mbr_type (ENDSWAP64 be (ge_partition_type_guid (load_gpt_entry be (slice_at v e 128)) ! 0))
      (ENDSWAP64 be (ge_partition_type_guid (load_gpt_entry be (slice_at v e 128)) ! 1)) = entry_type v e"
  using assms
  by (simp_all add: load_gpt_entry_def slice_slice ENDSWAP_load entry_start_def entry_end_def entry_type_def)

lemma evals_gather_parts:
  assumes "lb + 96 \<le> length v" "lb \<in> {512, 4096}" "length v < 2 ^ 63"
  shows "\<forall>k \<in> set js. entry_at v lb k + 128 \<le> whole v \<and>
      (entry_used v (entry_at v lb k) \<longrightarrow> convertible v (entry_at v lb k)) \<Longrightarrow>
    length parts + length (filter (\<lambda>k. entry_used v (entry_at v lb k)) js) \<le> 4 \<Longrightarrow>
    evals (gather_parts be (header_at be v lb) (of_nat lb) js parts) v i
      (Ret (Some (parts @ map (\<lambda>k. part_of v (entry_at v lb k)) (filter (\<lambda>k. entry_used v (entry_at v lb k)) js)))) v i"
proof (induction js arbitrary: parts)
  case Nil
  then show ?case by (simp add: evals_pret)
next
  case (Cons k js)
  let ?e = "entry_at v lb k"
  have e: "?e + 128 \<le> whole v" "?e + 128 \<le> length v" using Cons.prems(1) whole_le [of v] by fastforce+
  note read = evals_read_gpt_entry [OF assms(1,2) e(1) assms(3), of be i]
  note f = entry_fields(1) [OF e(2), of be] entry_lbas [OF e(2), of be]
  show ?case
  proof (cases "entry_used v ?e")
    case False
    then have "evals (gather_parts be (header_at be v lb) (of_nat lb) js parts) v i
      (Ret (Some (parts @ map (\<lambda>k. part_of v (entry_at v lb k)) (filter (\<lambda>k. entry_used v (entry_at v lb k)) js)))) v i"
      using Cons.prems by (intro Cons.IH) simp_all
    then show ?thesis
      unfolding gather_parts.simps using False f(1) by (intro evals_pbind [OF read]) simp
  next
    case True
    with Cons.prems(1) have c: "convertible v ?e" by simp
    then have small: "entry_end v ?e < 2 ^ 32" "entry_start v ?e < 2 ^ 32" "entry_type v ?e \<noteq> - 1"
      by (simp_all add: convertible_def)
    then have "unat (of_nat (entry_start v ?e) :: u64) = entry_start v ?e" "unat (of_nat (entry_end v ?e) :: u64) = entry_end v ?e"
      by (auto intro!: unat_of_nat_lt)
    then have lbas: "\<not> (of_nat (entry_start v ?e) :: u64) > 0xffffffff" "\<not> (of_nat (entry_end v ?e) :: u64) > 0xffffffff"
      using small by (simp_all add: word_less_nat_alt)
    have part: "part_of v ?e = \<lparr>pc_lba_start = of_nat (entry_start v ?e), pc_lba_end = of_nat (entry_end v ?e),
       pc_chs_start = lba2chs (of_nat (entry_start v ?e)), pc_chs_end = lba2chs (of_nat (entry_end v ?e)),
       pc_type = of_int (entry_type v ?e)\<rparr>" by (rule part_of_def)
    have "evals (gather_parts be (header_at be v lb) (of_nat lb) js (parts @ [part_of v ?e])) v i
      (Ret (Some ((parts @ [part_of v ?e]) @
        map (\<lambda>k. part_of v (entry_at v lb k)) (filter (\<lambda>k. entry_used v (entry_at v lb k)) js)))) v i"
      using Cons.prems True by (intro Cons.IH) simp_all
    moreover have "length parts < 4" using Cons.prems(2) True by simp
    ultimately show ?thesis
      unfolding gather_parts.simps Let_def
      using True f lbas small(3) by (intro evals_pbind [OF read]) (simp add: part)
  qed
qed

section \<open>Clearing the tables\<close>

lemma zero_run_blocks: "zero_run table lb 0 n v = splice_at v table (replicate (n * lb) 0)"
  by (simp add: zero_run_def)

text \<open>A disk to convert, as far as the conversion depends on it.\<close>

definition iso_gpt :: "u8 list \<Rightarrow> nat \<Rightarrow> bool" where
  "iso_gpt v lb \<longleftrightarrow> gpt_tables v lb \<and> slice_at v 32769 5 = ISO_SIGNATURE \<and> 34 * lb \<le> whole v \<and>
     32 \<le> gpt_alternate_lba v lb \<and> (gpt_alternate_lba v lb + 1) * lb \<le> whole v \<and>
     (\<forall>k < gpt_entry_count v lb. entry_at v lb k + 128 \<le> whole v) \<and> length (used_entries v lb) \<le> 4 \<and>
     (\<forall>k \<in> set (used_entries v lb). convertible v (entry_at v lb k))"

abbreviation backup_start :: "u8 list \<Rightarrow> nat \<Rightarrow> nat" where
  "backup_start v lb \<equiv> (gpt_alternate_lba v lb - 32) * lb"

definition tables_cleared :: "u8 list \<Rightarrow> nat \<Rightarrow> u8 list" where
  "tables_cleared v lb = zero_run (backup_start v lb) lb 0 33 (zero_run 0 lb 0 34 v)"

lemma evals_nuke:
  assumes v: "iso_gpt v lb" and i: "i + 67 \<le> 256"
  shows "evals (write_all device_write (nuke_primary (of_nat lb))) v i (Ret ()) (zero_run 0 lb 0 34 v) (i + 34)"
    "evals (write_all device_write (nuke_secondary be (header_at be v lb) (of_nat lb))) (zero_run 0 lb 0 34 v) (i + 34)
      (Ret ()) (tables_cleared v lb) (i + 67)"
proof -
  have lb: "lb \<in> {512, 4096}" "0 < lb" "unat (of_nat lb :: u64) = lb" "lb \<le> 4096" and len: "length v < 2 ^ 63" "lb + 96 \<le> length v"
    using v whole_le [of v] by (auto simp: iso_gpt_def gpt_tables_def)
  have fits: "34 * lb \<le> whole v" "32 \<le> gpt_alternate_lba v lb" "(gpt_alternate_lba v lb + 1) * lb \<le> whole v"
    using v by (simp_all add: iso_gpt_def)
  let ?alt = "gpt_alternate_lba v lb" and ?U = "backup_start v lb"
  have U: "?U + 33 * lb = (?alt + 1) * lb" using fits(2) by (simp flip: add_mult_distrib)
  have small: "whole v < 2 ^ 63" using len whole_le [of v] by linarith
  have loc1: "unat (of_nat k * of_nat lb :: u64) = 0 + k * lb" if "k < 34" for k
  proof -
    have "k * lb \<le> 34 * lb" using that by simp
    moreover have "unat (of_nat k :: u64) = k" using that by (intro unat_of_nat_lt) simp
    ultimately have "unat (of_nat k * of_nat lb :: u64) = k * lb"
      using fits(1) small by (intro lb_product(2) [OF lb(1) _ small]) linarith+
    then show ?thesis by simp
  qed
  have alt: "unat (ENDSWAP64 be (gh_alternate_lba (header_at be v lb))) = ?alt" using header_fields(1) [OF len(2)] .
  have "?alt * 1 \<le> ?alt * lb" using lb(2) by (intro mult_le_mono2) simp
  then have altsmall: "?alt < 2 ^ 63" using fits(3) small unfolding add_mult_distrib by linarith
  have loc2: "unat (((ENDSWAP64 be (gh_alternate_lba (header_at be v lb)) - 32) + of_nat k) * of_nat lb :: u64) = ?U + k * lb"
    if "k < 33" for k
  proof -
    have "unat (ENDSWAP64 be (gh_alternate_lba (header_at be v lb)) - 32) = ?alt - 32"
      using alt fits(2) by (simp add: unat_sub word_le_nat_alt)
    moreover have "unat (of_nat k :: u64) = k" using that by (intro unat_of_nat_lt) simp
    ultimately have s: "unat ((ENDSWAP64 be (gh_alternate_lba (header_at be v lb)) - 32) + of_nat k) = (?alt - 32) + k"
      using that altsmall by (subst unat_add_no_wrap) simp_all
    have "((?alt - 32) + k) * lb \<le> (?alt + 1) * lb" using that fits(2) by (intro mult_le_mono1) linarith
    then show ?thesis
      using s fits(3) small lb_product(2) [OF lb(1) _ small, of "(?alt - 32) + k"] by (simp add: add_mult_distrib)
  qed
  let ?w1 = "nuke_primary (of_nat lb)" and ?w2 = "nuke_secondary be (header_at be v lb) (of_nat lb)"
  let ?v1 = "zero_run 0 lb 0 34 v"
  have len1: "length ?v1 = length v" using fits(1) whole_le [of v] by (intro length_zero_run) simp_all
  have "unat (of_nat k * of_nat lb :: u64) + lb \<le> whole v" if k: "k < 34" for k
  proof -
    have "(k + 1) * lb \<le> 34 * lb" using k by (intro mult_le_mono1) simp
    then show ?thesis using loc1 [OF k] fits(1) unfolding add_mult_distrib by linarith
  qed
  then have fit1: "writes_fit (whole v) ?w1"
    using lb(3,4) by (auto simp: writes_fit_def nuke_primary_def)
  have "unat (((ENDSWAP64 be (gh_alternate_lba (header_at be v lb)) - 32) + of_nat k) * of_nat lb :: u64) + lb \<le> whole v"
    if k: "k < 33" for k
  proof -
    have "(k + 1) * lb \<le> 33 * lb" using k by (intro mult_le_mono1) simp
    then show ?thesis using loc2 [OF k] fits(3) U unfolding add_mult_distrib by linarith
  qed
  then have fit2: "writes_fit (whole v) ?w2"
    using lb(3,4) by (auto simp: writes_fit_def nuke_secondary_def)
  have ap1: "apply_writes ?w1 v = ?v1"
    unfolding nuke_primary_def lb(3) by (rule apply_zero_writes [OF loc1]) (use fits(1) whole_le [of v] in simp_all)
  have ap2: "apply_writes ?w2 ?v1 = tables_cleared v lb"
    unfolding nuke_secondary_def lb(3) tables_cleared_def
    by (rule apply_zero_writes [OF loc2]) (use fits(3) U len1 whole_le [of v] in simp_all)
  have solid: "[] \<notin> fst ` set ?w1" "[] \<notin> fst ` set ?w2" "length ?w1 = 34" "length ?w2 = 33"
    using lb(2,3) by (auto simp: nuke_primary_def nuke_secondary_def)
  show "evals (write_all device_write ?w1) v i (Ret ()) ?v1 (i + 34)"
    using evals_write_all [OF fit1 _ solid(1), of i] ap1 i solid(3) by simp
  show "evals (write_all device_write ?w2) ?v1 (i + 34) (Ret ()) (tables_cleared v lb) (i + 67)"
    using evals_write_all [of ?v1 ?w2 "i + 34"] fit2 ap2 i solid(2,4) whole_cong [OF len1] by (simp add: add.commute)
qed

section \<open>Writing the entries\<close>

text \<open>The 16 bytes of an entry: the flag stays 0.\<close>

definition mbr_entry :: "part_to_conv \<Rightarrow> u8 list" where
  "mbr_entry p = [0] @ pc_chs_start p @ [pc_type p] @ pc_chs_end p @
     le_bytes 4 (unat (pc_lba_start p)) @ le_bytes 4 (unat (pc_lba_end p - pc_lba_start p + 1))"

definition part_wf :: "part_to_conv \<Rightarrow> bool" where
  "part_wf p \<longleftrightarrow> length (pc_chs_start p) = 3 \<and> length (pc_chs_end p) = 3"

lemma length_mbr_entry: "part_wf p \<Longrightarrow> length (mbr_entry p) = 16"
  by (simp add: mbr_entry_def part_wf_def)

lemma store_low_half: "store_host False 4 (ucast (x :: u64) :: u32) = le_bytes 4 (unat x mod 2 ^ 32)"
  by (simp add: store_host_def unsigned_ucast_eq unsigned_take_bit_eq take_bit_eq_mod)

lemma le_bytes_mod: "le_bytes k (n mod 256 ^ k) = le_bytes k n"
proof (induction k arbitrary: n)
  case (Suc k)
  have "n mod 256 ^ Suc k div 256 = n div 256 mod 256 ^ k"
    by (simp add: mod_mult2_eq)
  moreover have "(of_nat (n mod 256 ^ Suc k) :: u8) = of_nat n"
    by (simp add: word_unat_eq_iff unat_of_nat_u8 mod_mod_cancel)
  ultimately show ?case using Suc [of "n div 256"] by simp
qed simp

lemma store_half: "store_host False 4 (ucast (x :: u64) :: u32) = le_bytes 4 (unat x)"
  using le_bytes_mod [of 4 "unat x"] by (simp add: store_low_half)

lemma less_16_cases:
  assumes "(j :: nat) < 16"
  obtains "j = 0" | "j = 1" | "j = 2" | "j = 3" | "j = 4" | "j = 5" | "j = 6" | "j = 7" | "j = 8" | "j = 9"
    | "j = 10" | "j = 11" | "j = 12" | "j = 13" | "j = 14" | "j = 15"
proof -
  from assms have "j \<in> set [0..<16]" by simp
  also have "[0..<16] = [0, 1, 2, 3, 4, 5, 6, 7, 8, 9, 10, 11, 12, 13, 14, 15 :: nat]" by (rule upt_16)
  finally show ?thesis using that by auto
qed

text \<open>On a little-endian host the five writes of an entry make up one.\<close>

lemma part_writes_eq:
  assumes p: "part_wf p" and i: "i < 4" and v: "446 + 16 * i + 16 \<le> length v" "v ! (446 + 16 * i) = 0"
  shows "apply_writes (part_writes False i p) v = splice_at v (446 + 16 * i) (mbr_entry p)"
proof -
  let ?e = "446 + 16 * i"
  obtain a b c where s: "pc_chs_start p = [a, b, c]"
    using p by (auto simp: part_wf_def numeral_3_eq_3 length_Suc_conv)
  obtain x y z where t: "pc_chs_end p = [x, y, z]"
    using p by (auto simp: part_wf_def numeral_3_eq_3 length_Suc_conv)
  let ?L = "le_bytes 4 (unat (pc_lba_start p))" and ?N = "le_bytes 4 (unat (pc_lba_end p - pc_lba_start p + 1))"
  have loc: "unat (450 + of_nat i * 16 :: u64) = 450 + 16 * i" "unat (454 + of_nat i * 16 :: u64) = 454 + 16 * i"
    "unat (458 + of_nat i * 16 :: u64) = 458 + 16 * i" "unat (447 + of_nat i * 16 :: u64) = 447 + 16 * i"
    "unat (451 + of_nat i * 16 :: u64) = 451 + 16 * i"
  proof -
    from i have "i = 0 \<or> i = 1 \<or> i = 2 \<or> i = 3" by auto
    then show "unat (450 + of_nat i * 16 :: u64) = 450 + 16 * i" "unat (454 + of_nat i * 16 :: u64) = 454 + 16 * i"
      "unat (458 + of_nat i * 16 :: u64) = 458 + 16 * i" "unat (447 + of_nat i * 16 :: u64) = 447 + 16 * i"
      "unat (451 + of_nat i * 16 :: u64) = 451 + 16 * i" by (elim disjE; simp)+
  qed
  have "apply_writes (part_writes False i p) v =
      splice_at (splice_at (splice_at (splice_at (splice_at v (?e + 4) [pc_type p]) (?e + 8) ?L) (?e + 12) ?N)
        (?e + 1) [a, b, c]) (?e + 5) [x, y, z]"
    by (simp add: part_writes_def Let_def loc store_half s t ENDSWAP64_def)
  also have "\<dots> = splice_at v ?e (mbr_entry p)"
  proof -
    obtain l0 l1 l2 l3 where L: "?L = [l0, l1, l2, l3]"
      using length_le_bytes [of 4 "unat (pc_lba_start p)"] by (auto simp: numeral_eq_Suc length_Suc_conv simp del: length_le_bytes le_bytes.simps)
    obtain n0 n1 n2 n3 where N: "?N = [n0, n1, n2, n3]"
      using length_le_bytes [of 4 "unat (pc_lba_end p - pc_lba_start p + 1)"]
      by (auto simp: numeral_eq_Suc length_Suc_conv simp del: length_le_bytes le_bytes.simps)
    have entry: "mbr_entry p = [0, a, b, c, pc_type p, x, y, z, l0, l1, l2, l3, n0, n1, n2, n3]"
      by (simp add: mbr_entry_def s t L N)
    show ?thesis
      unfolding L N entry
    proof (rule nth_equalityI, goal_cases)
      case 1
      then show ?case using v(1) by simp
    next
      case (2 k)
      then have k: "k < length v" using v(1) by simp
      show ?case
      proof (cases "?e \<le> k \<and> k < ?e + 16")
        case False
        then show ?thesis using v(1) k by (auto simp: nth_splice)
      next
        case True
        then obtain j where "k = ?e + j" "j < 16" by (metis le_add_diff_inverse nat_add_left_cancel_less)
        then show ?thesis using v by (elim less_16_cases) (simp_all add: nth_splice)
      qed
    qed
  qed
  finally show ?thesis .
qed

lemma part_wf_part_of [simp]: "part_wf (part_of v e)"
  by (simp add: part_wf_def part_of_def)

lemma length_entries: "\<forall>p \<in> set ps. part_wf p \<Longrightarrow> length (concat (map mbr_entry ps)) = 16 * length ps"
  by (induction ps) (simp_all add: length_mbr_entry)

lemma all_part_writes:
  assumes ps: "\<forall>p \<in> set ps. part_wf p" "length ps \<le> 4" and v: "510 \<le> length v" "\<And>k. 446 \<le> k \<Longrightarrow> k < 510 \<Longrightarrow> v ! k = 0"
  shows "m \<le> length ps \<Longrightarrow> apply_writes (concat (map (\<lambda>i. part_writes False i (ps ! i)) [0..<m])) v =
    splice_at v 446 (concat (map mbr_entry (take m ps)))"
proof (induction m)
  case 0
  then show ?case by (simp add: apply_writes_def)
next
  case (Suc m)
  let ?X = "concat (map mbr_entry (take m ps))"
  have X: "length ?X = 16 * m"
    using Suc.prems ps(1) length_entries [of "take m ps"] by (auto dest: in_set_takeD)
  have app: "apply_writes (xs @ ys) w = apply_writes ys (apply_writes xs w)" for xs ys w
    by (simp add: apply_writes_def)
  have "apply_writes (concat (map (\<lambda>i. part_writes False i (ps ! i)) [0..<Suc m])) v =
      apply_writes (part_writes False m (ps ! m)) (splice_at v 446 ?X)"
    using Suc by (simp add: app)
  also have "\<dots> = splice_at (splice_at v 446 ?X) (446 + 16 * m) (mbr_entry (ps ! m))"
    using Suc.prems ps v X by (intro part_writes_eq) (simp_all add: nth_splice)
  also have "\<dots> = splice_at v 446 (?X @ mbr_entry (ps ! m))"
    using splice_append [of 446 ?X "mbr_entry (ps ! m)" v] X Suc.prems ps v(1) by (simp add: length_mbr_entry)
  finally show ?case using Suc.prems by (simp add: take_Suc_conv_app_nth)
qed

lemma disk_id_eq:
  assumes "444 \<le> length v"
  shows "apply_writes (disk_id_writes rnd) v = splice_at v 440 (map rnd [0..<4])"
proof -
  have four: "[0..<4] = [0, 1, 2, 3 :: nat]" by (simp add: upt_rec)
  have "apply_writes (disk_id_writes rnd) v =
      splice_at (splice_at (splice_at (splice_at v 440 [rnd 0]) 441 [rnd 1]) 442 [rnd 2]) 443 [rnd 3]"
    by (simp add: disk_id_writes_def four)
  also have "\<dots> = splice_at v 440 [rnd 0, rnd 1, rnd 2, rnd 3]"
    using assms splice_append [of 440 "[rnd 0]" "[rnd 1]" v] splice_append [of 440 "[rnd 0, rnd 1]" "[rnd 2]" v]
      splice_append [of 440 "[rnd 0, rnd 1, rnd 2]" "[rnd 3]" v] by simp
  finally show ?thesis by (simp add: four)
qed

definition iso_parts :: "u8 list \<Rightarrow> nat \<Rightarrow> part_to_conv list" where
  "iso_parts v lb = map (\<lambda>k. part_of v (entry_at v lb k)) (used_entries v lb)"

text \<open>The disk after the conversion: identifier and partition entries in a cleared first block.\<close>

definition iso_converted :: "(nat \<Rightarrow> u8) \<Rightarrow> u8 list \<Rightarrow> nat \<Rightarrow> u8 list" where
  "iso_converted rnd v lb =
     splice_at (splice_at (tables_cleared v lb) 440 (map rnd [0..<4])) 446 (concat (map mbr_entry (iso_parts v lb)))"

lemma nth_zero_run:
  "table + count * sz \<le> length v \<Longrightarrow> k < length v \<Longrightarrow>
   zero_run table sz 0 count v ! k = (if table \<le> k \<and> k < table + count * sz then 0 else v ! k)"
  by (auto simp: zero_run_def nth_splice)

lemma cleared_facts:
  assumes v: "iso_gpt v lb"
  shows "length (tables_cleared v lb) = length v" "17408 \<le> 34 * lb" "34 * lb \<le> length v"
    "k < 34 * lb \<Longrightarrow> tables_cleared v lb ! k = 0"
    "same_outside ({0..<34 * lb} \<union> {backup_start v lb..<(gpt_alternate_lba v lb + 1) * lb}) v (tables_cleared v lb)"
proof -
  have fits: "34 * lb \<le> length v" "(gpt_alternate_lba v lb + 1) * lb \<le> length v" "32 \<le> gpt_alternate_lba v lb" "512 \<le> lb"
    using v whole_le [of v] by (auto simp: iso_gpt_def gpt_tables_def)
  have U: "backup_start v lb + 33 * lb = (gpt_alternate_lba v lb + 1) * lb" using fits(3) by (simp flip: add_mult_distrib)
  let ?v1 = "zero_run 0 lb 0 34 v"
  have len1: "length ?v1 = length v" using fits(1) by (intro length_zero_run) simp_all
  then have fit2: "backup_start v lb + 33 * lb \<le> length ?v1" using U fits(2) by simp
  show len: "length (tables_cleared v lb) = length v"
    unfolding tables_cleared_def using fit2 len1 by (simp add: length_zero_run)
  show "17408 \<le> 34 * lb" "34 * lb \<le> length v" using fits by simp_all
  show "tables_cleared v lb ! k = 0" if "k < 34 * lb"
    unfolding tables_cleared_def using that fits(1) fit2 len1 by (simp add: nth_zero_run)
  have "tables_cleared v lb ! k = v ! k" if "k < length v" "34 * lb \<le> k"
    "k < backup_start v lb \<or> (gpt_alternate_lba v lb + 1) * lb \<le> k" for k
    unfolding tables_cleared_def using that fits(1) fit2 len1 by (auto simp: nth_zero_run U)
  then show "same_outside ({0..<34 * lb} \<union> {backup_start v lb..<(gpt_alternate_lba v lb + 1) * lb}) v (tables_cleared v lb)"
    using len by (fastforce simp: same_outside_def not_less)
qed

lemma iso_parts_facts:
  "iso_gpt v lb \<Longrightarrow> length (iso_parts v lb) \<le> 4" "\<forall>p \<in> set (iso_parts v lb). part_wf p"
  "length (concat (map mbr_entry (iso_parts v lb))) = 16 * length (iso_parts v lb)"
  using length_entries [of "iso_parts v lb"] by (auto simp: iso_gpt_def iso_parts_def)

lemma length_iso_converted: "iso_gpt v lb \<Longrightarrow> length (iso_converted rnd v lb) = length v"
  using cleared_facts [of v lb] iso_parts_facts [of v lb] by (simp add: iso_converted_def)

lemma part_writes_fit:
  assumes "i < 4" "part_wf p" "510 \<le> n"
  shows "writes_fit n (part_writes be i p)" "[] \<notin> fst ` set (part_writes be i p)" "length (part_writes be i p) = 5"
proof -
  have "i = 0 \<or> i = 1 \<or> i = 2 \<or> i = 3" using assms(1) by auto
  then show "writes_fit n (part_writes be i p)"
    using assms(2,3) by (elim disjE) (simp_all add: part_writes_def Let_def part_wf_def)
  show "[] \<notin> fst ` set (part_writes be i p)" "length (part_writes be i p) = 5"
    using assms(2) by (auto simp: part_writes_def Let_def part_wf_def dest: arg_cong [where f = length])
qed

lemma all_part_writes_fit:
  assumes ps: "\<forall>p \<in> set ps. part_wf p" "length ps \<le> 4" "510 \<le> n"
  shows "m \<le> length ps \<Longrightarrow> writes_fit n (concat (map (\<lambda>i. part_writes be i (ps ! i)) [0..<m])) \<and>
    [] \<notin> fst ` set (concat (map (\<lambda>i. part_writes be i (ps ! i)) [0..<m])) \<and>
    length (concat (map (\<lambda>i. part_writes be i (ps ! i)) [0..<m])) = 5 * m"
proof (induction m)
  case (Suc m)
  then have "m < 4" "part_wf (ps ! m)" using ps by simp_all
  from part_writes_fit [OF this ps(3), of be] Suc show ?case
    by (auto simp: writes_fit_def image_Un)
qed simp

lemma evals_convert:
  assumes v: "iso_gpt v lb"
  shows "evals (convert_to_mbr False rnd (header_at False v lb) (of_nat lb) (iso_parts v lb)) v 0 (Ret ())
    (iso_converted rnd v lb) (71 + 5 * length (iso_parts v lb))"
proof -
  let ?c = "tables_cleared v lb" and ?ps = "iso_parts v lb"
  let ?d = "splice_at ?c 440 (map rnd [0..<4])"
  let ?ws = "concat (map (\<lambda>i. part_writes False i (?ps ! i)) [0..<length ?ps])"
  note c = cleared_facts [OF v] and ps = iso_parts_facts [of v lb]
  have whole: "whole ?c = whole v" "whole ?d = whole v" "510 \<le> whole v"
    using c(1-3) v by (auto intro!: whole_cong simp: iso_gpt_def)
  have four: "i < 4 \<Longrightarrow> unat (0x1b8 + of_nat i :: u64) = 440 + i" for i
    by (subst unat_add_no_wrap) (simp_all add: unat_of_nat_lt)
  have ids: "writes_fit (whole v) (disk_id_writes rnd)" "[] \<notin> fst ` set (disk_id_writes rnd)" "length (disk_id_writes rnd) = 4"
    using whole(3) four by (auto simp: disk_id_writes_def writes_fit_def)
  have e1: "evals (write_all device_write (disk_id_writes rnd)) ?c 67 (Ret ()) ?d 71"
    using evals_write_all [of ?c "disk_id_writes rnd" 67] ids whole(1) disk_id_eq [of ?c rnd] c(1-3) by simp
  have "writes_fit (whole v) ?ws" "[] \<notin> fst ` set ?ws" "length ?ws = 5 * length ?ps"
    using all_part_writes_fit [OF ps(2) ps(1) [OF v] whole(3), of "length ?ps" False] by simp_all
  moreover have "apply_writes ?ws ?d = iso_converted rnd v lb"
    using all_part_writes [OF ps(2) ps(1) [OF v], of ?d "length ?ps"] c(1-4)
    by (simp add: iso_converted_def nth_splice)
  ultimately have "evals (write_all device_write ?ws) ?d 71 (Ret ()) (iso_converted rnd v lb) (71 + 5 * length ?ps)"
    using evals_write_all [of ?d ?ws 71] ps(1) [OF v] whole(2) by simp
  note rest = evals_pbind [OF e1 this]
  show ?thesis
    unfolding convert_to_mbr_def
    by (intro evals_allocate_bind evals_pbind [OF evals_nuke(1) [OF v]] evals_pbind [OF evals_nuke(2) [OF v]];
      simp add: rest)
qed

section \<open>The new master boot record\<close>

lemma iso_bytes:
  assumes v: "iso_gpt v lb" and k: "k < 34 * lb"
  shows "iso_converted rnd v lb ! k =
    (if 446 \<le> k \<and> k < 446 + 16 * length (iso_parts v lb) then concat (map mbr_entry (iso_parts v lb)) ! (k - 446)
     else if 440 \<le> k \<and> k < 444 then rnd (k - 440) else 0)"
proof -
  note c = cleared_facts [OF v] and ps = iso_parts_facts [of v lb]
  have "length (splice_at (tables_cleared v lb) 440 (map rnd [0..<4])) = length v" using c(1-3) by simp
  then show ?thesis
    unfolding iso_converted_def using c(1-4) ps(1) [OF v] ps(3) k
    by (subst nth_splice) (auto simp: nth_splice)
qed

lemma concat_entry:
  assumes "\<forall>p \<in> set ps. part_wf p" "i < length ps" "j < 16"
  shows "concat (map mbr_entry ps) ! (16 * i + j) = mbr_entry (ps ! i) ! j"
  using nth_concat_uniform [of "map mbr_entry ps" 16 "16 * i + j"] assms by (simp add: length_mbr_entry)

lemma iso_entry_byte:
  assumes v: "iso_gpt v lb" and j: "j < 16" and i: "i < 4"
  shows "iso_converted rnd v lb ! (446 + 16 * i + j) =
    (if i < length (iso_parts v lb) then mbr_entry (iso_parts v lb ! i) ! j else 0)"
proof -
  note ps = iso_parts_facts [of v lb]
  have "446 + 16 * i + j < 34 * lb" using i j cleared_facts(2) [OF v] by linarith
  moreover have "16 * i + j < 16 * length (iso_parts v lb) \<longleftrightarrow> i < length (iso_parts v lb)" using j by auto
  ultimately show ?thesis
    using iso_bytes [OF v, of "446 + 16 * i + j"] concat_entry [OF ps(2) _ j, of i] by auto
qed

lemma entry_type_range: "entry_type v e \<noteq> - 1 \<Longrightarrow> (of_int (entry_type v e) :: u8) \<noteq> 0"
  by (auto simp: entry_type_def gpt2mbr_type_def gpt2mbr_type_conv_table_def split: if_splits)

lemma iso_slice_zero:
  assumes v: "iso_gpt v lb" and out: "i + n \<le> 440 \<or> 510 \<le> i" "i + n \<le> 34 * lb"
  shows "slice_at (iso_converted rnd v lb) i n = replicate n 0"
proof (rule nth_equalityI)
  have len: "i + n \<le> length (iso_converted rnd v lb)"
    using out(2) cleared_facts(3) [OF v] length_iso_converted [OF v, of rnd] by linarith
  then show "length (slice_at (iso_converted rnd v lb) i n) = length (replicate n (0 :: u8))" by simp
  fix j assume "j < length (slice_at (iso_converted rnd v lb) i n)"
  with len have j: "j < n" by simp
  with len iso_bytes [OF v, of "i + j" rnd] out iso_parts_facts(1) [OF v]
  show "slice_at (iso_converted rnd v lb) i n ! j = replicate n 0 ! j" by (auto simp: nth_slice)
qed

abbreviation all_high :: "u8 list \<Rightarrow> nat \<Rightarrow> bool" where
  "all_high v lb \<equiv> \<forall>k \<in> set (used_entries v lb). 63 \<le> entry_start v (entry_at v lb k)"

lemma mbr_entry_nth:
  assumes "part_wf p"
  shows "mbr_entry p ! 0 = 0" "mbr_entry p ! 4 = pc_type p" "j < 4 \<Longrightarrow> mbr_entry p ! (8 + j) = le_bytes 4 (unat (pc_lba_start p)) ! j"
  using assms by (simp_all add: mbr_entry_def part_wf_def nth_append)

lemma iso_entry:
  fixes rnd :: "nat \<Rightarrow> u8"
  assumes v: "iso_gpt v lb" and i: "i < 4"
  defines "w \<equiv> iso_converted rnd v lb" and "e \<equiv> 446 + 16 * i"
  shows "w ! e = 0" "entry_too_low w e \<longleftrightarrow>
    i < length (used_entries v lb) \<and> entry_start v (entry_at v lb (used_entries v lb ! i)) < 63"
proof -
  note ps = iso_parts_facts [of v lb] and byte = iso_entry_byte [OF v _ i, of _ rnd, folded w_def e_def]
  have n: "length (iso_parts v lb) = length (used_entries v lb)" by (simp add: iso_parts_def)
  show "w ! e = 0" using byte [of 0] ps(2) mbr_entry_nth(1) by (simp split: if_splits)
  have len: "e + 16 \<le> length w"
    using cleared_facts(2,3) [OF v] i length_iso_converted [OF v, of rnd] by (simp add: w_def e_def)
  show "entry_too_low w e \<longleftrightarrow> i < length (used_entries v lb) \<and> entry_start v (entry_at v lb (used_entries v lb ! i)) < 63"
  proof (cases "i < length (used_entries v lb)")
    case False
    then have "w ! (e + 4) = 0" using byte [of 4] n by simp
    with False show ?thesis by (simp add: entry_too_low_def)
  next
    case True
    let ?p = "iso_parts v lb ! i" and ?E = "entry_at v lb (used_entries v lb ! i)"
    have p: "?p = part_of v ?E" "part_wf ?p" using True by (simp_all add: iso_parts_def)
    have c: "convertible v ?E" using v True by (simp add: iso_gpt_def)
    then have "w ! (e + 4) \<noteq> 0"
      using byte [of 4] True n mbr_entry_nth(2) [OF p(2)] entry_type_range [of v ?E]
      by (simp add: p(1) part_of_def convertible_def)
    moreover have small: "entry_start v ?E < 2 ^ 32" using c by (simp add: convertible_def)
    then have "unat (pc_lba_start ?p) = entry_start v ?E" by (simp add: p(1) part_of_def unat_of_nat_lt)
    then have "slice_at w (e + 8) 4 = le_bytes 4 (entry_start v ?E)"
      using len True n by (intro nth_equalityI) (simp_all add: nth_slice byte mbr_entry_nth(3) [OF p(2)] add.assoc)
    then have "le_nat (slice_at w (e + 8) 4) = entry_start v ?E" using small by (simp add: le_nat_le_bytes)
    ultimately show ?thesis using True by (simp add: entry_too_low_def)
  qed
qed

lemma mbr_entries_eq: "set mbr_entries = (\<lambda>i. 446 + 16 * i) ` {..<4}"
proof -
  have "{..<4 :: nat} = {0, 1, 2, 3}" by auto
  then show ?thesis by (simp add: mbr_entries_def)
qed

lemma iso_mbr_valid:
  assumes v: "iso_gpt v lb"
  shows "mbr_valid (iso_converted rnd v lb) \<longleftrightarrow> all_high v lb"
    "with_active (iso_converted rnd v lb) = splice_at (iso_converted rnd v lb) 446 [0x80]"
proof -
  let ?w = "iso_converted rnd v lb"
  have big: "17408 \<le> 34 * lb" by (rule cleared_facts(2) [OF v])
  have n4: "length (used_entries v lb) \<le> 4" using v by (simp add: iso_gpt_def)
  have "no_signatures ?w"
    using iso_slice_zero [OF v, of _ _ rnd] big
    by (simp add: no_signatures_def ECH_FS_def NTFS_def FAT_def FAT32_def replicate_neq_Cons)
  moreover have "\<forall>i < 4. entry_status_ok ?w (446 + 16 * i)"
    using iso_entry(1) [OF v, of _ rnd] by (simp add: entry_status_ok_def)
  moreover have "(\<forall>i < 4. \<not> entry_too_low ?w (446 + 16 * i)) \<longleftrightarrow>
      (\<forall>i < length (used_entries v lb). 63 \<le> entry_start v (entry_at v lb (used_entries v lb ! i)))"
    using iso_entry(2) [OF v, of _ rnd] less_le_trans [OF _ n4] by (metis not_less)
  ultimately show "mbr_valid ?w \<longleftrightarrow> all_high v lb"
    by (auto simp: mbr_valid_def mbr_entries_eq all_set_conv_all_nth)
  have "\<not> (\<exists>e \<in> set mbr_entries. entry_active ?w e)"
    using iso_entry(1) [OF v, of _ rnd] by (simp add: mbr_entries_eq entry_active_def)
  then show "with_active ?w = splice_at ?w 446 [0x80]" unfolding with_active_def by (rule if_not_P)
qed

section \<open>The run\<close>

lemma evals_install_iso:
  assumes v: "iso_gpt v lb" and opts: "\<not> io_force_mbr opts" "io_gpt2mbr_allowed opts"
    and img: "image_ok img" "length img \<le> whole v"
  shows "\<exists>j. j \<le> 256 \<and> evals (install_body False img rnd opts) v 0 (if all_high v lb then Ret () else Bail)
    (mbr_installed False img (with_active (iso_converted rnd v lb))) j"
proof -
  let ?w = "iso_converted rnd v lb" and ?n = "71 + 5 * length (iso_parts v lb)"
  let ?h = "header_at False v lb" and ?gpt = "Some (header_at False v lb, header_at False v (backup_at v lb), of_nat lb :: u64)"
  have tab: "gpt_tables v lb" and sig: "slice_at v 32769 5 = ISO_SIGNATURE" and parts: "length (used_entries v lb) \<le> 4"
    "\<forall>k \<in> set (used_entries v lb). convertible v (entry_at v lb k)" "\<forall>k < gpt_entry_count v lb. entry_at v lb k + 128 \<le> whole v"
    using v by (simp_all add: iso_gpt_def)
  have lb: "lb + 96 \<le> length v" "lb \<in> {512, 4096}" "length v < 2 ^ 63" "32774 \<le> whole v"
    using tab whole_le [of v] by (auto simp: gpt_tables_def)
  have gather: "evals (gather_parts False ?h (of_nat lb) [0..<gpt_entry_count v lb] []) v 0 (Ret (Some (iso_parts v lb))) v 0"
    using evals_gather_parts [OF lb(1-3), of "[0..<gpt_entry_count v lb]" "[]" False 0] parts
    by (simp add: used_entries_def iso_parts_def)
  have "evals (pbind (convert_to_mbr False rnd ?h (of_nat lb) (iso_parts v lb)) (\<lambda>_. pret False)) v 0 (Ret False) ?w ?n"
    by (rule evals_pbind [OF evals_convert [OF v] evals_pret])
  then have "evals (isohybrid_conversion False rnd ?h (of_nat lb)) v 0 (Ret False) ?w ?n"
    unfolding isohybrid_conversion_def header_fields(4,3) [OF lb(1)]
    by (intro evals_read_bind) (use lb(4) sig in \<open>simp_all add: evals_pbind [OF gather]\<close>)
  then have "evals (pbind (isohybrid_conversion False rnd ?h (of_nat lb)) (\<lambda>still. pret (if still then ?gpt else None)))
      v 0 (Ret None) ?w ?n"
    by (rule evals_pbind) (simp add: evals_pret)
  then have conv: "evals (if io_gpt2mbr_allowed opts then pbind (isohybrid_conversion False rnd ?h (of_nat lb))
      (\<lambda>still. pret (if still then ?gpt else None)) else pret ?gpt) v 0 (Ret None) ?w ?n"
    using opts(2) by simp
  have whole: "whole ?w = whole v" by (rule whole_cong [OF length_iso_converted [OF v]])
  obtain j where j: "j \<le> ?n + 10" "evals (mbr_path False img opts) ?w ?n (if all_high v lb then Ret () else Bail)
      (mbr_installed False img (with_active ?w)) j"
    using evals_mbr_path [OF opts(1) img(1), of ?w ?n False] whole img(2) lb(4) iso_parts_facts(1) [OF v] iso_mbr_valid(1) [OF v, of rnd]
    by auto
  have "evals (install_body False img rnd opts) v 0 (if all_high v lb then Ret () else Bail)
      (mbr_installed False img (with_active ?w)) j"
    unfolding install_body_def
    using opts(1) by (simp only: if_False) (rule evals_pbind [OF evals_find_gpt_disk [OF tab]];
      unfold option.case prod.case; rule evals_pbind [OF conv]; use j(2) opts(1) in simp)
  moreover have "j \<le> 256" using j(1) iso_parts_facts(1) [OF v] by simp
  ultimately show ?thesis by blast
qed

text \<open>The partition table that the conversion leaves, its first entry made active.\<close>

definition iso_table :: "u8 list \<Rightarrow> nat \<Rightarrow> u8 list" where
  "iso_table v lb = splice_at (concat (map mbr_entry (iso_parts v lb)) @ replicate (64 - 16 * length (iso_parts v lb)) 0) 0 [0x80]"

abbreviation iso_cleared_bytes :: "u8 list \<Rightarrow> nat \<Rightarrow> nat set" where
  "iso_cleared_bytes v lb \<equiv> {0..<34 * lb} \<union> {backup_start v lb..<(gpt_alternate_lba v lb + 1) * lb}"

lemma iso_active_facts:
  fixes rnd :: "nat \<Rightarrow> u8"
  assumes v: "iso_gpt v lb"
  defines "w \<equiv> with_active (iso_converted rnd v lb)"
  shows "length w = length v" "slice_at w 440 4 = map rnd [0..<4]" "slice_at w 446 64 = iso_table v lb"
    "same_outside (iso_cleared_bytes v lb) v w"
proof -
  let ?w = "iso_converted rnd v lb" and ?E = "concat (map mbr_entry (iso_parts v lb))" and ?n = "length (iso_parts v lb)"
  note c = cleared_facts [OF v] and ps = iso_parts_facts [of v lb]
  have len: "length ?w = length v" "510 \<le> length v" using length_iso_converted [OF v] c(2,3) by simp_all
  have w: "w = splice_at ?w 446 [0x80]" unfolding w_def by (rule iso_mbr_valid(2) [OF v])
  show "length w = length v" using len by (simp add: w)
  have "slice_at ?w 440 4 = map rnd [0..<4]"
    using len c(2) by (intro nth_equalityI) (simp_all add: nth_slice iso_bytes [OF v])
  then show "slice_at w 440 4 = map rnd [0..<4]" using len by (simp add: w slice_splice_other)
  have "slice_at ?w 446 64 = ?E @ replicate (64 - 16 * ?n) 0"
    using len c(2) ps(1) [OF v] ps(3) by (intro nth_equalityI) (auto simp: nth_slice iso_bytes [OF v] nth_append)
  moreover have "slice_at w 446 64 = splice_at (slice_at ?w 446 64) 0 [0x80]"
    using len by (intro nth_equalityI) (auto simp: w nth_slice nth_splice)
  ultimately show "slice_at w 446 64 = iso_table v lb" by (simp add: iso_table_def)
  have "same_outside (iso_cleared_bytes v lb) (tables_cleared v lb) ?w"
    unfolding iso_converted_def
    by (rule same_outside_trans; rule same_outside_splice)
       (use c(1-3) ps(1) [OF v] ps(3) in auto)
  moreover have "same_outside (iso_cleared_bytes v lb) ?w w"
    unfolding w by (rule same_outside_splice) (use c(2) len in auto)
  ultimately show "same_outside (iso_cleared_bytes v lb) v w" using c(5) same_outside_trans by blast
qed

lemma same_outside_mbr:
  assumes "image_ok img" "length img \<le> length v"
  shows "same_outside {0..<length img} v (mbr_installed be img v)"
proof -
  let ?r = "mbr_installed be img v"
  have layout: "length ?r = length v" "drop (length img) ?r = drop (length img) v"
    using mbr_layout [OF assms, of be] by (simp_all add: Let_def)
  have "?r ! k = v ! k" if "length img \<le> k" "k < length v" for k
    using that layout nth_drop [of "length img" ?r "k - length img"] nth_drop [of "length img" v "k - length img"] by simp
  with layout(1) show ?thesis by (simp add: same_outside_def not_less)
qed

lemma slice_within:
  assumes "slice_at r i n = slice_at w i n" "i + n \<le> length r" "i + n \<le> length w" "j + k \<le> n"
  shows "slice_at r (i + j) k = slice_at w (i + j) k"
  using slice_slice [of j k n i r] slice_slice [of j k n i w] assms by simp

section \<open>Properties\<close>


section \<open>A small ISOHYBRID\<close>

definition example_part :: "u8 list" where
  "example_part = le_bytes 8 0x11d2f81fc12a7328 @ le_bytes 8 0x3bc93ec9a0004bba @ replicate 16 2 @ le_bytes 8 80 @ le_bytes 8 97 @
     replicate 80 0"

definition example_iso :: "u8 list" where
  "example_iso = splice_at (splice_at (splice_at (splice_at (replicate 67072 0) 512 (example_header 130 2))
     1024 example_part) 32769 ISO_SIGNATURE) 66560 (example_header 1 98)"

lemma example_iso_lengths [simp]: "length example_part = 128" "length ISO_SIGNATURE = 5" "length example_iso = 67072"
  by (simp_all add: example_part_def example_iso_def ISO_SIGNATURE_def)

lemma example_iso_slices:
  "i + k \<le> 96 \<Longrightarrow> slice_at example_iso (512 + i) k = slice_at (example_header 130 2) i k"
  "i + k \<le> 96 \<Longrightarrow> slice_at example_iso (66560 + i) k = slice_at (example_header 1 98) i k"
  "i + k \<le> 128 \<Longrightarrow> slice_at example_iso (1024 + i) k = slice_at example_part i k"
  "1152 \<le> i \<Longrightarrow> i + k \<le> 32769 \<Longrightarrow> slice_at example_iso i k = replicate k 0"
  "slice_at example_iso 32769 5 = ISO_SIGNATURE"
  by (simp_all add: example_iso_def slice_splice_other slice_splice_inner slice_replicate slice_splice_same)

lemma example_iso_fields:
  "gpt_alternate_lba example_iso 512 = 130" "gpt_entry_lba example_iso 512 = 2" "gpt_entry_count example_iso 512 = 2"
  "gpt_entry_size example_iso 512 = 128" "whole example_iso = 67072"
  using example_iso_slices(1) [of 32 8] example_iso_slices(1) [of 72 8] example_iso_slices(1) [of 80 4] example_iso_slices(1) [of 84 4]
  by (simp_all add: gpt_alternate_lba_def gpt_entry_lba_def gpt_entry_count_def gpt_entry_size_def example_header_slices
      le_nat_le_bytes whole_def)

lemma example_part_slices:
  "slice_at example_part 0 8 = le_bytes 8 0x11d2f81fc12a7328" "slice_at example_part 8 8 = le_bytes 8 0x3bc93ec9a0004bba"
  "slice_at example_part 16 16 = replicate 16 2" "slice_at example_part 32 8 = le_bytes 8 80" "slice_at example_part 40 8 = le_bytes 8 97"
  by (simp_all add: example_part_def slice_at_def)

lemma example_iso_entry:
  "entry_used example_iso 1024" "\<not> entry_used example_iso 1152" "entry_start example_iso 1024 = 80" "entry_end example_iso 1024 = 97"
  "entry_type example_iso 1024 = 0xef"
  using example_iso_slices(3) [of 0 8] example_iso_slices(3) [of 8 8] example_iso_slices(3) [of 16 16]
    example_iso_slices(3) [of 32 8] example_iso_slices(3) [of 40 8] example_iso_slices(4) [of 1168 16]
  by (simp_all add: entry_used_def entry_start_def entry_end_def entry_type_def example_part_slices le_nat_le_bytes
      replicate_eq_replicate gpt2mbr_type_def gpt2mbr_type_conv_table_def)

lemma example_iso_used: "used_entries example_iso 512 = [0]"
  using example_iso_entry(1,2) by (simp add: used_entries_def example_iso_fields entry_at_def numeral_2_eq_2)

lemma example_iso_gpt: "iso_gpt example_iso 512"
  using example_iso_slices(1) [of 0 8] example_iso_slices(2) [of 0 8] example_iso_slices(5) example_iso_entry
  by (auto simp: iso_gpt_def gpt_tables_def example_iso_fields example_header_slices example_iso_used convertible_def
      entry_at_def less_2_cases_iff)


end
