(* ===== verification/Limine_Faults.thy ===== *)
theory Limine_Faults
  imports Limine_Run
begin

text \<open>
  The host tool under I/O errors: an operation that reports success in spite of the fault script has
  done what it does without faults. This is followed from the stream through the cache, the reads and
  writes up to the installation; \<open>honest\<close> is the judgement that carries it through a program.
\<close>

section \<open>Operations that survive a fault script\<close>

definition no_faults :: "dev \<Rightarrow> dev" where
  "no_faults d = d\<lparr>dv_faults := []\<rparr>"

lemma no_faults_simps [simp]:
  "dv_disk (no_faults d) = dv_disk d" "dv_pos (no_faults d) = dv_pos d" "dv_faults (no_faults d) = []"
  "dv_cache_state (no_faults d) = dv_cache_state d" "dv_cached_block (no_faults d) = dv_cached_block d"
  "dv_cache (no_faults d) = dv_cache d" "dv_block_size (no_faults d) = dv_block_size d"
  "dv_uninstalling (no_faults d) = dv_uninstalling d" "dv_uninstall_data (no_faults d) = dv_uninstall_data d"
  "dv_uninstall_data_rev (no_faults d) = dv_uninstall_data_rev d"
  "dv_uninstall_data_i (no_faults d) = dv_uninstall_data_i d" "no_faults (no_faults d) = no_faults d"
  by (simp_all add: no_faults_def)

lemma no_faults_update [simp]:
  "no_faults (d\<lparr>dv_cache := c\<rparr>) = (no_faults d)\<lparr>dv_cache := c\<rparr>"
  "no_faults (d\<lparr>dv_cache_state := s\<rparr>) = (no_faults d)\<lparr>dv_cache_state := s\<rparr>"
  "no_faults (d\<lparr>dv_cached_block := b\<rparr>) = (no_faults d)\<lparr>dv_cached_block := b\<rparr>"
  "no_faults (d\<lparr>dv_uninstall_data := l\<rparr>) = (no_faults d)\<lparr>dv_uninstall_data := l\<rparr>"
  "no_faults (d\<lparr>dv_uninstall_data_i := i\<rparr>) = (no_faults d)\<lparr>dv_uninstall_data_i := i\<rparr>"
  "no_faults (d\<lparr>dv_uninstalling := u\<rparr>) = (no_faults d)\<lparr>dv_uninstalling := u\<rparr>"
  by (simp_all add: no_faults_def)

definition survives :: "(dev \<Rightarrow> bool \<times> dev) \<Rightarrow> bool" where
  "survives op \<longleftrightarrow> (\<forall>d d'. op d = (True, d') \<longrightarrow> op (no_faults d) = (True, no_faults d'))"

lemma survivesD: "survives op \<Longrightarrow> op d = (True, d') \<Longrightarrow> op (no_faults d) = (True, no_faults d')"
  by (simp add: survives_def)

lemma next_fault_False:
  "next_fault d = (False, d') \<Longrightarrow> next_fault (no_faults d) = (False, no_faults d') \<and> no_faults d' = no_faults d"
  by (auto simp: next_fault_def no_faults_def split: list.splits)

lemma survives_set_pos: "survives (set_pos pos)"
  unfolding survives_def
  by (auto simp: set_pos_def no_faults_def next_fault_def split: list.splits if_splits)

lemma survives_fread: "survives (fread_cache n)"
  unfolding survives_def
  by (auto simp: fread_cache_def no_faults_def next_fault_def Let_def split: list.splits if_splits)

lemma survives_fwrite: "survives (fwrite_cache n)"
  unfolding survives_def
  by (auto simp: fwrite_cache_def no_faults_def next_fault_def Let_def split: list.splits if_splits)

lemma survives_flush: "survives device_flush_cache"
  unfolding survives_def
proof (intro allI impI)
  fix d d' assume run: "device_flush_cache d = (True, d')"
  show "device_flush_cache (no_faults d) = (True, no_faults d')"
  proof (cases "dv_cache_state d")
    case CACHE_CLEAN
    with run show ?thesis by (simp add: device_flush_cache_def)
  next
    case CACHE_DIRTY
    with run obtain d1 d2 where s: "set_pos (dv_cached_block d * dv_block_size d) d = (True, d1)"
      "fwrite_cache (unat (dv_block_size d1)) d1 = (True, d2)" "d' = d2\<lparr>dv_cache_state := CACHE_CLEAN\<rparr>"
      by (auto simp: device_flush_cache_def split: prod.splits bool.splits)
    with CACHE_DIRTY survivesD [OF survives_set_pos s(1)] survivesD [OF survives_fwrite s(2)] show ?thesis
      by (simp add: device_flush_cache_def)
  qed
qed

lemma survives_cache_block: "survives (device_cache_block block)"
  unfolding survives_def
proof (intro allI impI)
  fix d d' assume run: "device_cache_block block d = (True, d')"
  show "device_cache_block block (no_faults d) = (True, no_faults d')"
  proof (cases "dv_cached_block d = block")
    case True
    with run show ?thesis by (simp add: device_cache_block_def)
  next
    case False
    let ?flush = "\<lambda>d. if dv_cache_state d = CACHE_DIRTY then device_flush_cache d else (True, d)"
    from False run obtain d1 d2 d3 where s: "?flush d = (True, d1)" "set_pos (block * dv_block_size d1) d1 = (True, d2)"
      "fread_cache (unat (dv_block_size d2)) d2 = (True, d3)" "d' = d3\<lparr>dv_cached_block := block\<rparr>"
      by (auto simp: device_cache_block_def split: prod.splits bool.splits)
    have "?flush (no_faults d) = (True, no_faults d1)"
      using s(1) survivesD [OF survives_flush] by (auto split: if_splits)
    with False survivesD [OF survives_set_pos s(2)] survivesD [OF survives_fread s(3)] s(4) show ?thesis
      by (simp add: device_cache_block_def)
  qed
qed

definition survives_prog :: "'a prog \<Rightarrow> bool" where
  "survives_prog m \<longleftrightarrow> (\<forall>d x d'. m d = (Ret x, d') \<longrightarrow> m (no_faults d) = (Ret x, no_faults d'))"

lemma survives_progD: "survives_prog m \<Longrightarrow> m d = (Ret x, d') \<Longrightarrow> m (no_faults d) = (Ret x, no_faults d')"
  by (simp add: survives_prog_def)

lemma survives_read: "survives_prog (device_read loc count)"
proof -
  have "device_read_loop loc count progress buffer d = (Ret x, d') \<Longrightarrow>
      device_read_loop loc count progress buffer (no_faults d) = (Ret x, no_faults d')" for progress buffer d x d'
  proof (induction loc count progress buffer d rule: device_read_loop.induct)
    case (1 loc count progress buffer d)
    show ?case
    proof (cases "progress < count")
      case False
      with 1(2) show ?thesis by (simp add: device_read_loop.simps [of loc count progress])
    next
      case True
      let ?bs = "dv_block_size d"
      let ?chunk = "chunk_size ?bs loc count progress"
      have bs: "?bs \<noteq> 0" using 1(2) True by (auto simp: device_read_loop.simps [of loc count progress] Let_def)
      with 1(2) True obtain d1 where d1: "device_cache_block ((loc + progress) div ?bs) d = (True, d1)"
        "device_read_loop loc count (progress + ?chunk)
          (buffer @ slice_at (dv_cache d1) (unat ((loc + progress) mod ?bs)) (unat ?chunk)) d1 = (Ret x, d')"
        by (auto simp: device_read_loop.simps [of loc count progress] Let_def split: prod.splits bool.splits)
      note IH = 1(1) [OF True refl bs refl d1(1) [symmetric] refl refl refl d1(2)]
      show ?thesis
        using True bs IH survivesD [OF survives_cache_block d1(1)]
        by (simp add: device_read_loop.simps [of loc count progress] Let_def)
    qed
  qed
  then show ?thesis by (simp add: survives_prog_def device_read_def)
qed

lemma survives_write_loop: "survives_prog (device_write_loop buffer loc count progress)"
proof -
  have "device_write_loop buffer loc count progress d = (Ret x, d') \<Longrightarrow>
      device_write_loop buffer loc count progress (no_faults d) = (Ret x, no_faults d')" for d x d'
  proof (induction buffer loc count progress d rule: device_write_loop.induct)
    case (1 buffer loc count progress d)
    show ?case
    proof (cases "progress < count")
      case False
      with 1(2) show ?thesis by (simp add: device_write_loop.simps [of buffer loc count progress])
    next
      case True
      let ?bs = "dv_block_size d"
      let ?chunk = "chunk_size ?bs loc count progress"
      have bs: "?bs \<noteq> 0" using 1(2) True by (auto simp: device_write_loop.simps [of buffer loc count progress] Let_def)
      with 1(2) True obtain d1 where d1: "device_cache_block ((loc + progress) div ?bs) d = (True, d1)"
        "device_write_loop buffer loc count (progress + ?chunk)
          (d1\<lparr>dv_cache := splice_at (dv_cache d1) (unat ((loc + progress) mod ?bs))
             (slice_at buffer (unat progress) (unat ?chunk)), dv_cache_state := CACHE_DIRTY\<rparr>) = (Ret x, d')"
        by (auto simp: device_write_loop.simps [of buffer loc count progress] Let_def split: prod.splits bool.splits)
      note IH = 1(1) [OF True refl bs refl d1(1) [symmetric] refl refl refl d1(2)]
      show ?thesis
        using True bs IH survivesD [OF survives_cache_block d1(1)]
        by (simp add: device_write_loop.simps [of buffer loc count progress] Let_def)
    qed
  qed
  then show ?thesis by (simp add: survives_prog_def)
qed

lemma survives_save_old: "survives_prog (save_old loc count)"
proof -
  have "save_old loc count (no_faults d) = (Ret x, no_faults d')" if run: "save_old loc count d = (Ret x, d')" for d x d'
  proof -
    from run obtain d1 where d1: "next_fault d = (False, d1)"
      by (auto simp: save_old_def split: if_splits prod.splits)
    with run obtain old d2 where d2: "device_read loc count d1 = (Ret old, d2)"
      by (auto simp: save_old_def split: if_splits outcome.splits prod.splits)
    show ?thesis
      using run d1 d2 next_fault_False [OF d1] survives_progD [OF survives_read d2]
      by (auto simp: save_old_def split: if_splits)
  qed
  then show ?thesis by (simp add: survives_prog_def)
qed

lemma survives_write: "survives_prog (device_write buffer loc count)"
proof -
  have "device_write buffer loc count (no_faults d) = (Ret x, no_faults d')"
    if run: "device_write buffer loc count d = (Ret x, d')" for d x d'
  proof -
    let ?save = "\<lambda>d. if dv_uninstalling d then (Ret (), d) else save_old loc count d"
    from run obtain d1 where d1: "?save d = (Ret (), d1)"
      by (auto simp: device_write_def split: outcome.splits prod.splits)
    with run obtain d2 where d2: "device_write_loop buffer loc count 0 d1 = (Ret (), d2)"
      by (auto simp: device_write_def split: outcome.splits prod.splits)
    have "?save (no_faults d) = (Ret (), no_faults d1)"
      using d1 survives_progD [OF survives_save_old, of loc count d "()" d1] by (auto split: if_splits)
    with run d1 d2 survives_progD [OF survives_write_loop d2] show ?thesis
      by (auto simp: device_write_def split: if_splits)
  qed
  then show ?thesis by (simp add: survives_prog_def)
qed

section \<open>Twins\<close>

text \<open>
  \<open>d0\<close> has no fault script, shows the same bytes and has the same log. Its block size may differ: a
  fault in \<open>device_init\<close> makes the tool try the next size, with which it can reach fewer bytes.
\<close>

definition twin :: "dev \<Rightarrow> dev \<Rightarrow> bool" where
  "twin d d0 \<longleftrightarrow> dev_ok (no_faults d) \<and> dev_ok d0 \<and> dev_view d0 = dev_view d \<and> dev_size d \<le> dev_size d0 \<and>
     dv_uninstalling d0 = dv_uninstalling d \<and> dv_uninstall_data d0 = dv_uninstall_data d \<and>
     dv_uninstall_data_rev d0 = dv_uninstall_data_rev d \<and> dv_uninstall_data_i d0 = dv_uninstall_data_i d"

lemma dev_view_no_faults [simp]: "dev_view (no_faults d) = dev_view d"
  by (simp add: dev_view_def)

lemma dev_size_no_faults [simp]: "dev_size (no_faults d) = dev_size d"
  by (simp add: dev_size_def)

lemma log_entry_view: "dev_view d = dev_view d' \<Longrightarrow> log_entry d loc count = log_entry d' loc count"
  by (simp add: log_entry_def)

lemma twin_same:
  assumes "twin d d0" "dev_ok (no_faults d')" "dev_ok d0'" "dev_view d0' = dev_view d'" "same_env d d'" "same_env d0 d0'"
  shows "twin d' d0'"
  using assms same_env_size [OF assms(5)] same_env_size [OF assms(6)] by (simp add: twin_def same_env_def)

lemma same_env_no_faults [simp]: "same_env (no_faults d) (no_faults d') = same_env d d'"
  by (simp add: same_env_def)

text \<open>Whatever \<open>m\<close> returns under faults it also returns without, with \<open>R\<close>.\<close>

definition honest :: "'a prog \<Rightarrow> ('a \<Rightarrow> bool) \<Rightarrow> bool" where
  "honest m R \<longleftrightarrow> (\<forall>d d0 x d'. twin d d0 \<and> \<not> dv_uninstalling d \<and> m d = (Ret x, d') \<longrightarrow>
     R x \<and> \<not> dv_uninstalling d' \<and> (\<exists>d0'. m d0 = (Ret x, d0') \<and> twin d' d0'))"

lemma honestD:
  "honest m R \<Longrightarrow> twin d d0 \<Longrightarrow> \<not> dv_uninstalling d \<Longrightarrow> m d = (Ret x, d') \<Longrightarrow>
   R x \<and> \<not> dv_uninstalling d' \<and> (\<exists>d0'. m d0 = (Ret x, d0') \<and> twin d' d0')"
  unfolding honest_def by blast

lemma honest_pret: "R x \<Longrightarrow> honest (pret x) R"
  by (auto simp: honest_def pret_def)

lemma honest_pbail: "honest pbail R"
  by (simp add: honest_def pbail_def)

lemma honest_pundefined: "honest pundefined R"
  by (simp add: honest_def pundefined_def)

lemma honest_weaken: "honest m R \<Longrightarrow> (\<And>x. R x \<Longrightarrow> R' x) \<Longrightarrow> honest m R'"
  unfolding honest_def by blast

lemma honest_pbind:
  assumes m: "honest m R" and f: "\<And>x. R x \<Longrightarrow> honest (f x) R'"
  shows "honest (pbind m f) R'"
  unfolding honest_def
proof (intro allI impI, elim conjE)
  fix d d0 x d' assume d: "twin d d0" "\<not> dv_uninstalling d" and run: "pbind m f d = (Ret x, d')"
  from run obtain y d1 where y: "m d = (Ret y, d1)" "f y d1 = (Ret x, d')"
    by (auto simp: pbind_def split: outcome.splits prod.splits)
  from honestD [OF m d y(1)] obtain d1' where d1: "R y" "\<not> dv_uninstalling d1" "m d0 = (Ret y, d1')" "twin d1 d1'"
    by blast
  from honestD [OF f [OF d1(1)] d1(4,2) y(2)] d1(3)
  show "R' x \<and> \<not> dv_uninstalling d' \<and> (\<exists>d0'. pbind m f d0 = (Ret x, d0') \<and> twin d' d0')"
    by (auto simp: pbind_def)
qed

lemma honest_if:
  "(b \<Longrightarrow> honest m R) \<Longrightarrow> (\<not> b \<Longrightarrow> honest m' R) \<Longrightarrow> honest (if b then m else m') R"
  by simp

lemma honest_option:
  "(x = None \<Longrightarrow> honest m R) \<Longrightarrow> (\<And>y. x = Some y \<Longrightarrow> honest (f y) R) \<Longrightarrow>
   honest (case x of None \<Rightarrow> m | Some y \<Rightarrow> f y) R"
  by (cases x) simp_all

lemma honest_pair: "(\<And>a b. x = (a, b) \<Longrightarrow> honest (f a b) R) \<Longrightarrow> honest (case x of (a, b) \<Rightarrow> f a b) R"
  by (cases x) simp

lemma honest_read: "honest (device_read loc count) (\<lambda>b. length b = unat count)"
  unfolding honest_def
proof (intro allI impI, elim conjE)
  fix d d0 x d' assume tw: "twin d d0" and un: "\<not> dv_uninstalling d" and run: "device_read loc count d = (Ret x, d')"
  from tw have ok: "dev_ok (no_faults d)" "dev_ok d0" and view: "dev_view d0 = dev_view d" by (simp_all add: twin_def)
  from survives_progD [OF survives_read run] device_read_out [OF ok(1)]
  have fits: "in_dev (no_faults d) loc count" by fastforce
  with tw have fits0: "in_dev d0 loc count" by (auto simp: twin_def)
  from device_read_in [OF ok(1) fits] survives_progD [OF survives_read run]
  have d': "x = slice_at (dev_view d) (unat loc) (unat count)" "dev_ok (no_faults d')"
    "dev_view d' = dev_view d" "same_env d d'" by auto
  from device_read_in [OF ok(2) fits0] obtain d0' where
    d0': "device_read loc count d0 = (Ret (slice_at (dev_view d) (unat loc) (unat count)), d0')" "dev_ok d0'"
      "dev_view d0' = dev_view d" "same_env d0 d0'" by (auto simp: view)
  have "length x = unat count"
    using fits dev_size_le [of d] length_dev_view [OF ok(1)] by (auto simp: d'(1))
  moreover have "\<not> dv_uninstalling d'" using un d'(4) by (simp add: same_env_def)
  moreover have "twin d' d0'" using d' d0' by (intro twin_same [OF tw]) simp_all
  ultimately show "length x = unat count \<and> \<not> dv_uninstalling d' \<and>
      (\<exists>d0'. device_read loc count d0 = (Ret x, d0') \<and> twin d' d0')"
    using d0'(1) d'(1) by blast
qed

lemma honest_write:
  assumes len: "length buffer = unat count"
  shows "honest (device_write buffer loc count) (\<lambda>_. True)"
  unfolding honest_def
proof (intro allI impI, elim conjE)
  fix d d0 x d' assume tw: "twin d d0" and un: "\<not> dv_uninstalling d"
    and run: "device_write buffer loc count d = (Ret x, d')"
  from tw have ok: "dev_ok (no_faults d)" "dev_ok d0" and view: "dev_view d0 = dev_view d"
    and un0: "\<not> dv_uninstalling (no_faults d)" "\<not> dv_uninstalling d0" using un by (simp_all add: twin_def)
  have run': "device_write buffer loc count (no_faults d) = (Ret x, no_faults d')"
    by (rule survives_progD [OF survives_write run])
  have "\<not> (\<not> in_dev (no_faults d) loc count \<or> \<not> dv_uninstall_data_i (no_faults d) < UNINSTALL_DATA_MAX)"
    using device_write_fails [OF ok(1) un0(1), where loc = loc and count = count and buffer = buffer] run' by fastforce
  then have fits: "in_dev (no_faults d) loc count" "dv_uninstall_data_i (no_faults d) < UNINSTALL_DATA_MAX" by blast+
  with tw have fits0: "in_dev d0 loc count" "dv_uninstall_data_i d0 < UNINSTALL_DATA_MAX" by (auto simp: twin_def)
  from device_write_in [OF ok(1) un0(1) fits(1) len fits(2)] run'
  have d': "dev_ok (no_faults d')" "dev_view d' = splice_at (dev_view d) (unat loc) buffer"
    "logs d d' (log_entry d loc count)" by (auto simp: logs_def log_entry_def)
  from device_write_in [OF ok(2) un0(2) fits0(1) len fits0(2)] obtain d0' where
    d0': "device_write buffer loc count d0 = (Ret (), d0')" "dev_ok d0'"
      "dev_view d0' = splice_at (dev_view d) (unat loc) buffer" "logs d0 d0' (log_entry d loc count)"
    by (auto simp: view log_entry_view [OF view])
  have "twin d' d0'"
    using tw d' d0' word_unat_eq_iff [of "dv_uninstall_data_i d0'" "dv_uninstall_data_i d'"]
    by (simp add: twin_def logs_def dev_size_def)
  moreover have "\<not> dv_uninstalling d'" using d'(3) un by (simp add: logs_def)
  ultimately show "True \<and> \<not> dv_uninstalling d' \<and>
      (\<exists>d0'. device_write buffer loc count d0 = (Ret x, d0') \<and> twin d' d0')" using d0'(1) by auto
qed

lemma honest_write_all:
  assumes "\<forall>(buffer, loc) \<in> set ws. length buffer < 2 ^ 64"
  shows "honest (write_all device_write ws) (\<lambda>_. True)"
  using assms
proof (induction ws)
  case Nil
  then show ?case by (auto simp: honest_def)
next
  case (Cons w ws)
  obtain buffer loc where w: "w = (buffer, loc)" by (cases w)
  have "unat (of_nat (length buffer) :: u64) = length buffer"
    using Cons.prems by (intro unat_of_nat_lt) (simp add: w)
  with Cons show ?case
    unfolding w write_all_pbind by (intro honest_pbind [OF honest_write]) auto
qed

lemma honest_write_list:
  "(\<And>i. i < n \<Longrightarrow> length (f i) < 2 ^ 64) \<Longrightarrow> honest (write_all device_write (map (\<lambda>i. (f i, g i)) [m..<n])) (\<lambda>_. True)"
  by (rule honest_write_all) auto

lemma twin_flush:
  assumes tw: "twin d d0" and run: "device_flush_cache d = (True, d')"
  shows "\<exists>d0'. device_flush_cache d0 = (True, d0') \<and> twin d' d0' \<and> dv_disk d' = dev_view d \<and>
    dv_disk d0' = dev_view d \<and> dv_cache_state d' = CACHE_CLEAN \<and> same_env d d' \<and> same_env d0 d0'"
proof -
  from tw have ok: "dev_ok (no_faults d)" "dev_ok d0" and view: "dev_view d0 = dev_view d" by (simp_all add: twin_def)
  from flush_ok [OF ok(1)] survivesD [OF survives_flush run]
  have d': "dev_ok (no_faults d')" "dv_cache_state d' = CACHE_CLEAN" "dv_disk d' = dev_view d" "same_env d d'" by auto
  from flush_ok [OF ok(2)] obtain d0' where d0': "device_flush_cache d0 = (True, d0')" "dev_ok d0'"
    "dv_cache_state d0' = CACHE_CLEAN" "dv_disk d0' = dev_view d" "same_env d0 d0'" by (auto simp: view)
  have "dev_view d0' = dev_view d'" using d' d0' by (simp add: dev_view_def)
  with d' d0' twin_same [OF tw d'(1) d0'(2) _ d'(4) d0'(5)] show ?thesis by blast
qed

lemma honest_flush: "honest (or_cleanup device_flush_cache) (\<lambda>_. True)"
  unfolding honest_def
proof (intro allI impI, elim conjE)
  fix d d0 x d' assume d: "twin d d0" "\<not> dv_uninstalling d" and run: "or_cleanup device_flush_cache d = (Ret x, d')"
  from run have "device_flush_cache d = (True, d')" by (auto simp: or_cleanup_def split: prod.splits bool.splits)
  from twin_flush [OF d(1) this] d(2)
  show "True \<and> \<not> dv_uninstalling d' \<and> (\<exists>d0'. or_cleanup device_flush_cache d0 = (Ret x, d0') \<and> twin d' d0')"
    by (auto simp: or_cleanup_def same_env_def)
qed

lemma next_fault_twin:
  "twin d d0 \<Longrightarrow> next_fault d = (bad, d') \<Longrightarrow>
   twin d' d0 \<and> dv_uninstalling d' = dv_uninstalling d \<and> next_fault d0 = (False, d0)"
proof -
  assume tw: "twin d d0" and run: "next_fault d = (bad, d')"
  from run have "no_faults d' = no_faults d" by (auto simp: next_fault_def no_faults_def split: list.splits)
  then have "twin d' d0 = twin d d0" "dv_uninstalling d' = dv_uninstalling d"
    unfolding twin_def by (metis dev_view_no_faults dev_size_no_faults no_faults_simps(8,9,10,11))+
  with tw show ?thesis by (simp add: twin_def dev_ok_no_fault)
qed

lemma honest_allocate: "honest allocate (\<lambda>_. True)"
  unfolding honest_def by (auto simp: allocate_def dest: next_fault_twin split: if_splits prod.splits)

text \<open>An allocation whose failure the code does not look at: it must not matter if the run returns.\<close>

lemma honest_fault_bind:
  assumes bad: "\<And>d x d'. f True d = (Ret x, d') \<Longrightarrow> f False d = (Ret x, d')" and f: "honest (f False) R"
  shows "honest (pbind fault f) R"
  unfolding honest_def
proof (intro allI impI, elim conjE)
  fix d d0 x d' assume d: "twin d d0" "\<not> dv_uninstalling d" and run: "pbind fault f d = (Ret x, d')"
  obtain b d1 where b: "next_fault d = (b, d1)" by fastforce
  note d1 = next_fault_twin [OF d(1) b]
  from run b bad [of d1 x d'] have "f False d1 = (Ret x, d')" by (cases b) (auto simp: pbind_def fault_def)
  from honestD [OF f _ _ this, of d0] d1 d(2)
  show "R x \<and> \<not> dv_uninstalling d' \<and> (\<exists>d0'. pbind fault f d0 = (Ret x, d0') \<and> twin d' d0')"
    by (auto simp: pbind_def fault_def)
qed

lemma honest_any: "honest m R \<Longrightarrow> honest m (\<lambda>_. True)"
  by (erule honest_weaken) simp

lemma honest_read_bind:
  "(\<And>b. length b = unat count \<Longrightarrow> honest (f b) R) \<Longrightarrow> honest (pbind (device_read loc count) f) R"
  by (rule honest_pbind [OF honest_read])

lemma honest_bind_any: "honest m (\<lambda>_. True) \<Longrightarrow> (\<And>x. honest (f x) R) \<Longrightarrow> honest (pbind m f) R"
  by (rule honest_pbind) blast+

section \<open>The GPT\<close>

lemma honest_probe_gpt: "honest (probe_gpt be force_mbr guesses) (\<lambda>r. \<forall>h lb. r = Some (h, lb) \<longrightarrow> header_wf h)"
  by (induction guesses) (auto simp: Let_def header_wf_load intro!: honest_pret honest_pbail honest_read_bind)

lemma honest_read_secondary: "honest (read_secondary be h lb_size) header_wf"
  unfolding read_secondary_def Let_def
  by (intro honest_read_bind honest_if honest_pret honest_pbail header_wf_load)

lemma honest_read_gpt_entry: "honest (read_gpt_entry be h lb_size i) (\<lambda>_. True)"
  unfolding read_gpt_entry_def by (intro honest_read_bind honest_pret) simp

lemma honest_gather_parts:
  "\<forall>p \<in> set parts. length (pc_chs_start p) = 3 \<and> length (pc_chs_end p) = 3 \<Longrightarrow>
   honest (gather_parts be h lb_size js parts)
     (\<lambda>r. \<forall>ps. r = Some ps \<longrightarrow> (\<forall>p \<in> set ps. length (pc_chs_start p) = 3 \<and> length (pc_chs_end p) = 3))"
proof (induction js arbitrary: parts)
  case Nil
  then show ?case by (simp add: honest_pret)
next
  case (Cons i js)
  then show ?case
    unfolding gather_parts.simps Let_def
    by (intro honest_bind_any [OF honest_read_gpt_entry] honest_if honest_pundefined honest_pret Cons.IH) auto
qed

lemma honest_convert_to_mbr:
  assumes "\<forall>p \<in> set parts. length (pc_chs_start p) = 3 \<and> length (pc_chs_end p) = 3"
  shows "honest (convert_to_mbr be rnd h lb_size parts) (\<lambda>_. True)"
  unfolding convert_to_mbr_def nuke_primary_def nuke_secondary_def disk_id_writes_def
  by (intro honest_bind_any [OF honest_allocate] honest_bind_any honest_write_list honest_write_all)
     (use assms unat_u64_less in \<open>auto simp: part_writes_def Let_def\<close>)

lemma honest_isohybrid: "honest (isohybrid_conversion be rnd h lb_size) (\<lambda>_. True)"
  unfolding isohybrid_conversion_def
  by (intro honest_read_bind honest_if honest_pret honest_pbind [OF honest_gather_parts] honest_option
      honest_bind_any [OF honest_convert_to_mbr]) auto

lemma honest_place_in_partition: "honest (place_in_partition be h lb_size size_a part_ndx) (\<lambda>_. True)"
  unfolding place_in_partition_def Let_def
  by (intro honest_option honest_pundefined honest_if honest_pbail honest_read_bind honest_pret) simp_all

lemma honest_max_entry_used: "honest (max_entry_used be h lb_size js k) (\<lambda>_. True)"
  by (induction js arbitrary: k) (auto intro: honest_pret honest_bind_any [OF honest_read_gpt_entry])

lemma honest_zero_entries: "honest (zero_entries be h lb_size bad n first count) (\<lambda>_. True)"
  unfolding zero_entries_def Let_def
proof (intro honest_if honest_pundefined honest_write_list)
  show "length (replicate (unat (ENDSWAP32 be (gh_size_of_partition_entry h))) (0 :: u8)) < 2 ^ 64"
    using unsigned_less [of "ENDSWAP32 be (gh_size_of_partition_entry h)", where 'a = nat] by simp
qed

lemma zero_entries_unchecked:
  "zero_entries be h lb_size True n first count d = (Ret x, d') \<Longrightarrow>
   zero_entries be h lb_size False n first count d = (Ret x, d')"
  by (auto simp: zero_entries_def Let_def pundefined_def split: if_splits)

lemma honest_write_header: "header_wf h \<Longrightarrow> honest (write_header be h loc) (\<lambda>_. True)"
  unfolding write_header_def by (rule honest_write) (simp add: length_store_header sizeof_gpt_table_header_def)

lemma pbind_Ret: "pbind m f d = (Ret x, d') \<longleftrightarrow> (\<exists>y d1. m d = (Ret y, d1) \<and> f y d1 = (Ret x, d'))"
  by (auto simp: pbind_def split: outcome.splits prod.splits)

lemma honest_rewrite_tables:
  assumes "header_wf h" "header_wf s"
  shows "honest (rewrite_tables be h s lb_size k count) (\<lambda>_. True)"
  unfolding rewrite_tables_def Let_def
  by (rule honest_fault_bind, force simp: pbind_Ret dest: zero_entries_unchecked)
     (intro honest_bind_any [OF honest_zero_entries] honest_bind_any [OF honest_allocate] honest_read_bind
        honest_bind_any [OF honest_write_header] honest_write_header; simp add: assms)

lemma honest_embed_in_gpt:
  "header_wf h \<Longrightarrow> header_wf s \<Longrightarrow> honest (embed_in_gpt be h s lb_size size_a size_b) (\<lambda>_. True)"
  unfolding embed_in_gpt_def Let_def
  by (intro honest_bind_any [OF honest_max_entry_used] honest_if honest_pundefined honest_pbail
      honest_bind_any [OF honest_rewrite_tables] honest_pret) simp_all

section \<open>The installation\<close>

lemma honest_check_partition: "honest (check_partition be force_mbr entry flags) (\<lambda>_. True)"
  unfolding check_partition_def Let_def
  by (intro honest_pair honest_read_bind honest_bind_any honest_if honest_pret honest_pbail honest_write) simp_all

lemma honest_check_signature:
  "wipe < 2 ^ 64 \<Longrightarrow> honest (check_signature force_mbr loc signature wipe mbr) (\<lambda>_. True)"
  unfolding check_signature_def
  by (intro honest_read_bind honest_bind_any honest_if honest_pret honest_write) (simp_all add: unat_of_nat_lt)

lemma honest_check_ext_magic: "honest (check_ext_magic be force_mbr mbr) (\<lambda>_. True)"
  unfolding check_ext_magic_def Let_def
  by (intro honest_read_bind honest_bind_any honest_if honest_pret honest_write) simp_all

lemma honest_mbr_checks: "honest (mbr_checks be force_mbr) (\<lambda>_. True)"
  unfolding mbr_checks_def
  by (intro honest_bind_any [OF honest_check_partition] honest_bind_any [OF honest_check_signature]
      honest_bind_any [OF honest_check_ext_magic] honest_pair honest_if honest_pret honest_bind_any [OF honest_write]) simp_all

lemma honest_write_stages:
  assumes "length bootloader_img < 2 ^ 64"
  shows "honest (write_stages be bootloader_img locs) (\<lambda>_. True)"
proof -
  have "honest (write_all device_write (stage_writes be bootloader_img locs @ [(timestamp, 218), (orig_mbr, 440)])) (\<lambda>_. True)"
    if "length timestamp = 6" "length orig_mbr = 70" for timestamp orig_mbr
    using assms that by (intro honest_write_all) (auto simp: stage_writes_def Let_def slice_at_def split: prod.split)
  then show ?thesis
    unfolding write_stages_def
    by (intro honest_read_bind honest_if honest_pundefined honest_bind_any honest_flush) simp_all
qed

lemma honest_find_gpt: "honest (find_gpt be force_mbr) gpt_wf"
  unfolding find_gpt_def
  by (rule honest_pbind [OF honest_probe_gpt])
     (intro honest_option honest_pair honest_pret honest_pbind [OF honest_read_secondary]; simp add: gpt_wf_def)

lemma honest_place_stage2: "gpt_wf gpt \<Longrightarrow> honest (place_stage2 be bootloader_img gpt part_ndx) (\<lambda>_. True)"
  unfolding place_stage2_def Let_def
  by (intro honest_option honest_pair honest_pret honest_place_in_partition honest_embed_in_gpt) (simp_all add: gpt_wf_def)

lemma honest_conversion:
  "gpt_wf gpt \<Longrightarrow> honest (case gpt of None \<Rightarrow> pret None
     | Some (gpt_header, secondary_gpt_header, lb_size) \<Rightarrow>
         if allowed then
           pbind (isohybrid_conversion be rnd gpt_header lb_size) (\<lambda>still_gpt. pret (if still_gpt then gpt else None))
         else pret gpt) gpt_wf"
  by (intro honest_option honest_pair honest_if honest_pret honest_bind_any [OF honest_isohybrid]) (simp_all add: gpt_wf_def)

lemma honest_install_body:
  assumes len: "length bootloader_img < 2 ^ 64"
  shows "honest (install_body be bootloader_img rnd opts) (\<lambda>_. True)"
  unfolding install_body_def
  by (rule honest_pbind [OF honest_find_gpt], rule honest_pbind [OF honest_conversion], assumption)
     (intro honest_bind_any honest_if honest_mbr_checks honest_pret honest_pbail
        honest_place_stage2 honest_write_stages [OF len]; simp)

section \<open>From opening the device to its end\<close>

lemma init_guess_True:
  "device_init_guess guesses d = (True, d') \<Longrightarrow>
   \<exists>guess \<in> set guesses. unat guess \<le> length (dv_disk d) \<and> dv_block_size d' = guess \<and>
     dv_cache d' = slice_at (dv_disk d) 0 (unat guess) \<and> dv_cache_state d' = CACHE_CLEAN \<and> dv_cached_block d' = 0 \<and>
     dv_disk d' = dv_disk d \<and> dv_uninstalling d' = dv_uninstalling d \<and> dv_uninstall_data d' = dv_uninstall_data d \<and>
     dv_uninstall_data_rev d' = dv_uninstall_data_rev d \<and> dv_uninstall_data_i d' = dv_uninstall_data_i d"
proof (induction guesses d rule: device_init_guess.induct)
  case (1 d)
  then show ?case by simp
next
  case (2 guess guesses d)
  obtain d1 where d1: "next_fault d = (False, d1)" using 2(2) by (auto split: prod.splits if_splits)
  let ?d = "d1\<lparr>dv_cache := take (unat guess) (dv_cache d1 @ replicate (unat guess) 0), dv_pos := 0\<rparr>"
  have frame: "dv_disk d1 = dv_disk d" "dv_uninstalling d1 = dv_uninstalling d" "dv_uninstall_data d1 = dv_uninstall_data d"
    "dv_uninstall_data_rev d1 = dv_uninstall_data_rev d" "dv_uninstall_data_i d1 = dv_uninstall_data_i d"
    using d1 by (auto simp: next_fault_def split: list.splits)
  obtain ok d2 where d2: "fread_cache (unat guess) ?d = (ok, d2)" by fastforce
  have frame2: "dv_disk d2 = dv_disk d" "dv_uninstalling d2 = dv_uninstalling d" "dv_uninstall_data d2 = dv_uninstall_data d"
    "dv_uninstall_data_rev d2 = dv_uninstall_data_rev d" "dv_uninstall_data_i d2 = dv_uninstall_data_i d"
    using d2 frame by (auto simp: fread_cache_def next_fault_def Let_def split: list.splits if_splits)
  show ?case
  proof (cases ok)
    case False
    with 2(2) d1 d2 have "device_init_guess guesses d2 = (True, d')" by simp
    from 2(1) [OF d1 [symmetric] _ refl refl refl d2 [symmetric] _ this] False frame2 show ?thesis by simp
  next
    case True
    with d2 have "unat guess \<le> length (dv_disk d)" "dv_cache d2 = slice_at (dv_disk d) 0 (unat guess)"
      by (auto simp: fread_cache_def next_fault_def Let_def frame slice_at_def splice_at_def split: list.splits if_splits)
    with 2(2) d1 d2 True frame2 show ?thesis by auto
  qed
qed

lemma div_block_mono: "n \<in> {512, 2048, 4096 :: nat} \<Longrightarrow> len div n * n \<le> len div 512 * 512"
  by auto

lemma twin_start:
  assumes init: "device_init (dev_open disk faults) = (True, d)" and len: "length disk < 2 ^ 63"
  shows "\<exists>d0. device_init (dev_open disk []) = (True, d0) \<and> twin d d0 \<and> \<not> dv_uninstalling d \<and> dv_disk d = disk \<and>
    dv_disk d0 = disk \<and> dv_cache_state d = CACHE_CLEAN \<and> dv_cache_state d0 = CACHE_CLEAN"
proof -
  have fields: "dv_disk (dev_open disk faults) = disk" "\<not> dv_uninstalling (dev_open disk faults)"
    "dv_uninstall_data (dev_open disk faults) = dv_uninstall_data (dev_open disk [])"
    "dv_uninstall_data_rev (dev_open disk faults) = dv_uninstall_data_rev (dev_open disk [])"
    "dv_uninstall_data_i (dev_open disk faults) = 0"
    by (simp_all add: dev_open_def)
  from init_guess_True [OF init [unfolded device_init_def]] obtain guess where guess: "guess \<in> {512, 2048, 4096 :: u64}"
    "unat guess \<le> length disk" "dv_block_size d = guess" "dv_cache d = slice_at disk 0 (unat guess)"
    "dv_cache_state d = CACHE_CLEAN" "dv_cached_block d = 0" "dv_disk d = disk" "\<not> dv_uninstalling d"
    and log: "dv_uninstall_data d = dv_uninstall_data (dev_open disk [])"
      "dv_uninstall_data_rev d = dv_uninstall_data_rev (dev_open disk [])" "dv_uninstall_data_i d = 0"
    by (elim bexE conjE) (rule that; simp add: fields)
  then have "512 \<le> length disk" by auto
  with device_init_ok [of "dev_open disk []"] len obtain d0 where d0: "device_init (dev_open disk []) = (True, d0)"
    "dev_ok d0" "dev_view d0 = disk" "dv_disk d0 = disk" "dv_block_size d0 = 512" "\<not> dv_uninstalling d0"
    "dv_uninstall_data d0 = dv_uninstall_data (dev_open disk [])"
    "dv_uninstall_data_rev d0 = dv_uninstall_data_rev (dev_open disk [])" "dv_uninstall_data_i d0 = 0"
    by (auto simp: dev_open_def)
  have "dev_ok (no_faults d)" using guess len by (auto simp: dev_ok_def dev_base_def)
  moreover have "dev_size d \<le> dev_size d0"
    using guess(1) div_block_mono [of "unat guess" "length disk"] by (auto simp: dev_size_def guess(3,7) d0(4,5))
  moreover have "dv_cache_state d0 = CACHE_CLEAN"
    using init_guess_True [OF d0(1) [unfolded device_init_def]] by auto
  ultimately show ?thesis using guess log d0 by (simp add: twin_def dev_view_def)
qed

lemma install_honest:
  assumes mode: "\<not> io_uninstall_mode opts" and img: "length img < 2 ^ 64" and len: "length disk < 2 ^ 63"
    and run: "install_on_device be img rnd opts files (dev_open disk faults) = (Ret (EXIT_SUCCESS, written), d')"
  shows "\<exists>written0 d0'. install_on_device be img rnd opts files (dev_open disk []) = (Ret (EXIT_SUCCESS, written0), d0') \<and>
    dv_disk d0' = dv_disk d' \<and> (written \<noteq> None \<or> written0 \<noteq> None \<longrightarrow> io_uninstall_file opts \<noteq> None)"
proof -
  obtain ok d where init: "device_init (dev_open disk faults) = (ok, d)" by fastforce
  with run have "ok" by (cases ok) (auto simp: install_on_device_def pbind_Ret pret_def EXIT_SUCCESS_def EXIT_FAILURE_def)
  with init have init: "device_init (dev_open disk faults) = (True, d)" by simp
  from twin_start [OF init len] obtain d0 where d0: "device_init (dev_open disk []) = (True, d0)" "twin d d0"
    "\<not> dv_uninstalling d" by blast
  obtain r d1 where body: "install_body be img rnd opts d = (r, d1)" by fastforce
  note run = run [unfolded install_on_device_eq [OF init mode] body]
  have r: "r = Ret ()"
  proof (cases r)
    case Bail
    with run show ?thesis
      by (auto simp: pbind_Ret pret_def install_cleanup_def Let_def EXIT_SUCCESS_def EXIT_FAILURE_def
          split: outcome.splits prod.splits)
  qed (use run in simp_all)
  with body honestD [OF honest_install_body [OF img] d0(2,3), of be rnd opts "()" d1] obtain d1' where
    d1': "install_body be img rnd opts d0 = (Ret (), d1')" "twin d1 d1'" by auto
  obtain q d2 where cl: "install_cleanup be opts True d1 = (q, d2)" by fastforce
  obtain q' d2' where cl': "install_cleanup be opts True d1' = (q', d2')" by fastforce
  note frame = install_cleanup_frame [OF cl] install_cleanup_frame [OF cl']
  have "dv_disk d1' = dv_disk d1" "dv_uninstall_data_i d1' = dv_uninstall_data_i d1"
    using d1'(2) install_body_clean [OF body [unfolded r]] install_body_clean [OF d1'(1)]
    by (simp_all add: twin_def dev_view_def)
  with run r cl cl' frame show ?thesis
    unfolding install_on_device_eq [OF d0(1) mode] d1'(1)
    by (auto simp: pbind_def free_uninstall_data_def pret_def split: if_splits)
qed

end
