(* ===== verification/Limine_Removal.thy ===== *)
theory Limine_Removal
  imports Limine_Faults
begin

text \<open>
  \<open>--uninstall\<close> under I/O errors (\<open>limine.c\<close>): an entry whose first write breaks off half way and whose
  second one succeeds is as good as one write. The theory ends with the whole command: its success means
  what it would mean without errors.
\<close>

section \<open>Removing an installation\<close>

text \<open>What an interrupted write leaves: a cache that is dirty only with a block of the device.\<close>

definition spoiled :: "dev \<Rightarrow> bool" where
  "spoiled d \<longleftrightarrow> dev_base (no_faults d) \<and>
     (dv_cache_state d = CACHE_DIRTY \<longrightarrow> (unat (dv_cached_block d) + 1) * unat (dv_block_size d) \<le> length (dv_disk d))"

lemma dev_ok_spoiled: "dev_ok (no_faults d) \<Longrightarrow> spoiled d"
  by (auto simp: spoiled_def dev_ok_def split: if_splits)

lemma next_fault_frame: "next_fault d = (b, d') \<Longrightarrow> no_faults d' = no_faults d"
  by (auto simp: next_fault_def no_faults_def split: list.splits)

lemma spoiled_cong:
  assumes "dv_disk d' = dv_disk d" "dv_cache_state d' = dv_cache_state d" "dv_cached_block d' = dv_cached_block d"
    "dv_block_size d' = dv_block_size d" "length (dv_cache d') = length (dv_cache d)"
  shows "spoiled d' = spoiled d"
  using assms by (simp add: spoiled_def dev_base_def)

lemma set_pos_frame: "set_pos p d = (ok, d') \<Longrightarrow>
  same_env d d' \<and> dv_disk d' = dv_disk d \<and> dv_cache_state d' = dv_cache_state d \<and> dv_cached_block d' = dv_cached_block d \<and>
  dv_cache d' = dv_cache d"
  by (auto simp: set_pos_def next_fault_def same_env_def split: list.splits if_splits)

lemma fwrite_cache_False: "fwrite_cache n d = (False, d') \<Longrightarrow>
  same_env d d' \<and> dv_disk d' = dv_disk d \<and> dv_cache_state d' = dv_cache_state d \<and> dv_cached_block d' = dv_cached_block d \<and>
  dv_cache d' = dv_cache d"
  by (auto simp: fwrite_cache_def next_fault_def same_env_def Let_def split: list.splits if_splits)

lemma fread_cache_frame: "fread_cache n d = (ok, d') \<Longrightarrow> n \<le> length (dv_cache d) \<Longrightarrow>
  same_env d d' \<and> dv_disk d' = dv_disk d \<and> dv_cache_state d' = dv_cache_state d \<and> dv_cached_block d' = dv_cached_block d \<and>
  length (dv_cache d') = length (dv_cache d)"
  by (auto simp: fread_cache_def next_fault_def same_env_def Let_def slice_at_def split: list.splits if_splits)

lemma flush_False:
  "device_flush_cache d = (False, d') \<Longrightarrow> same_env d d' \<and> dv_disk d' = dv_disk d \<and>
   dv_cache_state d' = dv_cache_state d \<and> dv_cached_block d' = dv_cached_block d \<and> dv_cache d' = dv_cache d"
  by (auto simp: device_flush_cache_def split: if_splits prod.splits bool.splits
      dest!: set_pos_frame fwrite_cache_False intro: same_env_trans)

lemma cache_block_spoils:
  assumes ok: "dev_ok (no_faults d)" and run: "device_cache_block block d = (False, d')"
  shows "spoiled d' \<and> same_env d d' \<and> dev_view d' = dev_view d"
proof -
  let ?flush = "if dv_cache_state d = CACHE_DIRTY then device_flush_cache d else (True, d)"
  obtain b d1 where d1: "?flush = (b, d1)" by fastforce
  show ?thesis
  proof (cases b)
    case False
    with d1 have "device_flush_cache d = (False, d1)" by (auto split: if_splits)
    note frame = flush_False [OF this]
    moreover have "d' = d1" using run d1 False by (auto simp: device_cache_block_def split: if_splits)
    ultimately show ?thesis
      using dev_ok_spoiled [OF ok] spoiled_cong [of d' d] by (simp add: same_env_def dev_view_def)
  next
    case True
    have "dev_ok (no_faults d1) \<and> dv_cache_state d1 = CACHE_CLEAN \<and> dv_disk d1 = dev_view d \<and> same_env d d1"
    proof (cases "dv_cache_state d")
      case CACHE_CLEAN
      with d1 ok True show "dev_ok (no_faults d1) \<and> dv_cache_state d1 = CACHE_CLEAN \<and> dv_disk d1 = dev_view d \<and> same_env d d1"
        by (simp add: dev_view_def)
    next
      case CACHE_DIRTY
      with d1 True have "device_flush_cache d = (True, d1)" by simp
      from survivesD [OF survives_flush this] flush_ok [OF ok]
      show "dev_ok (no_faults d1) \<and> dv_cache_state d1 = CACHE_CLEAN \<and> dv_disk d1 = dev_view d \<and> same_env d d1" by auto
    qed
    then have d1': "dev_ok (no_faults d1)" "dv_cache_state d1 = CACHE_CLEAN" "dv_disk d1 = dev_view d" "same_env d d1"
      by blast+
    from run d1 True obtain p d2 where d2: "set_pos (block * dv_block_size d1) d1 = (p, d2)"
      "(if p then fread_cache (unat (dv_block_size d2)) d2 else (False, d2)) = (False, d')"
      by (auto simp: device_cache_block_def split: if_splits prod.splits bool.splits)
    have "length (dv_cache d1) = unat (dv_block_size d1)" using d1'(1) by (simp add: dev_ok_def dev_base_def)
    with set_pos_frame [OF d2(1)] have "unat (dv_block_size d2) \<le> length (dv_cache d2)" by (simp add: same_env_def)
    with d2(2) set_pos_frame [OF d2(1)] fread_cache_frame [of "unat (dv_block_size d2)" d2 False d']
    have "same_env d1 d'" "dv_disk d' = dv_disk d1" "dv_cache_state d' = dv_cache_state d1"
      "dv_cached_block d' = dv_cached_block d1" "length (dv_cache d') = length (dv_cache d1)"
      by (auto split: if_splits intro: same_env_trans)
    with d1' dev_ok_spoiled [OF d1'(1)] spoiled_cong [of d' d1] show ?thesis
      by (auto simp: same_env_def dev_view_def)
  qed
qed

text \<open>One round of the write loop that gets its block, under faults.\<close>

lemma write_round:
  assumes ok: "dev_ok (no_faults d)" and more: "progress < count"
    and bound: "unat progress = 0 \<or> unat loc + unat progress \<le> dev_size d"
    and blk: "device_cache_block ((loc + progress) div dv_block_size d) d = (True, d1)"
    and len: "length buffer = unat count"
  defines "bs \<equiv> dv_block_size d" and "k \<equiv> chunk_size (dv_block_size d) loc count progress"
  defines "d2 \<equiv> d1\<lparr>dv_cache := splice_at (dv_cache d1) (unat ((loc + progress) mod bs))
      (slice_at buffer (unat progress) (unat k)), dv_cache_state := CACHE_DIRTY\<rparr>"
  shows "dev_ok (no_faults d2) \<and> same_env d d2 \<and> unat loc + unat (progress + k) \<le> dev_size d \<and>
    dev_view d2 = splice_at (dev_view d) (unat loc + unat progress) (slice_at buffer (unat progress) (unat k))"
proof -
  let ?a = "unat loc + unat progress" and ?off = "unat ((loc + progress) mod bs)"
  let ?ys = "slice_at buffer (unat progress) (unat k)"
  note blk' = survivesD [OF survives_cache_block blk]
  have base: "dev_base (no_faults d)" using ok by (simp add: dev_ok_def)
  have bs: "bs \<noteq> 0" using dev_base_block_size [OF base] by (simp add: bs_def)
  have "?a < 2 ^ 64"
    using bound dev_size_le [of d] base unsigned_less [of loc, where 'a = nat] by (auto simp: dev_base_def)
  have pos: "?a < dev_size (no_faults d)"
  proof (rule ccontr)
    assume "\<not> ?a < dev_size (no_faults d)"
    with cache_position_out [OF ok _ \<open>?a < 2 ^ 64\<close>] blk' show False by auto
  qed
  from cache_position [OF ok pos more] blk' have d1: "dev_ok (no_faults d1)" "dev_view d1 = dev_view d" "same_env d d1"
    "dv_cached_block d1 \<noteq> - 1" "unat (dv_cached_block d1) * unat bs + ?off = ?a"
    "dv_cache d1 = slice_at (dev_view d) (?a - ?off) (unat bs)" "?off + unat k \<le> unat bs" "?a + unat k \<le> dev_size d"
    by (auto simp: bs_def k_def)
  note chunk = chunk_size_bounds(2) [OF bs more, of loc] chunk_progress [OF bs more, of loc]
  have "length ?ys = unat k"
    using chunk(1) len more by (simp add: word_less_nat_alt bs_def k_def)
  moreover have bs1: "dv_block_size d1 = bs" using d1(3) by (simp add: same_env_def bs_def)
  moreover have "?a - ?off = unat (dv_cached_block d1) * unat bs" using d1(5) by linarith
  ultimately have "?off + length ?ys \<le> unat (dv_block_size (no_faults d1))"
    "dv_cache (no_faults d1) = slice_at (dev_view (no_faults d1))
      (unat (dv_cached_block (no_faults d1)) * unat (dv_block_size (no_faults d1))) (unat (dv_block_size (no_faults d1)))"
    using d1 by simp_all
  note over = view_overwrite [OF d1(1) _ this]
  have d2: "no_faults d2 = (no_faults d1)\<lparr>dv_cache := splice_at (dv_cache (no_faults d1)) ?off ?ys, dv_cache_state := CACHE_DIRTY\<rparr>"
    by (simp add: d2_def)
  have "dev_ok (no_faults d2)" "same_env (no_faults d1) (no_faults d2)"
    "dev_view (no_faults d2) = splice_at (dev_view d) ?a ?ys"
    unfolding d2 using over(1,2,4) d1(2,4,5) by (simp_all add: bs1)
  moreover have "unat loc + unat (progress + k) \<le> dev_size d"
    using chunk(2) d1(8) by (simp add: bs_def k_def)
  ultimately show ?thesis using same_env_trans [OF d1(3)] by simp
qed

lemma agree_trans: "agree X u v \<Longrightarrow> agree X v w \<Longrightarrow> agree X u w"
  by (simp add: agree_def)

lemma agree_splice:
  "i + length ys \<le> length v \<Longrightarrow> {i ..< i + length ys} \<subseteq> X \<Longrightarrow> agree X (splice_at v i ys) v"
  by (auto simp: agree_def nth_splice)

lemma write_loop_outcome:
  assumes "dev_ok (no_faults d)" "length buffer = unat count"
    "unat progress = 0 \<or> unat loc + unat progress \<le> dev_size d"
    "device_write_loop buffer loc count progress d = (r, d')"
  shows "r = Ret () \<and> (progress < count \<longrightarrow> unat loc + unat count \<le> dev_size d) \<or>
    r = Bail \<and> spoiled d' \<and> same_env d d' \<and> agree (byte_range loc count) (dev_view d') (dev_view d)"
  using assms
proof (induction "unat count - unat progress" arbitrary: progress d rule: less_induct)
  case less
  let ?bs = "dv_block_size d"
  let ?k = "chunk_size ?bs loc count progress"
  note loop = less.prems(4) [unfolded device_write_loop.simps [of buffer loc count progress] Let_def]
  show ?case
  proof (cases "progress < count")
    case False
    with loop show ?thesis by simp
  next
    case True
    have bs: "?bs \<noteq> 0" using less.prems(1) dev_base_block_size by (fastforce simp: dev_ok_def)
    obtain b d1 where blk: "device_cache_block ((loc + progress) div ?bs) d = (b, d1)" by fastforce
    show ?thesis
    proof (cases b)
      case False
      with loop True bs blk cache_block_spoils [OF less.prems(1), of _ d1] show ?thesis by simp
    next
      case b: True
      from blk b have blk': "device_cache_block ((loc + progress) div ?bs) d = (True, d1)" by simp
      note chunk = chunk_size_bounds(2) [OF bs True, of loc] chunk_progress [OF bs True, of loc]
        chunk_decreases [OF bs True, of loc]
      define d2 where "d2 = d1\<lparr>dv_cache := splice_at (dv_cache d1) (unat ((loc + progress) mod ?bs))
        (slice_at buffer (unat progress) (unat ?k)), dv_cache_state := CACHE_DIRTY\<rparr>"
      have d2: "dev_ok (no_faults d2)" "same_env d d2" "unat loc + unat (progress + ?k) \<le> dev_size d"
        "dev_view d2 = splice_at (dev_view d) (unat loc + unat progress) (slice_at buffer (unat progress) (unat ?k))"
        using write_round [OF less.prems(1) True less.prems(3) blk' less.prems(2)]
        by (simp_all add: d2_def)
      have run: "device_write_loop buffer loc count (progress + ?k) d2 = (r, d')"
        using loop True bs blk b by (simp add: d2_def)
      have size: "dev_size d2 = dev_size d" by (rule same_env_size [OF d2(2)])
      have "length (slice_at buffer (unat progress) (unat ?k)) = unat ?k"
        using chunk(1) True less.prems(2) by (simp add: word_less_nat_alt)
      moreover have "unat progress + unat ?k \<le> unat count" using chunk(1) True by (simp add: word_less_nat_alt)
      ultimately have agree: "agree (byte_range loc count) (dev_view d2) (dev_view d)"
        unfolding d2(4) using d2(3) chunk(2) length_dev_view [OF less.prems(1)] dev_size_le [of d]
        by (intro agree_splice) auto
      have all_in: "\<not> progress + ?k < count \<Longrightarrow> unat loc + unat count \<le> dev_size d"
        using d2(3) by (simp add: word_less_nat_alt)
      show ?thesis
        using less.hyps [OF chunk(3) d2(1) less.prems(2) _ run] d2(2,3) agree all_in
        by (auto simp: size intro: same_env_trans agree_trans)
    qed
  qed
qed

lemma raw_write_outcome:
  assumes "dev_ok (no_faults d)" "length buffer = unat count" "device_write_loop buffer loc count 0 d = (r, d')"
  shows "r = Ret () \<and> in_dev d loc count \<or>
    r = Bail \<and> spoiled d' \<and> same_env d d' \<and> agree (byte_range loc count) (dev_view d') (dev_view d)"
  using write_loop_outcome [OF assms(1,2) _ assms(3)] by (auto simp: word_less_nat_alt unat_gt_0)

lemma raw_write_twin:
  assumes tw: "twin d d0" and len: "length buffer = unat count"
    and run: "device_write_loop buffer loc count 0 d = (Ret (), d')"
  shows "\<exists>d0'. device_write_loop buffer loc count 0 d0 = (Ret (), d0') \<and> twin d' d0' \<and> same_env d d' \<and>
    dev_view d' = splice_at (dev_view d) (unat loc) buffer \<and> in_dev d loc count"
proof -
  from tw have ok: "dev_ok (no_faults d)" "dev_ok d0" and view: "dev_view d0 = dev_view d" by (simp_all add: twin_def)
  from raw_write_outcome [OF ok(1) len run] have fits: "in_dev d loc count" by simp
  then have fits': "in_dev (no_faults d) loc count" "in_dev d0 loc count" using tw by (auto simp: twin_def)
  from raw_write_in [OF ok(1) fits'(1) len] survives_progD [OF survives_write_loop run]
  have d': "dev_ok (no_faults d')" "dev_view d' = splice_at (dev_view d) (unat loc) buffer" "same_env d d'" by auto
  from raw_write_in [OF ok(2) fits'(2) len] obtain d0' where d0': "device_write_loop buffer loc count 0 d0 = (Ret (), d0')"
    "dev_ok d0'" "dev_view d0' = splice_at (dev_view d) (unat loc) buffer" "same_env d0 d0'" by (auto simp: view)
  with d' twin_same [OF tw d'(1) d0'(2) _ d'(3) d0'(4)] fits show ?thesis by auto
qed

lemma splice_agree:
  assumes "agree (byte_range loc count) v w" "length ys = unat count" "count = 0 \<or> unat loc + unat count \<le> length w"
  shows "splice_at v (unat loc) ys = splice_at w (unat loc) ys"
proof (cases "count = 0")
  case True
  with assms(1) show ?thesis by (simp add: agree_empty)
next
  case False
  with assms show ?thesis by (intro nth_equalityI) (auto simp: agree_def nth_splice)
qed

lemma flush_spoiled:
  assumes sp: "spoiled d" and run: "device_flush_cache d = (True, d')"
  shows "dev_base (no_faults d') \<and> dv_disk d' = dev_view d \<and> same_env d d'"
proof (cases "dv_cache_state d")
  case CACHE_CLEAN
  with sp run show ?thesis by (simp add: spoiled_def device_flush_cache_def dev_view_def)
next
  case CACHE_DIRTY
  with sp have base: "dev_base (no_faults d)"
    and fits: "(unat (dv_cached_block d) + 1) * unat (dv_block_size d) \<le> length (dv_disk d)" by (simp_all add: spoiled_def)
  then have len: "length (dv_cache d) = unat (dv_block_size d)" "length (dv_disk d) < 2 ^ 63"
    by (simp_all add: dev_base_def)
  note off = block_offset [OF fits len(2)]
  let ?p = "unat (dv_cached_block d) * unat (dv_block_size d)"
  have "device_flush_cache (no_faults d) = (True, (no_faults d)\<lparr>dv_disk := splice_at (dv_disk d) ?p (dv_cache d),
      dv_pos := ?p + unat (dv_block_size d), dv_cache_state := CACHE_CLEAN\<rparr>)"
    using CACHE_DIRTY off len
    by (simp add: device_flush_cache_def set_pos_none fwrite_cache_def next_fault_none Let_def)
  with survivesD [OF survives_flush run] have "no_faults d' = (no_faults d)\<lparr>dv_disk := splice_at (dv_disk d) ?p (dv_cache d),
      dv_pos := ?p + unat (dv_block_size d), dv_cache_state := CACHE_CLEAN\<rparr>" by simp
  then have "dv_disk d' = splice_at (dv_disk d) ?p (dv_cache d)" "dev_base (no_faults d')" "same_env (no_faults d) (no_faults d')"
    using base off len by (auto simp: dev_base_def same_env_def dest: arg_cong [where f = dv_disk])
  with CACHE_DIRTY show ?thesis by (simp add: dev_view_def)
qed

lemma device_write_raw:
  "dv_uninstalling d \<Longrightarrow> device_write_loop buffer loc count 0 d = (r, d') \<Longrightarrow> dv_uninstalling d' \<Longrightarrow>
   device_write buffer loc count d = (r, d')"
  by (cases r) (simp_all add: device_write_def)

lemma restore_entry_twin:
  assumes tw: "twin d d0" and un: "dv_uninstalling d" and len: "length (ud_data ud) = unat (ud_count ud)"
    and run: "restore_entry False ud fl d = (Ret (False, False), d')"
  shows "fl = (False, False) \<and> same_env d d' \<and>
    (\<exists>d0'. restore_entry False ud (False, False) d0 = (Ret (False, False), d0') \<and> twin d' d0')"
proof -
  let ?wr = "device_write_loop (ud_data ud) (ud_loc ud) (ud_count ud) 0"
  obtain ff wf where fl: "fl = (ff, wf)" by fastforce
  from tw have ok: "dev_ok (no_faults d)" "dev_ok d0" and view: "dev_view d0 = dev_view d" and un0: "dv_uninstalling d0"
    using un by (simp_all add: twin_def)
  obtain r d1 where r: "?wr d = (r, d1)" by fastforce
  show ?thesis
  proof (cases "r = Ret ()")
    case True
    with raw_write_twin [OF tw len] r obtain d0' where d0': "?wr d0 = (Ret (), d0')" "twin d1 d0'" "same_env d d1" by blast
    then have "dv_uninstalling d1" "dv_uninstalling d0'" using un by (simp_all add: same_env_def twin_def)
    with device_write_raw [OF un r] device_write_raw [OF un0 d0'(1)] run True d0' show ?thesis
      by (simp add: restore_entry.simps [of False] fl)
  next
    case False
    with raw_write_outcome [OF ok(1) len r] have bail: "r = Bail" "spoiled d1" "same_env d d1"
      "agree (byte_range (ud_loc ud) (ud_count ud)) (dev_view d1) (dev_view d)" by simp_all
    then have un1: "dv_uninstalling d1" using un by (simp add: same_env_def)
    obtain b d2 where fl2: "device_flush_cache d1 = (b, d2)" by fastforce
    let ?d3 = "forget_cache d2"
    have run2: "restore_entry True ud (ff \<or> \<not> b, wf) ?d3 = (Ret (False, False), d')"
      using run device_write_raw [OF un r un1] bail(1) fl2 by (simp add: restore_entry.simps [of False] fl)
    then obtain d4 where d4: "device_write (ud_data ud) (ud_loc ud) (ud_count ud) ?d3 = (Ret (), d4)"
      "\<not> ff" "b" "\<not> wf" "d4 = d'"
      by (auto simp: restore_entry.simps [of True] split: prod.splits outcome.splits)
    with flush_spoiled [OF bail(2)] fl2 have d2: "dev_base (no_faults d2)" "dv_disk d2 = dev_view d1" "same_env d1 d2" by auto
    have d3: "twin ?d3 (no_faults ?d3)" "dev_view ?d3 = dev_view d1" "same_env d ?d3"
      using dev_ok_forget [OF d2(1)] d2 same_env_trans [OF bail(3) d2(3)]
      by (simp_all add: twin_def forget_cache_def dev_view_def same_env_def dev_size_def)
    have un3: "dv_uninstalling ?d3" using un d3(3) by (simp add: same_env_def)
    obtain r4 d5 where r4: "?wr ?d3 = (r4, d5)" by fastforce
    have ok3: "dev_ok (no_faults ?d3)" using d3(1) by (simp add: twin_def)
    have "same_env ?d3 d5 \<or> r4 = Ret ()"
      using raw_write_outcome [OF ok3 len r4] by blast
    then have "r4 = Ret () \<and> d5 = d4"
      using d4(1) r4 un3 device_write_raw [OF un3 r4] raw_write_twin [OF d3(1) len, where d' = d5]
      by (cases "r4 = Ret ()") (auto simp: same_env_def)
    with raw_write_twin [OF d3(1) len] r4 obtain d6 where d6: "twin d4 d6" "same_env ?d3 d4"
      "dev_view d4 = splice_at (dev_view ?d3) (unat (ud_loc ud)) (ud_data ud)" "in_dev ?d3 (ud_loc ud) (ud_count ud)" by blast
    have fits: "in_dev d (ud_loc ud) (ud_count ud)" using d6(4) same_env_size [OF d3(3)] by simp
    then have "dev_view d4 = splice_at (dev_view d) (unat (ud_loc ud)) (ud_data ud)"
      using d6(3) splice_agree [OF bail(4) len] length_dev_view [OF ok(1)] dev_size_le [of d] by (auto simp: d3(2))
    moreover from fits have "in_dev d0 (ud_loc ud) (ud_count ud)" using tw by (auto simp: twin_def)
    from raw_write_in [OF ok(2) this len] obtain d0' where d0': "?wr d0 = (Ret (), d0')" "dev_ok d0'"
      "dev_view d0' = splice_at (dev_view d) (unat (ud_loc ud)) (ud_data ud)" "same_env d0 d0'" by (auto simp: view)
    ultimately have "twin d' d0'" using d6(1) d4(5) same_env_trans [OF d3(3) d6(2)]
      by (intro twin_same [OF tw]) (simp_all add: twin_def)
    moreover have "dv_uninstalling d0'" using un0 d0'(4) by (simp add: same_env_def)
    with device_write_raw [OF un0 d0'(1)]
    have "restore_entry False ud (False, False) d0 = (Ret (False, False), d0')" by (simp add: restore_entry.simps [of False])
    ultimately show ?thesis using d4(2,4,5) same_env_trans [OF d3(3) d6(2)] by (auto simp: fl)
  qed
qed

lemma restore_entry_flags:
  "restore_entry retry ud fl d = (Ret (False, False), d') \<Longrightarrow> fl = (False, False)"
proof (induction retry ud fl d rule: restore_entry.induct)
  case (1 retry ud flush_fail write_fail d)
  show ?case
  proof (cases retry)
    case True
    with 1(2) show ?thesis by (auto simp: restore_entry.simps [of True] split: prod.splits outcome.splits)
  next
    case False
    obtain r d1 where r: "device_write (ud_data ud) (ud_loc ud) (ud_count ud) d = (r, d1)" by fastforce
    obtain b d2 where b: "device_flush_cache d1 = (b, d2)" by fastforce
    show ?thesis
      using 1(2) False r b 1(1) [OF r [symmetric] _ False b [symmetric]]
      by (cases r) (auto simp: restore_entry.simps [of False])
  qed
qed

lemma restore_entries_flags:
  "restore_entries js fl d = (Ret (False, False), d') \<Longrightarrow> fl = (False, False)"
proof (induction js arbitrary: fl d)
  case (Cons i js)
  from Cons.prems show ?case
    by (auto split: if_splits prod.splits outcome.splits dest!: Cons.IH restore_entry_flags)
qed simp

lemma restore_entries_twin:
  assumes "twin d d0" "dv_uninstalling d"
    "\<forall>i \<in> set js. length (ud_data (dv_uninstall_data d ! i)) = unat (ud_count (dv_uninstall_data d ! i))"
    "restore_entries js (False, False) d = (Ret (False, False), d')"
  shows "same_env d d' \<and> (\<exists>d0'. restore_entries js (False, False) d0 = (Ret (False, False), d0') \<and> twin d' d0')"
  using assms
proof (induction js arbitrary: d d0)
  case Nil
  then show ?case by auto
next
  case (Cons i js)
  let ?e = "dv_uninstall_data d ! i"
  from Cons.prems(4) obtain fl d1 where d1: "i < length (dv_uninstall_data d)" "restore_entry False ?e (False, False) d = (Ret fl, d1)"
    "restore_entries js fl d1 = (Ret (False, False), d')" by (auto split: if_splits prod.splits outcome.splits)
  note fl = restore_entries_flags [OF d1(3)]
  from restore_entry_twin [OF Cons.prems(1,2) _ d1(2) [unfolded fl]] Cons.prems(3) obtain d0' where
    d0': "same_env d d1" "restore_entry False ?e (False, False) d0 = (Ret (False, False), d0')" "twin d1 d0'" by auto
  have "dv_uninstalling d1" "dv_uninstall_data d1 = dv_uninstall_data d" using d0'(1) Cons.prems(2) by (simp_all add: same_env_def)
  with Cons.IH [OF d0'(3)] Cons.prems(3) d1(3) obtain d0'' where
    "same_env d1 d'" "restore_entries js (False, False) d0' = (Ret (False, False), d0'')" "twin d' d0''" by (auto simp: fl)
  moreover have "dv_uninstall_data d0 = dv_uninstall_data d" using Cons.prems(1) by (simp add: twin_def)
  ultimately show ?case using d1(1) d0' same_env_trans [OF d0'(1)] by auto
qed

lemma uninstall_twin:
  assumes tw: "twin d d0" and clean: "dv_cache_state d = CACHE_CLEAN" "dv_cache_state d0 = CACHE_CLEAN"
    and log: "\<forall>i < unat (dv_uninstall_data_i d). length (ud_data (dv_uninstall_data d ! i)) = unat (ud_count (dv_uninstall_data d ! i))"
    and run: "uninstall d = (Ret True, d')"
  shows "\<exists>d0'. uninstall d0 = (Ret True, d0') \<and> dv_disk d0' = dv_disk d' \<and>
    dv_uninstall_data_i d' = dv_uninstall_data_i d \<and> dv_uninstall_data_i d0' = dv_uninstall_data_i d"
proof -
  let ?f = "\<lambda>d. forget_cache (d\<lparr>dv_uninstalling := True\<rparr>)"
  have "dev_base (no_faults d)" "dev_base d0" using tw by (simp_all add: twin_def dev_ok_def)
  then have "dev_base ((no_faults d)\<lparr>dv_uninstalling := True\<rparr>)" "dev_base (d0\<lparr>dv_uninstalling := True\<rparr>)"
    by (simp_all add: dev_base_def)
  then have tw': "twin (?f d) (?f d0)"
    using tw clean dev_ok_forget [of "(no_faults d)\<lparr>dv_uninstalling := True\<rparr>"] dev_ok_forget [of "d0\<lparr>dv_uninstalling := True\<rparr>"]
    by (auto simp: twin_def forget_cache_def dev_view_def dev_size_def)
  have fields: "dv_uninstall_data_i (?f d) = dv_uninstall_data_i d" "dv_uninstall_data (?f d) = dv_uninstall_data d"
    "dv_uninstall_data_i (?f d0) = dv_uninstall_data_i d" "dv_uninstalling (?f d)"
    using tw by (simp_all add: forget_cache_def twin_def)
  from run obtain ff wf d1 b where d1: "restore_entries [0..<unat (dv_uninstall_data_i d)] (False, False) (?f d) = (Ret (ff, wf), d1)"
    "device_flush_cache d1 = (b, d')" "\<not> ff" "\<not> wf" "b"
    by (auto simp: uninstall_def Let_def fields split: prod.splits outcome.splits)
  with restore_entries_twin [OF tw', of "[0..<unat (dv_uninstall_data_i d)]" d1] log fields obtain d1' where d1':
    "same_env (?f d) d1" "restore_entries [0..<unat (dv_uninstall_data_i d)] (False, False) (?f d0) = (Ret (False, False), d1')"
    "twin d1 d1'" by auto
  from d1(2,5) twin_flush [OF d1'(3), of d'] obtain d0' where d0': "device_flush_cache d1' = (True, d0')" "dv_disk d0' = dv_disk d'"
    "same_env d1 d'" "same_env d1' d0'" "twin d' d0'" by auto
  moreover have "uninstall d0 = (Ret True, d0')"
    using d1'(2) d0'(1) by (simp add: uninstall_def Let_def fields)
  ultimately show ?thesis using d1'(1) fields(1) by (auto simp: same_env_def twin_def)
qed

text \<open>Loading the log touches nothing but the log, and every entry has as many bytes as it says.\<close>

definition log_sized :: "nat \<Rightarrow> dev \<Rightarrow> bool" where
  "log_sized n d \<longleftrightarrow> (\<forall>i < n. length (ud_data (dv_uninstall_data d ! i)) = unat (ud_count (dv_uninstall_data d ! i)))"

lemma ud_fread_honest:
  "twin d d0 \<Longrightarrow> ud_fread n bytes d = (Some r, d') \<Longrightarrow>
   twin d' d0 \<and> dv_uninstalling d' = dv_uninstalling d \<and> ud_fread n bytes d0 = (Some r, d0)"
  by (auto simp: ud_fread_def dest: next_fault_twin split: prod.splits if_splits)

lemma ud_fread_frame: "ud_fread n bytes d = (r, d') \<Longrightarrow> no_faults d' = no_faults d \<and>
   (\<forall>xs rest. r = Some (xs, rest) \<longrightarrow> length xs = n)"
  by (auto simp: ud_fread_def dest: next_fault_frame split: prod.splits if_splits)

lemma no_faults_frame:
  "no_faults d' = no_faults d \<Longrightarrow> dv_uninstall_data d' = dv_uninstall_data d \<and> dv_cache_state d' = dv_cache_state d \<and>
   dv_uninstall_data_i d' = dv_uninstall_data_i d"
  by (metis no_faults_simps(4,9,11))

lemma load_entry_cases:
  assumes "load_entry be i bytes d = (Ret rest, d')"
  obtains loc b1 d1 count b2 d2 d3 data d4 where "i < length (dv_uninstall_data d)"
    "ud_fread 8 bytes d = (Some (loc, b1), d1)" "ud_fread 8 b1 d1 = (Some (count, b2), d2)" "next_fault d2 = (False, d3)"
    "ud_fread (unat (load_host be count :: u64)) b2 d3 = (Some (data, rest), d4)"
    "d' = d4\<lparr>dv_uninstall_data := (dv_uninstall_data d4)
       [i := \<lparr>ud_data = data, ud_loc = load_host be loc, ud_count = load_host be count\<rparr>]\<rparr>"
  using assms that by (auto simp: load_entry_def split: if_splits prod.splits option.splits)

lemma twin_log: "twin d d0 \<Longrightarrow> twin (d\<lparr>dv_uninstall_data := l\<rparr>) (d0\<lparr>dv_uninstall_data := l\<rparr>)"
  by (simp add: twin_def)

lemma load_entry_twin:
  assumes tw: "twin d d0" and run: "load_entry be i bytes d = (Ret rest, d')"
  shows "\<exists>d0'. load_entry be i bytes d0 = (Ret rest, d0') \<and> twin d' d0' \<and> dv_cache_state d' = dv_cache_state d \<and>
    dv_cache_state d0' = dv_cache_state d0 \<and> dv_uninstalling d' = dv_uninstalling d \<and>
    dv_uninstall_data_i d' = dv_uninstall_data_i d \<and> (log_sized i d \<longrightarrow> log_sized (Suc i) d')"
proof -
  from run obtain loc b1 d1 count b2 d2 d3 data d4 where c: "i < length (dv_uninstall_data d)"
    "ud_fread 8 bytes d = (Some (loc, b1), d1)" "ud_fread 8 b1 d1 = (Some (count, b2), d2)" "next_fault d2 = (False, d3)"
    "ud_fread (unat (load_host be count :: u64)) b2 d3 = (Some (data, rest), d4)"
    "d' = d4\<lparr>dv_uninstall_data := (dv_uninstall_data d4)
       [i := \<lparr>ud_data = data, ud_loc = load_host be loc, ud_count = load_host be count\<rparr>]\<rparr>"
    by (rule load_entry_cases)
  note t1 = ud_fread_honest [OF tw c(2)]
  note t2 = ud_fread_honest [OF t1 [THEN conjunct1] c(3)]
  note t3 = next_fault_twin [OF t2 [THEN conjunct1] c(4)]
  note t4 = ud_fread_honest [OF t3 [THEN conjunct1] c(5)]
  have "no_faults d4 = no_faults d"
    using ud_fread_frame [OF c(2)] ud_fread_frame [OF c(3)] next_fault_frame [OF c(4)] ud_fread_frame [OF c(5)] by simp
  note frame = no_faults_frame [OF this]
  have log: "dv_uninstall_data d0 = dv_uninstall_data d4" using t4 by (simp add: twin_def)
  have "load_entry be i bytes d0 = (Ret rest, d0\<lparr>dv_uninstall_data := (dv_uninstall_data d4)
       [i := \<lparr>ud_data = data, ud_loc = load_host be loc, ud_count = load_host be count\<rparr>]\<rparr>)"
    using c(1) t1 t2 t3 t4 frame by (simp add: load_entry_def log)
  moreover have "log_sized i d \<longrightarrow> log_sized (Suc i) d'"
    using c(1,6) frame ud_fread_frame [OF c(5)] by (auto simp: log_sized_def less_Suc_eq)
  ultimately show ?thesis
    using twin_log [OF t4 [THEN conjunct1]] frame t1 t2 t3 t4 c(6) by auto
qed

lemma load_entries_twin:
  assumes "twin d d0" "load_entries be n i bytes d = (Ret x, d')" "i \<le> n" "log_sized i d"
  shows "\<exists>d0'. load_entries be n i bytes d0 = (Ret x, d0') \<and> twin d' d0' \<and> dv_cache_state d' = dv_cache_state d \<and>
    dv_cache_state d0' = dv_cache_state d0 \<and> dv_uninstalling d' = dv_uninstalling d \<and>
    dv_uninstall_data_i d' = dv_uninstall_data_i d \<and> log_sized n d'"
  using assms
proof (induction "n - i" arbitrary: i bytes d d0)
  case 0
  then show ?case by (simp add: load_entries.simps [of be i i])
next
  case (Suc k)
  then have "i < n" by simp
  with Suc.prems(2) obtain rest d1 where d1: "load_entry be i bytes d = (Ret rest, d1)"
    "load_entries be n (i + 1) rest d1 = (Ret x, d')"
    by (auto simp: load_entries.simps [of be n i] split: prod.splits outcome.splits)
  from load_entry_twin [OF Suc.prems(1) d1(1)] obtain d0' where d0': "load_entry be i bytes d0 = (Ret rest, d0')" "twin d1 d0'"
    "dv_cache_state d1 = dv_cache_state d" "dv_cache_state d0' = dv_cache_state d0" "dv_uninstalling d1 = dv_uninstalling d"
    "dv_uninstall_data_i d1 = dv_uninstall_data_i d" "log_sized (i + 1) d1" using Suc.prems(4) by auto
  have "k = n - (i + 1)" "i + 1 \<le> n" using Suc.hyps(2) by simp_all
  from Suc.hyps(1) [OF this(1) d0'(2) d1(2) this(2) d0'(7)] d0' \<open>i < n\<close> show ?case
    by (auto simp: load_entries.simps [of be n i])
qed

lemma load_uninstall_data_twin:
  assumes tw: "twin d d0" and run: "load_uninstall_data be file d = (Ret x, d')"
  shows "\<exists>d0'. load_uninstall_data be file d0 = (Ret x, d0') \<and> twin d' d0' \<and> dv_cache_state d' = dv_cache_state d \<and>
    dv_cache_state d0' = dv_cache_state d0 \<and> log_sized (unat (dv_uninstall_data_i d')) d'"
proof -
  from run obtain bytes n rest d1 where c: "file = Some bytes" "ud_fread 8 bytes d = (Some (n, rest), d1)"
    "load_entries be (unat (load_host be n :: u64)) 0 rest (d1\<lparr>dv_uninstall_data_i := load_host be n\<rparr>) = (Ret x, d')"
    by (auto simp: load_uninstall_data_def Let_def split: option.splits prod.splits)
  note t = ud_fread_honest [OF tw c(2)]
  then have "twin (d1\<lparr>dv_uninstall_data_i := load_host be n\<rparr>) (d0\<lparr>dv_uninstall_data_i := load_host be n\<rparr>)"
    by (simp add: twin_def)
  from load_entries_twin [OF this c(3)] obtain d0' where
    "load_entries be (unat (load_host be n :: u64)) 0 rest (d0\<lparr>dv_uninstall_data_i := load_host be n\<rparr>) = (Ret x, d0')"
    "twin d' d0'" "dv_cache_state d' = dv_cache_state d1" "dv_cache_state d0' = dv_cache_state d0"
    "dv_uninstall_data_i d' = load_host be n" "log_sized (unat (load_host be n :: u64)) d'"
    by (auto simp: log_sized_def)
  moreover have "dv_cache_state d1 = dv_cache_state d"
    using ud_fread_frame [OF c(2)] no_faults_frame by blast
  ultimately show ?thesis using c(1) t by (simp add: load_uninstall_data_def Let_def)
qed

lemma uninstall_honest:
  assumes mode: "io_uninstall_mode opts" and len: "length disk < 2 ^ 63"
    and run: "install_on_device be img rnd opts files (dev_open disk faults) = (Ret (EXIT_SUCCESS, written), d')"
  shows "written = None \<and> (\<exists>d0'. install_on_device be img rnd opts files (dev_open disk []) = (Ret (EXIT_SUCCESS, None), d0') \<and>
    dv_disk d0' = dv_disk d')"
proof -
  have no: "EXIT_SUCCESS \<noteq> EXIT_FAILURE" by (simp add: EXIT_SUCCESS_def EXIT_FAILURE_def)
  obtain ok d where init: "device_init (dev_open disk faults) = (ok, d)" by fastforce
  with run have "ok" by (cases ok) (auto simp: install_on_device_def pbind_Ret pret_def no [symmetric])
  with init have init: "device_init (dev_open disk faults) = (True, d)" by simp
  from twin_start [OF init len] obtain d0 where d0: "device_init (dev_open disk []) = (True, d0)" "twin d d0"
    "dv_cache_state d = CACHE_CLEAN" "dv_cache_state d0 = CACHE_CLEAN" by blast
  from run init mode obtain d1 where d1: "uninstall_mode be opts files d = (Ret EXIT_SUCCESS, d1)" "written = None"
    "free_uninstall_data d1 = (Ret (), d')"
    by (auto simp: install_on_device_def pbind_Ret pret_def)
  then obtain name x d2 where d2: "io_uninstall_file opts = Some name" "load_uninstall_data be (files name) d = (Ret x, d2)"
    "uninstall d2 = (Ret True, d1)"
    by (auto simp: uninstall_mode_def no no [symmetric] split: option.splits prod.splits outcome.splits bool.splits)
  from load_uninstall_data_twin [OF d0(2) d2(2)] d0(3,4) obtain d2' where d2': "load_uninstall_data be (files name) d0 = (Ret x, d2')"
    "twin d2 d2'" "dv_cache_state d2 = CACHE_CLEAN" "dv_cache_state d2' = CACHE_CLEAN"
    "log_sized (unat (dv_uninstall_data_i d2)) d2" by auto
  from uninstall_twin [OF d2'(2-4) d2'(5) [unfolded log_sized_def] d2(3)] obtain d1' where d1': "uninstall d2' = (Ret True, d1')"
    "dv_disk d1' = dv_disk d1" "dv_uninstall_data_i d1' = dv_uninstall_data_i d1" by auto
  have "uninstall_mode be opts files d0 = (Ret EXIT_SUCCESS, d1')"
    using d2(1) d2'(1) d1'(1) by (simp add: uninstall_mode_def)
  moreover have "free_uninstall_data d1' = (Ret (), d1')" "d' = d1"
    using d1(3) d1'(3) by (auto simp: free_uninstall_data_def split: if_splits)
  ultimately show ?thesis
    using d0(1) mode d1(2) d1'(2) by (simp add: install_on_device_def pbind_def pret_def)
qed

section \<open>The command\<close>

text \<open>The file that the command line names for the undo data.\<close>

definition undo_file :: "(string \<rightharpoonup> u8 list) \<Rightarrow> string list \<Rightarrow> string option" where
  "undo_file files argv =
     (case parse_install_args (\<lambda>name. files name \<noteq> None) (tl argv) default_opts of
        Inl _ \<Rightarrow> None | Inr opts \<Rightarrow> io_uninstall_file opts)"

lemma bios_install_on_device:
  assumes "2 \<le> length argv" "parse_install_args (\<lambda>name. files name \<noteq> None) (tl argv) default_opts = Inr opts"
    "io_device opts = Some name"
  shows "bios_install be img rnd faults argv files =
    (case install_on_device be img rnd opts files (dev_open (the (files name)) faults) of
       (Ret (status, written), d) \<Rightarrow> (Ret status, case written of None \<Rightarrow> files(name \<mapsto> dv_disk d)
          | Some bytes \<Rightarrow> files(name \<mapsto> dv_disk d, the (io_uninstall_file opts) \<mapsto> bytes))
     | (Bail, d) \<Rightarrow> (Ret EXIT_FAILURE, files(name \<mapsto> dv_disk d))
     | (Undefined, d) \<Rightarrow> (Undefined, files(name \<mapsto> dv_disk d)))"
  using assms by (auto simp: bios_install_def Let_def split: outcome.split prod.split option.split)


lemma removal_with_fault:
  "fst (bios_install False [] (\<lambda>_. 0) [False, True] [''bios-install'', ''disk'', ''--uninstall'', ''--uninstall-data-file=u'']
     [''disk'' \<mapsto> replicate 2048 7, ''=u'' \<mapsto> replicate 8 0]) = Ret EXIT_SUCCESS"
proof -
  obtain d where d: "device_init (dev_open (replicate 2048 7) [False, True]) = (True, d)" "dv_faults d = []"
    by (simp add: device_init_def dev_open_def next_fault_def fread_cache_def Let_def slice_at_def splice_at_def)
  from init_guess_True [OF d(1) [unfolded device_init_def]] have clean: "dv_cache_state d = CACHE_CLEAN" by auto
  have "load_host False (replicate 8 0) = (0 :: u64)" by code_simp
  with d clean show ?thesis
    by (simp add: bios_install_def default_opts_def UNINSTALL_FILE_OPT_def install_on_device_def pbind_def uninstall_mode_def
        load_uninstall_data_def ud_fread_def next_fault_def Let_def load_entries.simps uninstall_def forget_cache_def
        device_flush_cache_def free_uninstall_data_def pret_def)
qed


section \<open>What the log misses\<close>

lemma two_block_chunks: "chunk_size 512 0 1024 0 = 512" "chunk_size 512 0 1024 512 = 512"
  by (simp_all add: chunk_size_def)

lemma partial_write_run:
  fixes z :: "u8 list"
  assumes "length z = 512"
  shows "\<exists>d0 d1. device_init (dev_open (z @ z @ z) (replicate 9 False @ [True])) = (True, d0) \<and>
    device_write (replicate 1024 1) 0 1024 d0 = (Bail, d1) \<and> dv_cache_state d1 = CACHE_CLEAN \<and>
    dv_disk d1 = replicate 512 1 @ z @ z \<and> dv_uninstall_data_i d1 = 0"
proof -
  have nines: "replicate 9 False @ [True] = [False, False, False, False, False, False, False, False, False, True]"
    by (simp add: numeral_eq_Suc)
  show ?thesis
    unfolding nines using assms
    by (simp add: device_init_def dev_open_def fread_cache_def fwrite_cache_def set_pos_def next_fault_def Let_def slice_at_def
        splice_at_def device_write_def save_old_def device_read_def device_read_loop.simps device_write_loop.simps
        device_cache_block_def device_flush_cache_def two_block_chunks UNINSTALL_DATA_MAX_def)
qed


end
