(* ===== verification/Limine_Shape.thy ===== *)
theory Limine_Shape
  imports Limine_Removal
begin

text \<open>
  What holds of the host tool's state whatever I/O and allocation errors occur and wherever it stops: the
  device keeps its size, the cache fits a block of it, and the log only grows. The interface
  \<open>io_relation\<close> takes a relation between states that every primitive step obeys and concludes
  that the whole installation does; it is instantiated with the two invariants.
\<close>

section \<open>The primitive steps\<close>

definition sound :: "dev \<Rightarrow> bool" where
  "sound d \<longleftrightarrow> dv_block_size d \<in> {512, 2048, 4096} \<and> length (dv_cache d) = unat (dv_block_size d) \<and>
     length (dv_disk d) < 2 ^ 63 \<and>
     (if dv_cached_block d = - 1 then dv_cache_state d = CACHE_CLEAN
      else (unat (dv_cached_block d) + 1) * unat (dv_block_size d) \<le> length (dv_disk d))"

lemma sound_cong:
  assumes "length (dv_disk d') = length (dv_disk d)" "dv_cache_state d' = dv_cache_state d \<or> dv_cache_state d' = CACHE_CLEAN"
    "dv_cached_block d' = dv_cached_block d" "dv_block_size d' = dv_block_size d" "length (dv_cache d') = length (dv_cache d)"
  shows "sound d \<Longrightarrow> sound d'"
  using assms by (auto simp: sound_def split: if_splits)

lemma fwrite_cache_True: "fwrite_cache n d = (True, d') \<Longrightarrow> dv_pos d + n \<le> length (dv_disk d) \<Longrightarrow> n \<le> length (dv_cache d) \<Longrightarrow>
  same_env d d' \<and> dv_cache_state d' = dv_cache_state d \<and> dv_cached_block d' = dv_cached_block d \<and> dv_cache d' = dv_cache d"
  by (auto simp: fwrite_cache_def next_fault_def same_env_def Let_def split: list.splits if_splits)

lemma flush_sound:
  assumes sd: "sound d" and run: "device_flush_cache d = (b, d')"
  shows "sound d' \<and> same_env d d' \<and> dv_cached_block d' = dv_cached_block d"
proof (cases "b \<and> dv_cache_state d = CACHE_DIRTY")
  case False
  show ?thesis
  proof (cases b)
    case True
    with False have "dv_cache_state d = CACHE_CLEAN" by (cases "dv_cache_state d") simp_all
    with run sd show ?thesis by (simp add: device_flush_cache_def)
  next
    case b: False
    from run b have "device_flush_cache d = (False, d')" by simp
    note frame = flush_False [OF this]
    then have "sound d'" by (intro sound_cong [OF _ _ _ _ _ sd]) (simp_all add: same_env_def)
    with frame show ?thesis by simp
  qed
next
  case True
  with sd have fits: "(unat (dv_cached_block d) + 1) * unat (dv_block_size d) \<le> length (dv_disk d)"
    and len: "length (dv_cache d) = unat (dv_block_size d)" "length (dv_disk d) < 2 ^ 63"
    by (auto simp: sound_def split: if_splits)
  note off = block_offset [OF fits len(2)]
  from True run obtain d1 d2 where s: "set_pos (dv_cached_block d * dv_block_size d) d = (True, d1)"
    "fwrite_cache (unat (dv_block_size d1)) d1 = (True, d2)" "d' = d2\<lparr>dv_cache_state := CACHE_CLEAN\<rparr>"
    by (auto simp: device_flush_cache_def split: prod.splits bool.splits)
  have "dv_pos d1 = unat (dv_cached_block d * dv_block_size d)"
    using s(1) by (auto simp: set_pos_def split: prod.splits if_splits)
  with set_pos_frame [OF s(1)] off len have "dv_pos d1 + unat (dv_block_size d1) \<le> length (dv_disk d1)"
    "unat (dv_block_size d1) \<le> length (dv_cache d1)" by (simp_all add: same_env_def)
  note frame = set_pos_frame [OF s(1)] fwrite_cache_True [OF s(2) this]
  have "sound d'" using frame s(3) by (intro sound_cong [OF _ _ _ _ _ sd]) (simp_all add: same_env_def)
  with frame s(3) show ?thesis by (simp add: same_env_def)
qed

lemma fread_cache_True: "fread_cache n d = (True, d') \<Longrightarrow> 0 < n \<Longrightarrow> dv_pos d + n \<le> length (dv_disk d)"
  by (auto simp: fread_cache_def next_fault_def Let_def slice_at_def split: list.splits if_splits)

lemma cache_block_sound:
  assumes sd: "sound d" and wrap: "unat block * unat (dv_block_size d) < 2 ^ 64"
    and run: "device_cache_block block d = (b, d')"
  shows "sound d' \<and> same_env d d' \<and> (b \<longrightarrow> dv_cached_block d' = block)"
proof (cases "dv_cached_block d = block")
  case True
  with run sd show ?thesis by (simp add: device_cache_block_def)
next
  case False
  let ?flush = "if dv_cache_state d = CACHE_DIRTY then device_flush_cache d else (True, d)"
  obtain b1 d1 where d1: "?flush = (b1, d1)" by fastforce
  with flush_sound [OF sd, of b1 d1] sd have s1: "sound d1" "same_env d d1" by (auto split: if_splits)
  have clean: "b1 \<Longrightarrow> dv_cache_state d1 = CACHE_CLEAN"
    using d1 by (cases "dv_cache_state d") (auto simp: device_flush_cache_def split: if_splits prod.splits bool.splits)
  show ?thesis
  proof (cases b1)
    case b1: False
    with False run d1 have "b = False" "d' = d1" by (auto simp: device_cache_block_def split: if_splits)
    with s1 show ?thesis by simp
  next
    case b1: True
    obtain p d2 where d2: "set_pos (block * dv_block_size d1) d1 = (p, d2)" by fastforce
    note frame = set_pos_frame [OF d2]
    have s2: "sound d2" using frame by (intro sound_cong [OF _ _ _ _ _ s1(1)]) (simp_all add: same_env_def)
    show ?thesis
    proof (cases p)
      case p: False
      with False run d1 d2 b1 have "b = False" "d' = d2" by (auto simp: device_cache_block_def split: if_splits)
      with s2 frame same_env_trans [OF s1(2)] show ?thesis by simp
    next
      case p: True
      obtain q d3 where d3: "fread_cache (unat (dv_block_size d2)) d2 = (q, d3)" by fastforce
      have "unat (dv_block_size d2) \<le> length (dv_cache d2)" using s2 by (simp add: sound_def)
      note frame3 = fread_cache_frame [OF d3 this]
      have s3: "sound d3" using frame3 by (intro sound_cong [OF _ _ _ _ _ s2]) (simp_all add: same_env_def)
      have env: "same_env d d3" using s1(2) frame frame3 by (blast intro: same_env_trans)
      have eq: "b = q" "d' = (if q then d3\<lparr>dv_cached_block := block\<rparr> else d3)"
        using False run d1 d2 d3 b1 p by (auto simp: device_cache_block_def split: if_splits bool.splits)
      show ?thesis
      proof (cases q)
        case q: False
        with eq s3 env show ?thesis by simp
      next
        case q: True
        have bs: "dv_block_size d2 = dv_block_size d" "0 < unat (dv_block_size d)"
          "dv_block_size d1 = dv_block_size d" "length (dv_disk d3) = length (dv_disk d)" "dv_block_size d3 = dv_block_size d"
          using s1(2) frame env sd by (auto simp: same_env_def sound_def)
        have "dv_pos d2 = unat block * unat (dv_block_size d)"
          using d2 p wrap by (auto simp: set_pos_def bs unat_mult_no_wrap split: prod.splits if_splits)
        with fread_cache_True [of "unat (dv_block_size d2)" d2 d3] d3 q bs frame3
        have fits: "(unat block + 1) * unat (dv_block_size d) \<le> length (dv_disk d)" by (simp add: algebra_simps)
        have "dv_cache_state d3 = CACHE_CLEAN" using frame frame3 clean b1 by simp
        with s3 fits have "sound (d3\<lparr>dv_cached_block := block\<rparr>)" by (simp add: sound_def bs)
        with eq q env show ?thesis by (simp add: same_env_def)
      qed
    qed
  qed
qed

lemma block_position: "unat (x div bs :: u64) * unat bs < 2 ^ 64"
proof -
  have "unat (x div bs) * unat bs \<le> unat x" by (simp add: unat_div div_times_less_eq_dividend)
  also have "\<dots> < 2 ^ 64" by (rule unat_u64_less)
  finally show ?thesis .
qed

lemma block_not_forgotten: "sound d \<Longrightarrow> x div dv_block_size d \<noteq> - 1"
proof
  assume sd: "sound d" and eq: "x div dv_block_size d = - 1"
  have "unat (x div dv_block_size d) * unat (dv_block_size d) < 2 ^ 64" by (rule block_position)
  moreover have "unat (- 1 :: u64) = 2 ^ 64 - 1" by (simp add: unsigned_minus_1_eq_mask mask_eq_exp_minus_1)
  ultimately have "(2 ^ 64 - 1) * unat (dv_block_size d) < 2 ^ 64" by (simp only: eq)
  with sd show False by (auto simp: sound_def)
qed

lemma read_loop_sound:
  "sound d \<Longrightarrow> device_read_loop loc count progress buffer d = (r, d') \<Longrightarrow> r \<noteq> Undefined \<and> sound d' \<and> same_env d d'"
proof (induction loc count progress buffer d arbitrary: r d' rule: device_read_loop.induct)
  case (1 loc count progress buffer d)
  show ?case
  proof (cases "progress < count")
    case False
    with 1(2,3) show ?thesis by (auto simp: device_read_loop.simps [of loc count progress])
  next
    case True
    let ?bs = "dv_block_size d"
    let ?chunk = "chunk_size ?bs loc count progress"
    have bs: "?bs \<noteq> 0" using 1(2) by (auto simp: sound_def)
    obtain b d1 where d1: "device_cache_block ((loc + progress) div ?bs) d = (b, d1)" by fastforce
    note s1 = cache_block_sound [OF 1(2) block_position d1]
    show ?thesis
    proof (cases b)
      case False
      with 1(3) True bs d1 s1 show ?thesis by (simp add: device_read_loop.simps [of loc count progress] Let_def)
    next
      case b: True
      with d1 have d1': "device_cache_block ((loc + progress) div ?bs) d = (True, d1)" by simp
      from b 1(3) True bs d1' have run: "device_read_loop loc count (progress + ?chunk)
          (buffer @ slice_at (dv_cache d1) (unat ((loc + progress) mod ?bs)) (unat ?chunk)) d1 = (r, d')"
        by (simp add: device_read_loop.simps [of loc count progress] Let_def)
      from 1(1) [OF True refl bs refl d1' [symmetric] refl refl refl _ run] s1 same_env_trans show ?thesis by blast
    qed
  qed
qed

lemma write_round_sound:
  fixes buffer :: "u8 list"
  assumes sd: "sound d" and more: "progress < count"
    and blk: "device_cache_block ((loc + progress) div dv_block_size d) d = (True, d1)"
  defines "d2 \<equiv> d1\<lparr>dv_cache := splice_at (dv_cache d1) (unat ((loc + progress) mod dv_block_size d))
      (slice_at buffer (unat progress) (unat (chunk_size (dv_block_size d) loc count progress))), dv_cache_state := CACHE_DIRTY\<rparr>"
  shows "sound d2 \<and> same_env d d2"
proof -
  note s1 = cache_block_sound [OF sd block_position blk]
  have bs: "dv_block_size d \<noteq> 0" "dv_block_size d1 = dv_block_size d" using sd s1 by (auto simp: sound_def same_env_def)
  let ?off = "unat ((loc + progress) mod dv_block_size d)"
    and ?ys = "slice_at buffer (unat progress) (unat (chunk_size (dv_block_size d) loc count progress))"
  have "?off < unat (dv_block_size d)" using bs(1) by (simp add: unat_mod unat_gt_0)
  moreover have "length ?ys \<le> unat (dv_block_size d) - ?off"
    using chunk_size_bounds(3) [OF bs(1) more, of loc] by (simp add: slice_at_def)
  ultimately have "?off + length ?ys \<le> length (dv_cache d1)" using s1 bs(2) by (simp add: sound_def)
  then have "length (splice_at (dv_cache d1) ?off ?ys) = length (dv_cache d1)" by simp
  with s1 block_not_forgotten [OF sd, of "loc + progress"] show ?thesis
    by (auto simp: sound_def d2_def same_env_def)
qed

lemma write_loop_sound:
  "sound d \<Longrightarrow> device_write_loop buffer loc count progress d = (r, d') \<Longrightarrow> r \<noteq> Undefined \<and> sound d' \<and> same_env d d'"
proof (induction buffer loc count progress d arbitrary: r d' rule: device_write_loop.induct)
  case (1 buffer loc count progress d)
  show ?case
  proof (cases "progress < count")
    case False
    with 1(2,3) show ?thesis by (auto simp: device_write_loop.simps [of buffer loc count progress])
  next
    case True
    let ?bs = "dv_block_size d"
    let ?chunk = "chunk_size ?bs loc count progress"
    have bs: "?bs \<noteq> 0" using 1(2) by (auto simp: sound_def)
    obtain b d1 where d1: "device_cache_block ((loc + progress) div ?bs) d = (b, d1)" by fastforce
    note s1 = cache_block_sound [OF 1(2) block_position d1]
    show ?thesis
    proof (cases b)
      case False
      with 1(3) True bs d1 s1 show ?thesis by (simp add: device_write_loop.simps [of buffer loc count progress] Let_def)
    next
      case b: True
      with d1 have d1': "device_cache_block ((loc + progress) div ?bs) d = (True, d1)" by simp
      from b 1(3) True bs d1' have run: "device_write_loop buffer loc count (progress + ?chunk)
          (d1\<lparr>dv_cache := splice_at (dv_cache d1) (unat ((loc + progress) mod ?bs))
             (slice_at buffer (unat progress) (unat ?chunk)), dv_cache_state := CACHE_DIRTY\<rparr>) = (r, d')"
        by (simp add: device_write_loop.simps [of buffer loc count progress] Let_def)
      note s2 = write_round_sound [OF 1(2) True d1', of buffer]
      from 1(1) [OF True refl bs refl d1' [symmetric] refl refl refl _ run] s2 same_env_trans show ?thesis by blast
    qed
  qed
qed

lemma sound_log [simp]:
  "sound (d\<lparr>dv_uninstall_data := l\<rparr>) = sound d" "sound (d\<lparr>dv_uninstall_data_i := i\<rparr>) = sound d"
  "sound (d\<lparr>dv_uninstalling := u\<rparr>) = sound d" "sound (reverse_uninstall_data d) = sound d"
  by (simp_all add: sound_def reverse_uninstall_data_def Let_def)

lemma next_fault_sound: "next_fault d = (b, d') \<Longrightarrow> sound d' = sound d \<and> same_env d d'"
  by (auto simp: next_fault_def sound_def same_env_def split: list.splits)

lemma read_sound: "sound d \<Longrightarrow> device_read loc count d = (r, d') \<Longrightarrow> r \<noteq> Undefined \<and> sound d' \<and> same_env d d'"
  unfolding device_read_def by (rule read_loop_sound)

text \<open>Saving the old contents changes one entry behind the log.\<close>

lemma save_old_sound:
  assumes sd: "sound d" and run: "save_old loc count d = (r, d')"
  shows "r \<noteq> Undefined \<and> sound d' \<and> (r = Ret () \<longrightarrow> dv_uninstall_data_i d < UNINSTALL_DATA_MAX) \<and>
    (\<exists>d1 l. same_env d d1 \<and> d' = d1\<lparr>dv_uninstall_data := l\<rparr> \<and> length l = length (dv_uninstall_data d) \<and>
      take (unat (dv_uninstall_data_i d)) l = take (unat (dv_uninstall_data_i d)) (dv_uninstall_data d))"
proof -
  have same: "\<exists>d1 l. same_env d d1 \<and> d2 = d1\<lparr>dv_uninstall_data := l\<rparr> \<and> length l = length (dv_uninstall_data d) \<and>
      take (unat (dv_uninstall_data_i d)) l = take (unat (dv_uninstall_data_i d)) (dv_uninstall_data d)"
    if "same_env d d2" for d2
    using that by (intro exI [of _ d2] exI [of _ "dv_uninstall_data d"]) (simp add: same_env_def)
  show ?thesis
  proof (cases "dv_uninstall_data_i d \<ge> UNINSTALL_DATA_MAX")
    case True
    with run sd same [of d] show ?thesis by (auto simp: save_old_def)
  next
    case False
    obtain bad d1 where d1: "next_fault d = (bad, d1)" by fastforce
    note f = next_fault_sound [OF d1]
    obtain q d2 where d2: "device_read loc count d1 = (q, d2)" by fastforce
    with f sd have s2: "q \<noteq> Undefined" "sound d2" "same_env d d2" using read_sound [of d1] same_env_trans by blast+
    show ?thesis
    proof (cases "bad \<or> q = Bail")
      case True
      with run False d1 d2 f sd s2 same [of d1] same [of d2] show ?thesis by (auto simp: save_old_def split: if_splits)
    next
      case ok: False
      then obtain old where "q = Ret old" using s2(1) by (cases q) auto
      with run False d1 d2 ok s2 show ?thesis
        by (auto simp: save_old_def same_env_def intro!: exI [of _ d2])
    qed
  qed
qed

definition log_ready :: "dev \<Rightarrow> bool" where
  "log_ready d \<longleftrightarrow> \<not> dv_uninstalling d \<and> length (dv_uninstall_data d) = unat UNINSTALL_DATA_MAX \<and>
     length (dv_uninstall_data_rev d) = unat UNINSTALL_DATA_MAX \<and> dv_uninstall_data_i d \<le> UNINSTALL_DATA_MAX"

text \<open>The two relations between the state before and after a step.\<close>

definition shaped :: "dev \<Rightarrow> dev \<Rightarrow> bool" where
  "shaped d d' \<longleftrightarrow> (sound d \<longrightarrow> sound d' \<and> length (dv_disk d') = length (dv_disk d))"

definition log_grows :: "dev \<Rightarrow> dev \<Rightarrow> bool" where
  "log_grows d d' \<longleftrightarrow> (sound d \<and> log_ready d \<longrightarrow> sound d' \<and> log_ready d' \<and> (\<exists>es. dev_log d' = dev_log d @ es))"

lemma same_env_grows: "sound d' \<Longrightarrow> same_env d d' \<Longrightarrow> log_grows d d'"
  by (auto simp: log_grows_def log_ready_def same_env_def dev_log_def)

lemma counted_entry_grows:
  assumes rd: "log_ready d" "dv_uninstall_data_i d < UNINSTALL_DATA_MAX" and d': "sound d'" "same_env d d'"
  shows "log_ready (d'\<lparr>dv_uninstall_data_i := dv_uninstall_data_i d' + 1\<rparr>) \<and>
    (\<exists>es. dev_log (d'\<lparr>dv_uninstall_data_i := dv_uninstall_data_i d' + 1\<rparr>) = dev_log d @ es)"
proof -
  let ?i = "dv_uninstall_data_i d"
  have i: "unat (?i + 1) = unat ?i + 1" "unat ?i < length (dv_uninstall_data d)" "?i + 1 \<le> UNINSTALL_DATA_MAX"
    using rd by (auto simp: log_ready_def UNINSTALL_DATA_MAX_def unat_add_no_wrap word_less_nat_alt word_le_nat_alt)
  with rd d' take_Suc_conv_app_nth [OF i(2)] show ?thesis
    by (simp add: log_ready_def same_env_def dev_log_def)
qed

lemma write_sound:
  assumes sd: "sound d" and run: "device_write buffer loc count d = (r, d')"
  shows "r \<noteq> Undefined \<and> sound d' \<and> length (dv_disk d') = length (dv_disk d) \<and> dv_uninstalling d' = dv_uninstalling d \<and>
    (dv_uninstalling d \<longrightarrow> same_env d d') \<and> log_grows d d'"
proof -
  obtain q d1 where d1: "(if dv_uninstalling d then (Ret (), d) else save_old loc count d) = (q, d1)" by fastforce
  have s1: "q \<noteq> Undefined" "sound d1" "length (dv_disk d1) = length (dv_disk d)" "dv_uninstalling d1 = dv_uninstalling d"
    "dv_uninstalling d \<longrightarrow> d1 = d \<and> q = Ret ()"
    using d1 sd save_old_sound [OF sd, of loc count q d1] by (auto simp: same_env_def split: if_splits)
  have log: "\<not> dv_uninstalling d \<Longrightarrow> log_ready d \<Longrightarrow> log_ready d1 \<and> dev_log d1 = dev_log d \<and>
      dv_uninstall_data_i d1 = dv_uninstall_data_i d \<and> (q = Ret () \<longrightarrow> dv_uninstall_data_i d < UNINSTALL_DATA_MAX)"
    using d1 save_old_sound [OF sd, of loc count q d1] by (auto simp: same_env_def log_ready_def dev_log_def)
  show ?thesis
  proof (cases "q = Ret ()")
    case False
    with run d1 s1 log have "d' = d1" "r \<noteq> Undefined" "\<not> dv_uninstalling d"
      by (cases q; auto simp: device_write_def)+
    with s1 log show ?thesis by (auto simp: log_grows_def)
  next
    case True
    obtain p d2 where d2: "device_write_loop buffer loc count 0 d1 = (p, d2)" by fastforce
    note s2 = write_loop_sound [OF s1(2) d2]
    show ?thesis
    proof (cases "p = Ret ()")
      case False
      with run d1 d2 True s2 have "d' = d2" "r = p" by (cases p; simp add: device_write_def)+
      with s1 s2 log show ?thesis by (auto simp: log_grows_def same_env_def log_ready_def dev_log_def)
    next
      case p: True
      with run d1 d2 True have d': "d' = (if dv_uninstalling d2 then d2 else d2\<lparr>dv_uninstall_data_i := dv_uninstall_data_i d2 + 1\<rparr>)"
        "r = Ret ()" by (simp_all add: device_write_def)
      show ?thesis
      proof (cases "dv_uninstalling d")
        case True
        with d' s1 s2 show ?thesis by (auto simp: same_env_def log_grows_def log_ready_def)
      next
        case un: False
        have "log_grows d d'"
          using log [OF un] True counted_entry_grows [of d1 d2] d' s1 s2 un by (auto simp: log_grows_def same_env_def)
        with d' s1 s2 un show ?thesis by (auto simp: same_env_def)
      qed
    qed
  qed
qed

section \<open>The interface\<close>

definition obeys :: "(dev \<Rightarrow> dev \<Rightarrow> bool) \<Rightarrow> 'a prog \<Rightarrow> bool" where
  "obeys I m \<longleftrightarrow> (\<forall>d r d'. m d = (r, d') \<longrightarrow> I d d')"

lemma obeysD: "obeys I m \<Longrightarrow> m d = (r, d') \<Longrightarrow> I d d'"
  by (simp add: obeys_def)

lemma obeys_if: "obeys I m \<Longrightarrow> obeys I m' \<Longrightarrow> obeys I (if b then m else m')"
  by simp

lemma obeys_option:
  "obeys I m \<Longrightarrow> (\<And>y. obeys I (f y)) \<Longrightarrow> obeys I (case x of None \<Rightarrow> m | Some y \<Rightarrow> f y)"
  by (cases x) simp_all

lemma obeys_pair: "(\<And>a b. obeys I (f a b)) \<Longrightarrow> obeys I (case x of (a, b) \<Rightarrow> f a b)"
  by (cases x) simp

locale io_relation =
  fixes I :: "dev \<Rightarrow> dev \<Rightarrow> bool"
  assumes refl: "I d d"
    and trans: "I d d' \<Longrightarrow> I d' d'' \<Longrightarrow> I d d''"
    and on_fault: "next_fault d = (bad, d') \<Longrightarrow> I d d'"
    and on_read: "device_read loc count d = (read_result, d') \<Longrightarrow> I d d'"
    and on_write: "device_write buffer loc count d = (write_result, d') \<Longrightarrow> I d d'"
    and on_flush: "device_flush_cache d = (flushed, d') \<Longrightarrow> I d d'"
begin

lemma obeys_pret: "obeys I (pret x)"
  by (simp add: obeys_def pret_def refl)

lemma obeys_pbail: "obeys I pbail"
  by (simp add: obeys_def pbail_def refl)

lemma obeys_pundefined: "obeys I pundefined"
  by (simp add: obeys_def pundefined_def refl)

lemma obeys_pbind: "obeys I m \<Longrightarrow> (\<And>x. obeys I (f x)) \<Longrightarrow> obeys I (pbind m f)"
  unfolding obeys_def
proof (intro allI impI)
  fix d r d'
  assume m: "\<forall>d r d'. m d = (r, d') \<longrightarrow> I d d'" and f: "\<And>x. \<forall>d r d'. f x d = (r, d') \<longrightarrow> I d d'"
    and run: "pbind m f d = (r, d')"
  obtain q d1 where q: "m d = (q, d1)" by fastforce
  with m have "I d d1" by blast
  then show "I d d'"
  proof (cases q)
    case (Ret x)
    with run q have "f x d1 = (r, d')" by (simp add: pbind_def)
    with f have "I d1 d'" by blast
    with \<open>I d d1\<close> show ?thesis by (rule trans)
  qed (use run q in \<open>simp_all add: pbind_def\<close>)
qed

lemma obeys_read: "obeys I (device_read loc count)"
  by (auto simp: obeys_def intro: on_read)

lemma obeys_write: "obeys I (device_write buffer loc count)"
  by (auto simp: obeys_def intro: on_write)

lemma obeys_flush: "obeys I (or_cleanup device_flush_cache)"
  by (auto simp: obeys_def or_cleanup_def split: prod.splits bool.splits intro: on_flush)

lemma obeys_fault: "obeys I fault"
  by (auto simp: obeys_def fault_def split: prod.splits intro: on_fault)

lemma obeys_allocate: "obeys I allocate"
  by (auto simp: obeys_def allocate_def split: prod.splits if_splits intro: on_fault)

lemma obeys_write_all: "obeys I (write_all device_write ws)"
proof (induction ws)
  case Nil
  then show ?case by (simp add: obeys_def refl)
next
  case (Cons w ws)
  then show ?case by (cases w) (simp add: write_all_pbind obeys_pbind obeys_write del: write_all.simps)
qed

lemmas obeys_rules = obeys_pbind obeys_if obeys_option obeys_pair obeys_pret obeys_pbail
  obeys_pundefined obeys_read obeys_write obeys_flush obeys_fault obeys_allocate obeys_write_all

lemma obeys_probe_gpt: "obeys I (probe_gpt be force_mbr guesses)"
  by (induction guesses) (auto simp: Let_def intro!: obeys_rules)

lemma obeys_read_gpt_entry: "obeys I (read_gpt_entry be h lb_size i)"
  unfolding read_gpt_entry_def by (intro obeys_rules)

lemma obeys_gather_parts: "obeys I (gather_parts be h lb_size js parts)"
  by (induction js arbitrary: parts) (auto simp: Let_def intro!: obeys_rules obeys_read_gpt_entry)

lemma obeys_max_entry_used: "obeys I (max_entry_used be h lb_size js k)"
  by (induction js arbitrary: k) (auto intro!: obeys_rules obeys_read_gpt_entry)

lemma obeys_isohybrid: "obeys I (isohybrid_conversion be rnd h lb_size)"
  unfolding isohybrid_conversion_def convert_to_mbr_def
  by (intro obeys_rules obeys_gather_parts)

lemma obeys_place_in_partition: "obeys I (place_in_partition be h lb_size size_a part_ndx)"
  unfolding place_in_partition_def Let_def by (intro obeys_rules)

lemma obeys_embed_in_gpt: "obeys I (embed_in_gpt be h s lb_size size_a size_b)"
  unfolding embed_in_gpt_def rewrite_tables_def zero_entries_def write_header_def Let_def
  by (intro obeys_rules obeys_max_entry_used)

lemma obeys_mbr_checks: "obeys I (mbr_checks be force_mbr)"
  unfolding mbr_checks_def check_partition_def check_signature_def check_ext_magic_def Let_def
  by (intro obeys_rules)

lemma obeys_install_body: "obeys I (install_body be bootloader_img rnd opts)"
  unfolding install_body_def find_gpt_def read_secondary_def place_stage2_def write_stages_def Let_def
  by (intro obeys_rules obeys_probe_gpt obeys_isohybrid obeys_mbr_checks obeys_place_in_partition
      obeys_embed_in_gpt)

end

interpretation shape: io_relation shaped
proof (unfold_locales, goal_cases)
  case (3 d bad d') then show ?case using next_fault_sound [OF 3] by (simp add: shaped_def same_env_def)
next
  case (4 loc count d r d') then show ?case using read_sound [OF _ 4] by (simp add: shaped_def same_env_def)
next
  case (5 buffer loc count d r d') then show ?case using write_sound [OF _ 5] by (simp add: shaped_def)
next
  case (6 d b d') then show ?case using flush_sound [OF _ 6] by (simp add: shaped_def same_env_def)
qed (simp_all add: shaped_def)

interpretation log: io_relation log_grows
proof (unfold_locales, goal_cases)
  case (2 d d' d'') then show ?case by (auto simp: log_grows_def)
next
  case (3 d bad d') then show ?case using next_fault_sound [OF 3] same_env_grows [of d' d] by (auto simp: log_grows_def)
next
  case (4 loc count d r d') then show ?case using read_sound [OF _ 4] same_env_grows [of d' d] by (auto simp: log_grows_def)
next
  case (5 buffer loc count d r d') then show ?case using write_sound [OF _ 5] by (auto simp: log_grows_def)
next
  case (6 d b d') then show ?case using flush_sound [OF _ 6] same_env_grows [of d' d] by (auto simp: log_grows_def)
qed (simp_all add: log_grows_def)

section \<open>Undoing\<close>

lemma forget_sound: "sound d \<Longrightarrow> sound (forget_cache d) \<and> same_env d (forget_cache d)"
  by (simp add: sound_def forget_cache_def same_env_def)

lemma restore_entry_sound:
  "sound d \<Longrightarrow> dv_uninstalling d \<Longrightarrow> restore_entry retry ud fl d = (r, d') \<Longrightarrow>
   (\<exists>fl'. r = Ret fl') \<and> sound d' \<and> same_env d d'"
proof (induction retry ud fl d arbitrary: r d' rule: restore_entry.induct)
  case (1 retry ud flush_fail write_fail d)
  obtain q d1 where q: "device_write (ud_data ud) (ud_loc ud) (ud_count ud) d = (q, d1)" by fastforce
  note w = write_sound [OF 1(2) q]
  note run = 1(4) [unfolded restore_entry.simps [of retry]]
  show ?case
  proof (cases "q = Ret () \<or> retry")
    case True
    with run q w 1(3) show ?thesis by (cases q) auto
  next
    case False
    with w have bail: "q = Bail" by (cases q) auto
    obtain b d2 where b: "device_flush_cache d1 = (b, d2)" by fastforce
    note f = flush_sound [OF w [THEN conjunct2, THEN conjunct1] b]
    have s3: "sound (forget_cache d2)" "same_env d (forget_cache d2)"
      using w f 1(3) forget_sound [of d2] same_env_trans by blast+
    then have "dv_uninstalling (forget_cache d2)" using 1(3) by (simp add: same_env_def)
    moreover have "restore_entry True ud (flush_fail \<or> \<not> b, write_fail) (forget_cache d2) = (r, d')"
      using run q bail b False by simp
    ultimately show ?thesis
      using 1(1) [OF q [symmetric] bail _ b [symmetric] s3(1)] False s3(2) same_env_trans by blast
  qed
qed

lemma restore_entries_sound:
  "sound d \<Longrightarrow> dv_uninstalling d \<Longrightarrow> restore_entries js fl d = (r, d') \<Longrightarrow>
   sound d' \<and> same_env d d' \<and> ((\<forall>i \<in> set js. i < length (dv_uninstall_data d)) \<longrightarrow> (\<exists>fl'. r = Ret fl'))"
proof (induction js arbitrary: fl d)
  case Nil
  then show ?case by (cases fl) auto
next
  case (Cons i js)
  show ?case
  proof (cases "i < length (dv_uninstall_data d)")
    case False
    with Cons.prems show ?thesis by auto
  next
    case True
    obtain q d1 where q: "restore_entry False (dv_uninstall_data d ! i) fl d = (q, d1)" by fastforce
    from restore_entry_sound [OF Cons.prems(1,2) q] obtain fl1 where s1: "q = Ret fl1" "sound d1" "same_env d d1" by blast
    then have "dv_uninstalling d1" "restore_entries js fl1 d1 = (r, d')" "dv_uninstall_data d1 = dv_uninstall_data d"
      using Cons.prems(2,3) True q by (auto simp: same_env_def)
    with Cons.IH [OF s1(2) this(1,2)] s1(3) same_env_trans [OF s1(3)] show ?thesis by simp
  qed
qed

lemma uninstall_sound:
  assumes sd: "sound d" and run: "uninstall d = (r, d')"
  shows "sound d' \<and> length (dv_disk d') = length (dv_disk d) \<and> dv_uninstall_data_i d' = dv_uninstall_data_i d \<and>
    (unat (dv_uninstall_data_i d) \<le> length (dv_uninstall_data d) \<longrightarrow> (\<exists>ok. r = Ret ok))"
proof -
  let ?d = "forget_cache (d\<lparr>dv_uninstalling := True\<rparr>)" and ?js = "[0..<unat (dv_uninstall_data_i d)]"
  have s0: "sound ?d" "dv_uninstalling ?d" "dv_uninstall_data_i ?d = dv_uninstall_data_i d"
    "dv_uninstall_data ?d = dv_uninstall_data d" "dv_disk ?d = dv_disk d"
    using forget_sound [of "d\<lparr>dv_uninstalling := True\<rparr>"] sd by (simp_all add: forget_cache_def)
  obtain q d1 where q: "restore_entries ?js (False, False) ?d = (q, d1)" by fastforce
  note s1 = restore_entries_sound [OF s0(1,2) q]
  obtain b d2 where b: "device_flush_cache d1 = (b, d2)" by fastforce
  note s2 = flush_sound [OF s1 [THEN conjunct1] b]
  have "d' = d1 \<and> (\<forall>fl. q \<noteq> Ret fl) \<or> d' = d2 \<and> (\<exists>ok. r = Ret ok)"
    using run q b s0(3) by (cases q) (auto simp: uninstall_def Let_def)
  with s0 s1 s2 show ?thesis by (auto simp: same_env_def)
qed

lemma reverse_lengths:
  assumes "log_ready d"
  shows "length (dv_uninstall_data (reverse_uninstall_data d)) = unat UNINSTALL_DATA_MAX"
  using assms reverse_uninstall_data_eq [of d] by (simp add: log_ready_def word_le_nat_alt)

text \<open>Reading the undo file leaves the device alone.\<close>

definition same_device :: "dev \<Rightarrow> dev \<Rightarrow> bool" where
  "same_device d d' \<longleftrightarrow> sound d' = sound d \<and> length (dv_disk d') = length (dv_disk d)"

lemma same_device_trans: "same_device d d' \<Longrightarrow> same_device d' d'' \<Longrightarrow> same_device d d''"
  by (simp add: same_device_def)

lemma next_fault_device: "next_fault d = (b, d') \<Longrightarrow> same_device d d'"
  using next_fault_sound [of d b d'] by (simp add: same_device_def same_env_def)

lemma ud_fread_device: "ud_fread n bytes d = (x, d') \<Longrightarrow> same_device d d'"
  by (auto simp: ud_fread_def dest: next_fault_device split: if_splits prod.splits)

lemma load_entry_device: "load_entry be i bytes d = (r, d') \<Longrightarrow> same_device d d'"
  by (auto simp: load_entry_def same_device_def split: if_splits prod.splits option.splits
      dest!: ud_fread_device next_fault_device)

lemma load_entries_device: "load_entries be n i bytes d = (r, d') \<Longrightarrow> same_device d d'"
proof (induction be n i bytes d arbitrary: r d' rule: load_entries.induct)
  case (1 be n i bytes d)
  obtain q d1 where q: "load_entry be i bytes d = (q, d1)" by fastforce
  note e = load_entry_device [OF q]
  show ?case
  proof (cases "i < n")
    case False
    with 1(2) show ?thesis by (simp add: load_entries.simps [of be n i] same_device_def)
  next
    case True
    show ?thesis
    proof (cases q)
      case (Ret rest)
      with 1(2) True q have "load_entries be n (i + 1) rest d1 = (r, d')" by (simp add: load_entries.simps [of be n i])
      from 1(1) [OF True q [symmetric] Ret this] e show ?thesis by (rule same_device_trans [rotated])
    qed (use 1(2) True q e in \<open>simp_all add: load_entries.simps [of be n i]\<close>)
  qed
qed

lemma load_uninstall_data_device: "load_uninstall_data be file d = (r, d') \<Longrightarrow> same_device d d'"
  by (auto simp: load_uninstall_data_def Let_def same_device_def split: option.splits prod.splits
      dest!: ud_fread_device load_entries_device)

section \<open>The command\<close>

lemma init_frame: "device_init_guess guesses d = (b, d') \<Longrightarrow>
  dv_disk d' = dv_disk d \<and> dv_uninstall_data_i d' = dv_uninstall_data_i d"
  by (induction guesses d rule: device_init_guess.induct)
     (auto simp: fread_cache_def next_fault_def Let_def split: prod.splits bool.splits list.splits if_splits)

lemma init_sound:
  assumes "device_init d = (True, d')" "length (dv_disk d) < 2 ^ 63"
  shows "sound d'"
  using init_guess_True [OF assms(1) [unfolded device_init_def]] assms(2) by (auto simp: sound_def)

text \<open>The clean-up of an installation, successful or not, is always defined.\<close>

lemma install_cleanup_defined:
  assumes sd: "sound d" "log_ready d" and run: "install_cleanup be opts ok d = (r, d')"
  shows "(\<exists>status written. r = Ret (status, written) \<and> (written \<noteq> None \<longrightarrow> io_uninstall_file opts \<noteq> None)) \<and>
    length (dv_disk d') = length (dv_disk d) \<and> dv_uninstall_data_i d' \<le> UNINSTALL_DATA_MAX"
proof (cases ok)
  case True
  with install_cleanup_frame [of be opts d r d'] run sd(2) show ?thesis by (auto simp: log_ready_def)
next
  case False
  obtain q d1 where q: "uninstall (reverse_uninstall_data d) = (q, d1)" by fastforce
  have "unat (dv_uninstall_data_i d) \<le> unat UNINSTALL_DATA_MAX" using sd(2) by (simp add: log_ready_def word_le_nat_alt)
  with uninstall_sound [OF _ q] sd reverse_lengths [OF sd(2)] obtain b where
    "q = Ret b" "length (dv_disk d1) = length (dv_disk d)" "dv_uninstall_data_i d1 = dv_uninstall_data_i d" by auto
  with run q False sd(2) show ?thesis by (auto simp: install_cleanup_def Let_def log_ready_def)
qed

lemma init_ready:
  assumes "device_init (dev_open disk faults) = (True, d)" "length disk < 2 ^ 63"
  shows "sound d \<and> log_ready d \<and> dv_disk d = disk"
  using init_guess_True [OF assms(1) [unfolded device_init_def]] init_sound [OF assms(1)] assms(2)
  by (auto simp: dev_open_def log_ready_def)

lemma install_body_ready:
  assumes "sound d" "log_ready d" "install_body be img rnd opts d = (r, d')"
  shows "sound d' \<and> log_ready d' \<and> length (dv_disk d') = length (dv_disk d) \<and> (\<exists>es. dev_log d' = dev_log d @ es)"
  using obeysD [OF shape.obeys_install_body assms(3)] obeysD [OF log.obeys_install_body assms(3)] assms(1,2)
  by (simp add: shaped_def log_grows_def)

lemma installation_defined:
  assumes mode: "\<not> io_uninstall_mode opts" and len: "length disk < 2 ^ 63"
    and init: "device_init (dev_open disk faults) = (True, d0)" and body: "install_body be img rnd opts d0 = (q, d1)"
    and run: "install_on_device be img rnd opts files (dev_open disk faults) = (r, d')"
  shows "length (dv_disk d') = length disk \<and> (q \<noteq> Undefined \<longrightarrow>
    (\<exists>status written. r = Ret (status, written) \<and> (written \<noteq> None \<longrightarrow> io_uninstall_file opts \<noteq> None)))"
proof -
  from init_ready [OF init len] have d0: "sound d0" "log_ready d0" "dv_disk d0 = disk" by blast+
  from install_body_ready [OF d0(1,2) body] have d1: "sound d1" "log_ready d1" "length (dv_disk d1) = length disk"
    by (simp_all add: d0(3))
  note run = run [unfolded install_on_device_eq [OF init mode] body]
  show ?thesis
  proof (cases "q = Undefined")
    case True
    with run d1(3) show ?thesis by simp
  next
    case False
    obtain p d2 where p: "install_cleanup be opts (q \<noteq> Bail) d1 = (p, d2)" by fastforce
    with install_cleanup_defined [OF d1(1,2) p] d1(3) obtain status written where
      x: "p = Ret (status, written)" "written \<noteq> None \<longrightarrow> io_uninstall_file opts \<noteq> None"
        "length (dv_disk d2) = length disk" "dv_uninstall_data_i d2 \<le> UNINSTALL_DATA_MAX" by (auto simp del: not_None_eq)
    have "pbind (install_cleanup be opts (q \<noteq> Bail)) (\<lambda>r. pbind free_uninstall_data (\<lambda>_. pret r)) d1 = (Ret (status, written), d2)"
      using p x(1,4) by (simp add: pbind_def free_uninstall_data_def pret_def not_less)
    with run False have "r = Ret (status, written) \<and> d' = d2" by (cases q) simp_all
    with x show ?thesis by blast
  qed
qed

text \<open>C36: Whatever errors occur, the clean-up of an installation, with the second attempts of its undoing and
  the release of the log, never runs into undefined behaviour: if the installation steps do not, the
  command does not.
\<close>

theorem cleanup_never_undefined:
  assumes mode: "\<not> io_uninstall_mode opts" and len: "length disk < 2 ^ 63"
    and body: "\<And>d. device_init (dev_open disk faults) = (True, d) \<Longrightarrow> fst (install_body be img rnd opts d) \<noteq> Undefined"
  shows "\<exists>result d'. install_on_device be img rnd opts files (dev_open disk faults) = (Ret result, d')"
proof -
  obtain ok d where init: "device_init (dev_open disk faults) = (ok, d)" by fastforce
  show ?thesis
  proof (cases ok)
    case True
    with init have init: "device_init (dev_open disk faults) = (True, d)" by simp
    obtain q d1 where q: "install_body be img rnd opts d = (q, d1)" by fastforce
    obtain r d' where r: "install_on_device be img rnd opts files (dev_open disk faults) = (r, d')" by fastforce
    from installation_defined [OF mode len init q r] body [OF init] q r show ?thesis by auto
  next
    case False
    have "dv_uninstall_data_i d = 0" using init_frame [OF init [unfolded device_init_def]] by (simp add: dev_open_def)
    with init False show ?thesis
      by (simp add: install_on_device_def pbind_def free_uninstall_data_def pret_def)
  qed
qed

lemma bails_on_fault:
  assumes "device_init (dev_open (replicate 1024 0) [False, False, True]) = (True, d)"
  shows "fst (install_body be img rnd opts d) = Bail"
proof -
  have d: "dv_faults d = [True]" "dv_block_size d = 512" "dv_cached_block d = 0" "dv_cache_state d = CACHE_CLEAN"
    using assms
    by (simp_all add: device_init_def dev_open_def fread_cache_def next_fault_def Let_def slice_at_def splice_at_def) auto
  then obtain d1 where "device_cache_block 1 d = (False, d1)"
    by (simp add: device_cache_block_def set_pos_def next_fault_def)
  with d(2) have "device_read 512 (of_nat sizeof_gpt_table_header) d = (Bail, d1)"
    by (simp add: device_read_def device_read_loop.simps Let_def sizeof_gpt_table_header_def)
  then show ?thesis
    by (simp add: install_body_def find_gpt_def lb_guesses_def pbind_def)
qed

theorem cleanup_never_undefined_witness:
  "\<exists>result d'. install_on_device False (replicate 1536 7) (\<lambda>_. 0) default_opts Map.empty
     (dev_open (replicate 1024 0) [False, False, True]) = (Ret result, d')"
  by (rule cleanup_never_undefined) (simp_all add: default_opts_def bails_on_fault)

lemma uninstall_mode_device:
  assumes "sound d" "uninstall_mode be opts files d = (r, d')"
  shows "length (dv_disk d') = length (dv_disk d)"
proof (cases "io_uninstall_file opts")
  case None
  with assms show ?thesis by (simp add: uninstall_mode_def)
next
  case (Some name)
  obtain q d1 where q: "load_uninstall_data be (files name) d = (q, d1)" by fastforce
  note load = load_uninstall_data_device [OF q]
  obtain p d2 where p: "uninstall d1 = (p, d2)" by fastforce
  have "d' = d1 \<or> d' = d2"
    using assms(2) Some q p by (cases q; cases p) (auto simp: uninstall_mode_def split: bool.splits)
  with load assms(1) uninstall_sound [OF _ p] show ?thesis by (auto simp: same_device_def)
qed

lemma device_outcome:
  assumes len: "length disk < 2 ^ 63"
    and run: "install_on_device be img rnd opts files (dev_open disk faults) = (r, d')"
  shows "length (dv_disk d') = length disk \<and>
    (\<forall>status bytes. r = Ret (status, Some bytes) \<longrightarrow> io_uninstall_file opts \<noteq> None)"
proof -
  obtain ok d where init: "device_init (dev_open disk faults) = (ok, d)" by fastforce
  have disk: "dv_disk d = disk" using init_frame [OF init [unfolded device_init_def]] by (simp add: dev_open_def)
  have free: "snd (pbind free_uninstall_data (\<lambda>_. pret x) d2) = d2" for x :: "int \<times> u8 list option" and d2
    by (simp add: pbind_def free_uninstall_data_def pret_def)
  show ?thesis
  proof (cases "ok \<and> \<not> io_uninstall_mode opts")
    case True
    with init have init: "device_init (dev_open disk faults) = (True, d)" by simp
    obtain q d1 where q: "install_body be img rnd opts d = (q, d1)" by fastforce
    from True have mode: "\<not> io_uninstall_mode opts" by simp
    from run q have "q = Undefined \<Longrightarrow> r = Undefined" unfolding install_on_device_eq [OF init mode] by simp
    with installation_defined [OF mode len init q run] show ?thesis by (cases "q = Undefined") auto
  next
    case False
    obtain q d1 where q: "uninstall_mode be opts files d = (q, d1)" by fastforce
    have "(\<forall>status bytes. r \<noteq> Ret (status, Some bytes)) \<and> (d' = d \<or> ok \<and> d' = d1)"
      using run init False q
      by (cases ok; cases q) (auto simp: install_on_device_def pbind_def pret_def free_uninstall_data_def split: if_splits)
    with disk init_sound [of "dev_open disk faults" d] init len uninstall_mode_device [OF _ q] show ?thesis
      by (auto simp: dev_open_def)
  qed
qed

text \<open>C13: Whatever errors occur and however the command ends, undefined behaviour included, \<open>bios-install\<close>
  creates, removes and resizes no file other than the undo file: the device keeps its size.
\<close>

theorem file_sizes_kept:
  assumes sizes: "\<forall>bytes \<in> ran files. length bytes < 2 ^ 63"
    and run: "bios_install be img rnd faults argv files = (r, files')" and name: "undo_file files argv \<noteq> Some name"
  shows "map_option length (files' name) = map_option length (files name)"
proof (cases "\<exists>opts dev. 2 \<le> length argv \<and> parse_install_args (\<lambda>name. files name \<noteq> None) (tl argv) default_opts = Inr opts \<and>
    io_device opts = Some dev")
  case False
  with run have "files' = files" by (auto simp: bios_install_def not_less split: if_splits sum.splits option.splits)
  then show ?thesis by simp
next
  case True
  then obtain opts dev where args: "2 \<le> length argv"
    "parse_install_args (\<lambda>name. files name \<noteq> None) (tl argv) default_opts = Inr opts" "io_device opts = Some dev" by blast
  from parse_device [OF args(2,3)] obtain disk where disk: "files dev = Some disk" by (auto simp: default_opts_def)
  with sizes have len: "length disk < 2 ^ 63" by (auto simp: ran_def)
  obtain q d where q: "install_on_device be img rnd opts files (dev_open disk faults) = (q, d)" by fastforce
  note device = device_outcome [OF len q]
  moreover have "io_uninstall_file opts \<noteq> Some name" using name args(2) by (simp add: undo_file_def)
  ultimately show ?thesis
    using run q disk unfolding bios_install_on_device [OF args]
    by (auto split: outcome.splits prod.splits option.splits)
qed

theorem file_sizes_kept_witness:
  "\<exists>r files'. bios_install False (replicate 1536 7) (\<lambda>_. 0) [False, False, True] [''bios-install'', ''sda'']
     [''sda'' \<mapsto> replicate 1024 0] = (r, files') \<and> map_option length (files' ''sda'') = Some 1024"
proof -
  let ?files = "[''sda'' \<mapsto> replicate 1024 0] :: string \<rightharpoonup> u8 list" and ?argv = "[''bios-install'', ''sda'']"
  obtain r files' where run: "bios_install False (replicate 1536 7) (\<lambda>_. 0) [False, False, True] ?argv ?files = (r, files')"
    by fastforce
  have "undo_file ?files ?argv \<noteq> Some ''sda''" by (simp add: undo_file_def default_opts_def UNINSTALL_FILE_OPT_def)
  moreover have "\<forall>bytes \<in> ran ?files. length bytes < 2 ^ 63" by (auto simp: ran_def split: if_splits)
  ultimately have "map_option length (files' ''sda'') = map_option length (?files ''sda'')"
    using file_sizes_kept [OF _ run] by blast
  with run show ?thesis by simp
qed

end
