(* ===== verification/Limine_Image.thy ===== *)
theory Limine_Image
  imports Limine_Run
begin

text \<open>
  The boot image that the host tool installs (\<open>binary_limine_hdd_bin_data\<close> in \<open>limine-bios-hdd.h\<close>):
  each line of the source, 16 bytes, is one hexadecimal number whose digits are those of its bytes in
  their order. The image is the argument \<open>bootloader_img\<close> of the installation.
\<close>

section \<open>The bytes\<close>

definition row :: "nat \<Rightarrow> u8 list" where
  "row n = rev (le_bytes 16 n)"

definition hdd_rows_0 :: "nat list" where
  "hdd_rows_0 = [
     0xeb3c904c494d494e4520200002000000,
     0x00000000000000001200020000000000,
     0x00000000000000000000004c494d494e,
     0x4520202020200000000000000000fafc,
     0xea457c000031f68ede8ec68ed6bc007c,
     0xfb80fa800f82100180fa8f0f870801b4,
     0x41bbaa55cd130f82fc0081fb55aa0f85,
     0xf30068007007bfa87d668b05668b6d04,
     0x31db6631c98b4dfce855000f82d50066,
     0x8b4508668b6d0c01cb8b4dfee841000f,
     0x82c0000f01164d7dfa0f20c00fbae800,
     0x0f22c0ea797d08000000000000000000,
     0x00000000000000000000000000000000,
     0x00000000000000000000000000000000,
     0x60be0080c7041000c744020100895c04,
     0x8c4406525666506655b448be1080c704,
     0x1e00cd1372458b6c1889c866c1e91089,
     0xca31c9f7f585d20f95c101c1665a6658,
     0x5e66f7f56689440866c7440c00000000,
     0x5ab442f8cd137213016c046631db66ff,
     0x44080f90c366015c0ce2e661c317004b,
     0x7d0000ffff0000009bcf00ffff000000,
     0x93cf00464646464681c6304f6800b807,
     0x2689360000fbf4ebfdb8100000008ed8,
     0x8ec08ee08ee88ed081e2ff0000006a00,
     0x5268323e000068000b0700e860820600,
     0x00000000000000000000000000000000,
     0x00000000000000000000000000000000,
     0x00000000000000000000000000000000,
     0x00000000000000000000000000000000,
     0x00000000000000000000000000000000,
     0x000000000000000000000000000055aa,
     0xfc30c0bfff0a0700b9ff0a070081e9ff,
     0x0a0700f3aae90000000057560fb67424,
     0x148b7c2418ff742410ff7424106800f0,
     0x0000e81400000083c40cbc00f0000031,
     0xed57566a006800f00000c3555357568b,
     0x54241cb8fdffffff83fa120f82a20000,
     0x008b4c241880391f0f85950000008079,
     0x018b0f858b000000807902080f858100,
     0x00000fb6590383fb1f77788d710af6c3,
     0x04740e0fb73e8d6af439fd72668d743e,
     0x02f6c308750489f7eb1389f529cd39d5,
     0x73518d7e0145803e0089fe75f180fb10,
     0x730489fdeb1389fe29ce39d673358d6f,
     0x0146803f0089ef75f183e30201eb01d1,
     0x29d983f9087c1c83c1f85153ff74241c,
     0xe81300000083c40c31c985c00f94c18d,
     0x4449fd5e5f5b5dc35553575681ec3806,
     0x00008b84244c0600008b8c2450060000,
     0x8d542430894ae4038c2454060000894a,
     0xe831c9894aec894af0894af48942fc89,
     0x42f88b54242085d27e0a8b44241c8944,
     0x2404eb4a8b7424148b4424188b4c241c,
     0x894c240489d139c6741e8d5601895424,
     0x140fb636d3e68b7c240409f7897c2404,
     0x897c241c89d6eb08c744242401000000,
     0x8d51088954242083f9f989d17cc88b6c,
     0x2404d1ed896c241c8d4aff894c242083,
     0xf90177418b4424148b74241883c2f78d,
     0x4a0839f074168d7801897c24140fb618,
     0xd3e309dd896c241c89f8eb08c7442424,
     0x0100000083c2108954242083f9fa89ca,
     0x7ccd83c10889ee83e603c1ed02896c24,
     0x1c8d51fe89542420b8fdffffffff24b5,
     0x280a07008b4c24148b54241829ca83fa,
     0x040f8c480500000fb7190fb751026631,
     0xda6683faff0f853405000083c104894c,
     0x241485db741d8b4c24148b54242c8d71,
     0x018d7a014b897424148a09897c242c88,
     0x0a75e331c08944241c89442420e9d800,
     0x0000b8e0ffffff66c7440450000083c0,
     0x0275f4c744243e1800980066c7442442,
     0x7000b8e8ffffff8d881801000066898c,
     0x44800000004075ef31c0668984448000,
     0x0000403d9000000075f0b8f8ffffff8d,
     0x882001000066898c44b00100004075ef,
     0xb890ffffff8d880001000066898c4490,
     0x0200004075efc78424900200001d0100,
     0x00b8e0ffffff66c78404b40200000000,
     0x83c00275f166c784249e020000200031,
     0xc066898444b40200004083f82075f2c7,
     0x8424f40400001d0000008d4c24148d54,
     0x24308d84249402000050e89204000083,
     0xc40485c00f8525040000f6442404010f,
     0x84edfdffffe9fd03000083fa04774589,
     0xc88b4c24148b74241883c0f68d500839,
     0xf174188d7901897c24140fb61989d1d3,
     0xe309dd896c241c89f9eb08c744242401,
     0x00000083c0108944242083fafd89d07c,
     0xcb83c20889eec1ee058974241c8d5afb,
     0x895c242083fb0477478b4c24148b4424,
     0x1889042483c2f38d5a083b0c2474188d,
     0x4101894424140fb63989d9d3e709fe89,
     0x74241c89c1eb08c74424240100000083,
     0xc2108954242083fbfd89da7cca83c308,
     0x89f0c1e8058904248944241c8d43fb89,
     0x44242083f8037751897424088b7c2414,
     0x8b74241883c3f38d430839f7741e8d57,
     0x01895424140fb63f89c1d3e78b0c2409,
     0xf9890c24894c241c89d7eb08c7442424,
     0x0100000083c310895c242083f8fc89c3,
     0x7cc583c0088b74240883e51f8b1424c1,
     0xea048954241c83c0fc8944242083fd1d,
     0xc7442410fdffffff0f87dd02000083e6,
     0x1f83fe1d0f87d102000081c501010000,
     0x896c240c46897424088324240fb9edff,
     0xffffc6840c0b050000004175f5830424,
     0x038b5c24148b74241831ed83f8027f36,
     0x89df39f774188d5f01895c24140fb63f,
     0x89c1d3e709fa8954241c89dfeb08c744,
     0x2424010000008d4808894c242083f8fb,
     0x89c87cceeb0289c189d0c1e803894424,
     0x1c83c1fd894c242080e2070fb6bdec0a,
     0x070088943cf80400003b2c248d6d0189,
     0xc289c875968d4c24308d9424f8040000,
     0x6a13e80804000083c40485c00f851502,
     0x000083bc2490020000ff0f840b020000,
     0x8b5c240c8b4424088d341831ff8d4c24,
     0x148d542430e8820300003b8424900200,
     0x000f8fe40100006683f8120f84b40000,
     0x0083f811746183f8100f85f000000085,
     0xff0f84c40100008b6c242083fd020f8d,
     0x1a0100008b5c24148b4424188b54241c,
     0x89e939c374168d6b01896c24140fb61b,
     0xd3e309da8954241c89ebeb08c7442424,
     0x010000008d6908896c242083f9fa89e9,
     0x7cd0e9db0000008b5c242083fb030f8d,
     0x900000008b6c24148b5424188b44241c,
     0x89d939d574178d5d01895c24140fb66d,
     0x00d3e509e88944241c89ddeb08c74424,
     0x24010000008d5908895c242083f9fb89,
     0xd97ccfeb538b5c242083fb077d628b6c,
     0x24148b5424188b44241c89d939d57417,
     0x8d5d01895c24140fb66d00d3e509e889,
     0x44241c89ddeb08c7442424010000008d,
     0x5908895c242083f9ff89d97ccfeb2531,
     0xc941eb638b44241c89c183e107c1e803,
     0x8944241c83c3fd895c242083c103eb1a,
     0x8b44241c89c183e17fc1e8078944241c,
     0x83c3f9895c242083c10b31c0eb258b54,
     0x241c8d8424f80400008a4407ff89d183,
     0xe103c1ea028954241c83c5fe896c2420,
     0x83c1038b5c240c89f229fa39d1776c88,
     0x843cf8040000474975f539f70f825bfe,
     0xffff80bc24f805000000744f8d4c2430,
     0x8d9424f804000053e82202000083c404,
     0x85c075338d941cf80400008d8c249402,
     0x0000ff742408e80402000083c40485c0,
     0x751de9d3fbffff31c0837c2424000f94]"

definition hdd_rows_1 :: "nat list" where
  "hdd_rows_1 = [
     0xc08d4440fdeb08894424108b44241081,
     0xc4380600005e5f5b5dc35553575689ce,
     0x8b590c39d37d2d8b0e8b460439c17413,
     0x8d7901893e0fb62989d9d3e5096e0889,
     0xf9eb07c746100100000083c308895e0c,
     0x39d37cd88b7e0831c04889d1d3e0f7d0,
     0x21f8d3ef897e0829d3895e0c5e5f5b5d,
     0xc35553575683ec0889d589cfe81b0100,
     0x00837f1000740db8fdffffff83c4085e,
     0x5f5b5dc3892c243dff00000077108b4f,
     0x188d51018957188801e9cf0000003d00,
     0x0100000f84dc0000003b85600200007f,
     0xc63d1d01000077bf8b4c241c83b96002,
     0x0000ff74b20fb78c0054080700894c24,
     0x0405fffeffff31f6b9ff0000100fa3c1,
     0x72100fb690380a070089f9e81affffff,
     0x89c689f98b5c241c89dae88d0000003b,
     0x83600200000f8f6cffffff89c183f81d,
     0x0f8761ffffff0fb7ac09b00a070031c0,
     0x83f904720e0fb691920a070089f9e8d7,
     0xfeffff01e88b4f1889ca2b571439d00f,
     0x8f32ffffff0374240485f67e18f7d831,
     0xc98b57188d2c0a8a1c28881c0a4139ce,
     0x75ef8b4f1801f1894f188b2c2489f989,
     0xeae816000000837f10000f8407ffffff,
     0xe9f2feffff31c0e9f0feffff55535756,
     0x5089d589cb31d242e86dfeffff89c70f,
     0xb7450231f639c7892c24722183c50431,
     0xf601c629c789d931d242e84bfeffff8d,
     0x3c780fb7450083c50239c77de401fe8b,
     0x04240fb744702083c4045e5f5b5dc355,
     0x53575683ec248b7c2438b8e0ffffff66,
     0xc7440120000083c00275f4c781600200,
     0x00ffffffff85ff741b31c0803c020074,
     0x0e8981600200000fb6340266ff047140,
     0x39c775e731ff31db43bde0ffffffb8fd,
     0xffffff0fb774292029f3727201db6689,
     0x7c2c2401f783c50275e983ff020f9344,
     0x240385db0f95c3845c2403755183ff01,
     0x7507668379020175458b5c243885db74,
     0x2531c00fb6340285f674160fb75c7404,
     0x8d6b0166896c740466894459208b5c24,
     0x384039c375dd31c083ff01751166c741,
     0x0202008b9160020000426689512283c4,
     0x245e5f5b5dc300001402070072020700,
     0x5a0307006f0707000000000000000000,
     0x01010101020202020303030304040404,
     0x05050505007f03000400050006000700,
     0x080009000a000b000d000f0011001300,
     0x17001b001f0023002b0033003b004300,
     0x5300630073008300a300c300e3000201,
     0x00000000000001010202030304040505,
     0x06060707080809090a0a0b0b0c0c0d0d,
     0x01000200030004000500070009000d00,
     0x1100190021003100410061008100c100,
     0x0101810101020103010401060108010c,
     0x01100118012001300140016010111200,
     0x080709060a050b040c030d020e010f90,
     0x1f8b0800000000000203857c0d5c1357,
     0xb6f80c040d189da86841b1c68a5dd95a,
     0x25d55a53b5e52b80d6682012dab59452,
     0x210d5485c28c1f552c3864cb653a7ddd,
     0x7ebcd7b7bbdd6db7edbeee76fbb4bb4f,
     0xc5d68f04dc00ea2aa84ff1e3296d593b,
     0x18de36880b8896fccfb99320b4bbefef,
     0xcf2473ef3df7dc73cf3d9ff7dee14ea2,
     0xfbc8dc0735cc01a556c35477e163efef,
     0x3976ca277e86b93e1bbe62987a03c330,
     0xafb5bfe67eade335e5b5d6ae557a8639,
     0x11fa9743fe6a17bbc790738e26735f20,
     0xbcc93c00c08c6cee23c706ef1c647630,
     0xcc11fc3ac084314cef871c1b53a2756e,
     0x03b4c7ebf52370720677fc10779fdb51,
     0xff0eb49530d6e346f7ddd6db258c93d9,
     0x71fc1146b1b0889d0930adaf68541a38,
     0x76c620927a12beb4ccf791729ffb1940,
     0x7bfd3ab48ec278d3f75d201c51d5a5c5,
     0x6b7e23f6308c9416affde0a6faa0fb60,
     0x001e3836e20efd19afb9813f3374f063,
     0xb3e7e65c5fdaf38f06a333b89ed34387,
     0x6a5dec20f7fb7b163ba4fb077ab8df71,
     0xef8f9de978d791e7c8773ce3f889e329,
     0xc73ac793d8e6efb9fd1766f02eeccd1e,
     0xc7f37261fc5c87d561736439b21d7647,
     0xae23c7f1cb7bc770ef711fab3d163b38,
     0x76ea1dfa73afe6060cac6371e0933d31,
     0x8c03d6ea2e4d79f9cfac6b7c7df43fe6,
     0xfff8a77224f4ef97f31d8131936ebc3b,
     0x3f307fea0d690a0a0199321558d01481,
     0xcfd3e0495a1baf698a987443ed00fc5a,
     0xd24bf995447f6664f606f9f5c28d7fce,
     0x2fd78def2d8d77ccea5ec63b261bbfec,
     0xbd8cc33475d20d7e3e32e3bfd844f75f,
     0xa622fbf82e233cfd26bbb7f67e7b6f3d,
     0x13f697a91f6bf828eca9a9829ecf0e52,
     0x1e2de9a53c4aeae50c8d55c781498dd7,
     0x7b6f0093be00265d7aadf1b5af5ff3bd,
     0x76069924d179113ac7aae53028c3f0d3,
     0x030f031d4ce0e16cfa8d95ca118561c4,
     0xa3ba46a3bbf1ffe61dfe53f503a449f3,
     0x017393611a813d9a9b943d3afa3323fa,
     0xa6ca1e79437cf4f5d77aff398b3eee55,
     0x452ad4743bb05913d8ac0d6c6602f732,
     0x37c5a36306e7e3743537f1e75eddcdbb,
     0xd3fdaaf7fbd39d130830cc08c1f8e772,
     0x009a6dcb05ddd649e668a9522fe5e8a4,
     0x3cad24c4b84ef33f7605f824979b7f81,
     0x3be416fd33b943c7c49e9909cde28081,
     0xdbf57be8eaeae363c8bdc4aef14d04a8,
     0x6d508c24f736a56b10adf192f174571b,
     0xe8b1cbcdd5d423f025aee62ada8ccc80,
     0xab9973dd54fb8f9dd50618566bb883cd,
     0x67ae9333be63f29a80eb14e792d4e671,
     0xb32e9009418c6280e56a5e068cdcc153,
     0xa4f58cc27d7a8634746d820ad26e3cdd,
     0xdf4fda8ca75d7da491abf909d685ba75,
     0xadc29237a9c9dc4db10c18f8d5c4ecdf,
     0x3b93f8e7fe99b4d7769de92066859c23,
     0xe725b3bfd673e65ba8b9463c677c9157,
     0xba7e8bfd7538e4a1a6910c70cfba8b4d,
     0x2822e79acc7e942963c0f712f19056a0,
     0xa68734bafab89a81a14000f8d3348652,
     0x721d4adca166c0c11d6a007c091ef1d6,
     0x4c4edc0bd57232dbd746aec0c88242ce,
     0xc3f0df028d30c3e038be1950241e4e24,
     0x50e8bb300a10f97045ca538c2d528e5f,
     0x3277931c3ff7613fcb7d78053e8d2cc9,
     0xeb66dd91cd64b0ff34e9e96f93f2f4ec,
     0x05c9123df11869f374cdf40cce246766,
     0xe745cfced1279c83feb157a5bcee95c2,
     0x17d893754b39280611e421f29246ec18,
     0x8af4908be4386907dd78267f5d5e23f1,
     0x0229edc8bf6e02d455793a90160f2ce4,
     0xb92e3f4c2a285a9d0362778c64d6c1a8,
     0xe4a4e76f33c93118d5d8b63047cfde10,
     0xdb606db0ae9ff0f11a781c9a69f48300,
     0x1a7bd9db622b23ef88d7e666655b6d4a,
     0xce77818078345a06f32d5935c61b0b13,
     0xc3a183789a217eb9e82625e7ae240bd1,
     0xdc21b3fec0e368add23cc069d16de00e,
     0x9d136fcc8445496b25ad528e969ce10e,
     0x9de6d2daa0526c3048828e3b74125606,
     0x018e910662e94e38666c11071f3f426d,
     0xde2bbf866f612cb9d0f5161ac8b6210f,
     0xb9ca7dda0fbc2637ce5ceff31838f3e0,
     0x010a696efbecf11f5bfcdc4757ce7c0d,
     0xf5e40267ee05f9c0b62f5480e3fdade1,
     0xc031b362bcc47d38c8aa8b75921d27f8,
     0xd996c80b303269eb6f23b7fbcf48663d,
     0xdb086a39d1438e7b7c333db76692e6d9]"

definition hdd_rows_2 :: "nat list" where
  "hdd_rows_2 = [
     0xe6e8d9167dc229c9d21ddb10302bc241,
     0xec2beb9e000ec222879626c40bd067e0,
     0x85455faff202654f04620f5d147b67ba,
     0x60fa17a0513b5c4fb93024f6532edc22,
     0x17126e89b71edf1c2599b5e446d77fa0,
     0x84bba1e2733a8d9a7f4346e4f9c971e0,
     0x45a522556ac900f7e95d7634dc65c7dc,
     0x0bdc474367be816a091863ee6f32778e,
     0x60c76d52d9dddf166e01761068feb001,
     0xb8e167617e2a533a4732a5119852a967,
     0x6f4b95d1136f0d33e5d4ec4aca946640,
     0x1f3b982cd48b47f5a3b8b044aa0401d4,
     0x4a49d1dceea6e56c150c2b2279c01c49,
     0xd0bf8fd190cb2d4c7532d042ce282546,
     0xf8b9281ed57c802d725ea7a3295ccf38,
     0xc8f630e2f174691ce489316207e720a9,
     0x1a52a125369d5c79b024be84c9553e49,
     0xa38ea329239e4901ec30224332624061,
     0x3a742423dae383aef96372734b262b1b,
     0xfa519c7587c3509f33b4ac301b14c4d8,
     0x0766749a648901f1e476af8cce0a3c8c,
     0x045895c754bcc42f1e5d4227e61c9fc1,
     0x42fca46c9e1132e0d5dd0cd8a97a016c,
     0x5e1d23cbf706c0f01cf35cd790b7b7c2,
     0xa3f8e50422f3f0205b9ac931f12b1dc9,
     0xa98299107907d6c9cb2834ad7663b5e5,
     0x28b7cf4dcc6f19dd495f54e13237195b,
     0x7009c04e5676e254e5437da0dfb9cae7,
     0xa9ea845dd30003930990ef4e8027c985,
     0x833a88ebce10167060e28ac2aa261752,
     0x762f4399f07c1f65429f6b08c058ce35,
     0x00dce0f6cb064ab086347b943062ee70,
     0x8887689ff23c6ebfeb5178e2f6bfbd04,
     0x317a1d91e7f84c6eff69e29d75ae7a08,
     0x3d1e6f72b85ab8b7cd7e4f8786dbc7eb,
     0xc33dd7b4d543cc7b80f72df365c9d2c1,
     0xed6b39cc52b13b492c1d7596cb512072,
     0x353f0f43e35d52a6f08fe07cc00e91bc,
     0xcb24866cd593ad8bc8d644c9351f6725,
     0x3f84c3a62f21ab9735a5c7c173c07849,
     0x5a4ea527204453e951e62f50313451d9,
     0x693237eb615dc8804781b5873107a8e0,
     0x984f90bcb324afb524de26e7bd63532a,
     0x5254369a0fa2dc10c12f8d21e63d92b9,
     0x8a98ff20b976505e9a7f5532d726bb70,
     0xa9acca836a07c97c96b8ca9034732b71,
     0x6da00fa0042788eca42c2f846f4a96d1,
     0x6dcd55c6ab9d6c36607df74d95f5e6f7,
     0x80ef952c86ef00265179abdaf1588011,
     0x22d6087dc093b9c121299dfb92d56129,
     0x62491dc4dc4c2c27243a3831b74a941c,
     0x623e4b8775c2923076e5ade4bb03578c,
     0x1c58c362ca00805405a5bccbe081aa76,
     0x6803012162058cde623ac5659c222ba3,
     0x614d6b2e01aa12d6d8929565cd26e794,
     0x5977a83f70b9a5ca4ecee581c6ea9dd1,
     0xaa66bf121e9a098403fda18579fbc151,
     0x0b436735626d5c2948b7ba3cae245c5a,
     0x377165522ea6c17749bc5536bf63555a,
     0x92e8545c7db0562c083f581c89a56be5,
     0xc6b5321fc585e2c7075e8cb6e72aafa8,
     0xc0d8d10a53dfda3b3c75c102debab253,
     0x12ba61c63e1bce1c4a6605ac5e6af56d,
     0x74161002c10cbbf6509548d3477dc682,
     0xbc7e6c50bd912b0bbca15b0121e9e84a,
     0x87474052fd5234049620e61e156fed4a,
     0x908e0e6269d7367fcc0a3325f35b26af,
     0x105d52964dbcca370bd13829e2512de9,
     0xf1fd4b3a012a2ced352d124414609e9b,
     0x488a56a452cd08312aef9e9a87336d87,
     0x61424691dbe7a9ea61419bd8931088b0,
     0x4d60178cb060c94677261045ccedd2b2,
     0xbd55492c23a550938b58b857d04211a1,
     0x96586a1c21fe3bc8a1c7e081ae7fd0b8,
     0xcab81223d6a18feca5ebb017d7813312,
     0xf3abfd1749ceebd40ca1502e7e7ca4f2,
     0x40100746f77b0b4225ef56cf5df63fc9,
     0x1e426ce2db88996187c4a1a4f2ffe48c,
     0x92f06a3f8452af8b9718d63bf10cd80b,
     0xd34902d36e8f6de552ce909c762e05cd,
     0x8664a9e1524e49426dba3814a94a2de7,
     0x1a07987cb3b87de64392e00f2cb63af7,
     0x25b38c7268364cf9060c7b408bfe06ac,
     0xca4a0d6915dd69d95610e28dd390746d,
     0x8d9bd778d393d8f707d0dde85c18b77a,
     0x3ac2b2ac81876f428d52f5109de10758,
     0x90c653a02c964cc107b2a816ccd6a187,
     0x82b25dc2d8adcabfc5a96297192ede0a,
     0xe376fde63b6462ba3810e097fdb311ee,
     0xfd3f4658560b3c0d24c5c13839a171ec,
     0x01c16f55e6ab03118fe8094f176fb15b,
     0x7ed1f5300c567d14177a949f3a39f56e,
     0xa2a1558e2f65981a480bf6a02c1b494e,
     0x37f11adddc6f8251923830854618e585,
     0xc18afa291879b470bf214d904cbce586,
     0x4ce2ad066d031885b7dcda560a2b2ce1,
     0x761f0f829b4e6df93169a61981e7f3a4,
     0x140e22c4feaf8a856e7c64cf953059c0,
     0xa2b6bfa32ce831a8cee95614a047f96c,
     0x3e7cc9cbe0eb9301b4a3badfc1540242,
     0x2caca8d6aa1c9b4567ee8b7596c3b276,
     0x7d46e9648589caf38ba1c71af8fa6019,
     0x30cb17f1fe323598887226a402602da6,
     0x9a5bc733901979945d18c92f255e2929,
     0x0620fac59d71811df38c81351007ee4b,
     0xd7d920d7b32ab366a906c6cd035f152b,
     0x839c12c666a42edd19b7f342d5f224aa,
     0x96e39dc569205ccfaa44552d5f82b5fc,
     0x34e5fe7741e3ccdd1f74e3329afd1f28,
     0xb8b63d10b8396b53e83aa44f09ad0339,
     0x553723199abd11f8cd3a279b59264b39,
     0x11450512a87bd4c9430d78f8e19ab9ce,
     0xf752b0e6e3e19aa9ce2b14e65f43355c,
     0xcd4f315af0d6065123b5ac941427ad36,
     0x7c1ebf3c9c3136441e1332e429866718,
     0x26a155bcc01c31ac8661ad254c76ae5d,
     0xd18f43343176a581e2d394443b0f8669,
     0x18e75b9930d7579786f832dd791b46f5,
     0x4538f70139cad3060a6b745379f34620,
     0x2bd83daccfafd2e0bb06d315bb174144,
     0x255b4e287a24cf6374bb5a8470709ee2,
     0xd145a120b1ba3b134c2d3949261addb2,
     0xfc07587bab1337b3acd6ac6ce5ab684a,
     0x99ecfa0aea4bc29dd380fb56e5437d88,
     0xa465b26b68644bdd70cb7db26b37b644,
     0x3877a5604bd9708bd618c8e8da0e8a52,
     0xf7ee0180e0f61daf1f407317c878f49d,
     0x55a035bc3649f87b174d652144d92fef,
     0x47a0fd6d14c8b1b4360d41c689ee30ae,
     0x6631c0f8ba21383af41dbade764f4784,
     0x9c16864e989cff7752d9da0f8f97a1f9,
     0x0834c3aa8d915c2728ae439fd39ff3a0,
     0x025068c0d680f4762b22a9ec24391d5c,
     0xda60dda18394368051b8dd83e195e0af,
     0x2eb3830998e20afee5373986d9120989,
     0xb60e257bc2f29be0efb7e8a18c7c0eaa,
     0xa36f1294313bde037ed28f3ec9dc2941,
     0xbe90d3ed20ab75b5cf4c7010bbbe76e7,
     0x24c9d58c23a7474b799de49918496ec7,
     0xe2ea78628f93cced0e923e97db7d9b3d,
     0x4f76ce83a0cb7c160968adaaf433243d,
     0x91d7cb797f80a87c9aa74b0f3fd1be30,
     0x70483b0dc6800c81560fb9986b554eb3,
     0x4111ada7e60216ff0449878ca5fa282e,
     0xfb8864a1babb86c5c400c4e51de54b34,
     0x9d9740ae5d2eacb4e84059ab7698d805,
     0xf2cb2cdf27997f693c0d73c24d8068c9,
     0x7c507e5b8d7a53a67914a023255ad698,
     0x8c7d5fdcc6ac7fdfab311148c2ad057c,
     0x94ab85cf5f9d2af87c5b2121bf906595]"

definition hdd_rows_3 :: "nat list" where
  "hdd_rows_3 = [
     0x5d150062454b94b3848a87b76606a262,
     0x8006e053b05dce3b6153a242f3107212,
     0xfa334a0c36792f42da95e96a4f7203a8,
     0xf4fdb4ff8a7d18ed3925f048d0098dc0,
     0x1b426a3e6155f63241a4fc58e3a5ae9f,
     0x63a095a814cf536d7d6349a692a73e8b,
     0x957e832cbc73603c4d097a3fe2f6e75c,
     0x23d645c2646ebfa5c3f3a53ef218e6c3,
     0xd645a4c917419ae059b22810fc70fbcb,
     0x74729a31004bd647329691354b20ce72,
     0xa7d1c9811779375c1d2823896cd737a5,
     0x465f873936a5c670e3c096652c21a971,
     0x4da9283e984e61c6d55e7db486fdde92,
     0x25a2969c23c7b97dc913b8fddb74dcee,
     0x01d97514e6e744a69780de4d7c2418b7,
     0x41b2c99770fbedd3c4ed1a8310c9ed4f,
     0x8ff674e8231b6410cc0b5645af1283a6,
     0xec6db4074d92d041844e6eb7d06d57ec,
     0x0fa8945e2083c64b36bbcd068b6f552e,
     0xd22e20009db2c6858442a8edfa31e5a8,
     0x2f9ddb9f3a97eae3d800f54854fc8997,
     0xdbdd6f57c6aae8b8fd3620d8368fdbff,
     0xc45ccf9711c6406e566e36620e2c548a,
     0xa9b98811870c15138c7daba53c88d4fc,
     0x5d3e2a8c7e70d172f204d06d631f3440,
     0x744284b39e6b11751a233ad74600624f,
     0x8a953aa66ef53830cc50acbac5712e8c,
     0xa33f4ee26354d618543e5915ffc39441,
     0x7563e26772fb9ae5e81572dacf7a9787,
     0xe3ded72b606e1939fa6790fec9af4620,
     0xb8fcd614fcf9e236a60195ed7569f951,
     0xb569d3065285bf1b4f4b9597eb34b9b5,
     0x69132352c4c131422f81727a1c48426d,
     0xcdf853d0a92efd5e786a8527570b90cd,
     0xb9be41178f03551da4c80d82567407ca,
     0x7b20949465acf0a66959a66a399a73a6,
     0x7ee56496f9bc0abe38734340d065055a,
     0x839e27154de9ea717d1e2de7c23d9a7a,
     0x70f1d035e2ac21491800775e078e947f,
     0xa6c9ac0477270319cbe6f346f1b6967b,
     0xc323de1ec73f1b6551fa3c2cff2477d8,
     0x6d555a23e9dad4a6cd6849c5ce9a2519,
     0xe087ffe29bd1675658e0bdf09c5afb05,
     0x8675189b2bd0fc69c938d9dc62b52b75,
     0x51412bafee92048d1e5d3c9fb6ea9616,
     0x7ef9159270361d8486dbdde8512220c6,
     0x141b0ca2f9b2c1e4e57625c2ac7d11d0,
     0xc17711569ddb9dd761cb528c7355990a,
     0x872ae2af3e9a18d282129d72706e2800,
     0x1c07d10db7880e5f3f0e838f1d6391a3,
     0x5e10402653e841255a62ecebda8b4ec9,
     0x00619c56f972218586ca77718fcd6b08,
     0xd6b7a8f5beb6e1bd2462e996b681ab15,
     0x03ba03df729844378b01fde16f03f8e8,
     0x8f3c29060c5f7c0bc68e335f1107c3ca,
     0x379a2e6e299621c4d2436a10000f02d9,
     0x8d8c1af33135621ad0fe0cd1ab41508d,
     0xe9e2e62fedcadf7fa44ec303d9096880,
     0x2b20e7f9f9999001583a0198447f0618,
     0x6c4a3115ff4e004c37f50bd7e89448f3,
     0x883d1fdc78c9d44b594901212e20c440,
     0x6e1e10f4202cca026ae8a229901da1ca,
     0xf4527a1a04c2d6c0e624a5f57ecae092,
     0x4cbbf267f5f199bb5b48069273161cb1,
     0x648e1e678ee16afe87a12ac8ed4fd671,
     0xfb564ce0764316dc6e6c017f907319a8,
     0x0db7e8402426e7e8c1a843ee2d09edf6,
     0xec2c659d2f18757690335265f40390a8,
     0x5962a65b2e73bbaf8088f45f632f4a79,
     0x4a4223c95320888b6d25e6ee842b7493,
     0x2cb6d1d44f9a6321fdb8c0a5f483f783,
     0xcc44d2d58a9e214c3df6a5c0f81e634b,
     0x788a016499db9f0de6e458ff576c5bb8,
     0x59990c4b96a38594901db4d92173c650,
     0x3e11c656381d7ab9cb948f316c8f24c4,
     0x4cbc68ba455a63fddc2edc5d118f1a46,
     0x9858ab54a9959235b8797ebf38a017d2,
     0x203b1ecbed7f11467a314e8eb65b4bc2,
     0xacd9b901a3524f63b838df8b9433bb93,
     0xe364cdebc6d3d9259a6c2b36ffbb1ae2,
     0x553d1fcef99e401cb270c381bbe3215c,
     0xe43c39d3e663cfb0bd88d206cd76e8f6,
     0x9cda8ddb3f86e6887302207c64b0af81,
     0xe5cc1ec9a2252cc84288dabcaea83eba,
     0xf56c7487a897f27436e5d763835b3ba2,
     0x37ccae4873820a53b574013fc63b7601,
     0x1948b259953b1174dda53c6dd5f6f110,
     0xdee73a7f06e1be4d497f40d585fb726d,
     0xca836121173c014a5eba9187be731cd9,
     0xaa2565eaf6abd1edeba7322668ab1e63,
     0x85a9553b5946b827b0392eb059af38e3,
     0x55451e6b0fd8638088c0661d84fe4a96,
     0x5a5d926857d2e347881fc869d51256b8,
     0x47b2e8c333418c63b250941f48a414e5,
     0x35e6059e8da6b3b55aa11e1537824ab9,
     0x7ee486b859070b28564633dcdb8df7e5,
     0xe9ab1e67855c698bbeea6596e58dc696,
     0xcf91a1e1b971d2cb8689a7aabf62fc81,
     0x405656099b65cdcdceb22b2b6720be78,
     0xa0c39bc4b2a0333597b89a19e8721fce,
     0xc4ad9488550fd29316a68bba8b7dc7b3,
     0x9c0cf82d6b604b9cb296ce444fbc3597,
     0xf8e9d26352bae6038426cb33d534e9a1,
     0xc3f8e00b23fd4637703d50610854c459,
     0xadb9b6802d1a561c7e90431018389ac2,
     0x5996ee413b19c0ae1c9bad2e20849420,
     0xdf3f8993520ce442a487af085a787a70,
     0xa2678c7d09bd106dc60e1cc092e93897,
     0x7a01acb2f9422e30067258d0076dc08a,
     0x2385d3b99081c9743636cc6fed811c68,
     0xd1a39d78324e4a32402866ba18db44ce,
     0x515cf2b22882e1b0b6fc5d4a11f4505e,
     0xbb8fae1b9d136ed6ea4645297191b803,
     0x0071bf2c5ccc2d89c875e27695dda6d4,
     0x68a9747bd32318e787492c6357de090f,
     0x2554ae3741dac0c05fba2f345dd22ecd,
     0xb022f32ef1e34de14107b34ee7fbb644,
     0xafec0d4235a24d0c3f4c77fe02b94edc,
     0x18cab5cbf225508c2cab12ad8ec7ed73,
     0x6105a4b1fcd4e501baa55f0683557b11,
     0x1c10f8bc92ab1aa49ba4425aba2e8839,
     0x5523c9dba0d2f3e53850eb4085363bcb,
     0x8a32e7a6da15f33e5246527584922855,
     0x82e4f949cc1a90331a32f74b10c099bb,
     0xa5755a4c0614d975091c5d06b76f0dc4,
     0x027c1406c711b5da24dfff7af164a113,
     0x4f0c69dc0d8e1342b07d935da7b99a8f,
     0x30f6143ab87da906e211bf64131ae4b5,
     0x51e06e343b1e922b66b15eb187657baa,
     0xb685b3fc98aa6d6161425c9569b51055,
     0xb58db570353fc349ee7b312ce106db23,
     0x0e86bf0c061bf4f67e6edfda71b3c4c1,
     0xf9fc587170297f8f6f6cd58e71f72de5,
     0x27d4be351e19946c6a162e138fb78696,
     0x1895e86166ce0e1bce7d5fa5e8c32162,
     0x4cf0fa62ab8758dc8fdb8547c8e0aeaf,
     0x3190b8cd09009b583c19743d0836968a,
     0x3312247a6f7335a550533d845b279c88,
     0x47d3a227c29e25d335b22acbe6051383,
     0x872911c16848a585736d0a8ca0681d60,
     0xe82ac6c8ac224c5a1755f57280e1f330,
     0x6c11260484ce80d0ad7c3393d26c535c,
     0x6af2ecb936ced892650b6a4e961d9688,
     0x2eaa8f5ac398aeb53048890e05fc53b5,
     0x277873c89c509ea980e3229769c8935a,
     0xe285c421d11034ada44cdf9414fde924,
     0x08e79362aec08f041957465c53c67038,
     0x9fa1f1ed73ee4da75b139fc07c9c3c3c,
     0xfb6ea0d1b344a3de59f5529894adf17c,
     0x352e3c472fb631aa43cfca464b97a83c]"

definition hdd_rows_4 :: "nat list" where
  "hdd_rows_4 = [
     0xa1d217b2924062995e8952490c558aee,
     0x0e71209f7b437506e02ce4ac5fcbc91d,
     0xe2e0342ed513aa23cdfded5ca65ab441,
     0x0205fdea628da7c16645d5c6e9eb9e9e,
     0xc8a6f86e7821ab5d170c1d0024475b17,
     0x56376b498730c9d8970ea1654c9de6a1,
     0xba7863fa920ebec7d8b2a4837bd723a7,
     0x45067c6146f77018a1a2e60e33f2d623,
     0xe0884e1ac4c034eef0442ed54fce8ba7,
     0x0cf2ca23e22da06bd034242c56b12ea3,
     0xf09a44e8c91d8e36ca994748134052b0,
     0x01802767c4e36ae962bae92aff1718b9,
     0x75e4c877ed0fb80f5032039eef0bda15,
     0x908db9ebe21e7b34ee5161224cf31ed3,
     0x2dd04fe17f7d13c0734571efbab97d6e,
     0x398d098c0a0104bdab8f4f5b6d0c509a,
     0x744bc0ab004d4be4e423e43852310054,
     0x5c90538ea0916a159b0d902e424d83a9,
     0x51986c74d7b4f031a6211cc4e3e36090,
     0x7146f7923618084719e1bd21e887f5a8,
     0xdac1b28c9cc40a7d779d9816c83e7207,
     0xb7e2a33088b42b1f31ea6184c56f3ac9,
     0x3f5e6562b8b71a45d086b79b6aae0a0b,
     0x0ea34533790fd3f0e95cf9cce4dab4e5,
     0xfe0c725270cbe6ee120dfa4ae59bb96a,
     0xe4eb8698da9d890e3748451d8a845bd1,
     0x001758b7ac49ea6f679a430ddc610f39,
     0x56d5f0ebaac1882d11a2fb77be7bb178,
     0x24586cf171559e56d1dd6a3cbdb2ea56,
     0x144c7fc40c204f33eb41703c03338147,
     0xc616eef034d2aef9f532ecd9f83b5f0c,
     0x148ea88516df3828b42e8bdc325f6c6c,
     0x156f07f8fb096e554a95fafe6fb8dda7,
     0xd836c848fd6c0fb9e8199cc9b64f6c03,
     0xdf9442bcbe4f614dc0a485113d801f1b,
     0x312314804a5c796e1f8776762a50e26a,
     0x11ee013e6ae9c9bab66b0ed80def9805,
     0xf233accf08d53df480456b571c43f800,
     0x4e85edf5c566d48d5db6809f0829229e,
     0xc97400736bc333527d5d197b16543dbe,
     0x80ffba24ccb93603f7045fa158690a84,
     0x3bb425e1ce75b4bef46efd6fd4fa5c5a,
     0x9f1baae7b797689cf9b42e75b8ee7980,
     0x7b95ee352e18ae5b0463dd9b8675d3ef,
     0xe27c1a2d616ac0e4e76ab2e1b16ac902,
     0xae66052682e10bba72e037b56a7b6081,
     0xbc2e2040bc61eae5de727b35e16091c5,
     0xa6b0aefbfe5133dba8624b6bc416cedc,
     0xe81db1f5803aa1abcbd3ca6688e96f7a,
     0x237ad026bfb784eea11b1e0317ddc2bd,
     0xd56068a81a6405bd52f70a3bb24dbc15,
     0x7ee07c0ae4b29990b87269c73e66e12b,
     0x4b9169a4ab090837edcacfe9b3d6390b,
     0xf77a79b5010ce58f27d127d0da65a19d,
     0xdf85f59301e6c0d524cc93ff10a7a1a9,
     0x5996d306a895a52a16e5270d7808f653,
     0x6a6b37958631ce78e0a7324345abfcb2,
     0x7df8ba46776230fce56a3c34d38ad9c3,
     0x8eb3c471359fd0925eaa88e676576870,
     0x3f87087e90b321f62424779373a24b18,
     0x2bc969cf26c259bb527a45cd753ce49c,
     0xb8ddc042a8244c9552e71a9bc931e989,
     0x79c69e480f69e36abe44e768e90ceef0,
     0x88dbe31929351adcbb3099db9daab12a,
     0x9db1c1b0231eea255b22c939213db188,
     0x589ae53d01f56ed10abf672892f47b02,
     0x3373ed59d9cac0ff8486cdb9dc7f8d98,
     0x5b414f2eb3e7f0447bf72d7648b29c78,
     0xc0d22a999b63fdc6bec866cef5dfe889,
     0xb66ba42734525e07b7fb0224e4fd5f62,
     0x1ea60d371f9d9c733937db1aa888b729,
     0x7fbc1a3c6ee4a743c0c4d5bc8be43605,
     0xc473e0092341d864dce93c00f3606962,
     0xd8499e988b3b4715f3248811cd31e418,
     0xf124dc922ae3a6572aa455caf3f77fcd,
     0xedee65cf493967131a24737bac3fe18c,
     0x6aaabca60b6400923048f32abb21df03,
     0x856607c0248667c5dbb2adcaa2784cdb,
     0x149076f62a1039f18624f89756c690d6,
     0xe9e638581b6ed706d0d63d2cda7ef168,
     0xa27a06f3fb24bae82bbfbbbbc44fcb95,
     0xef943c8d57160666ab36b0e54f2c781c,
     0x4923e3de336459b7669630254f430680,
     0x86f22baa6078a7f37c322adcef6f8594,
     0x506f74f735b23449253dfc03bec3d595,
     0xef4188c308f74ae6cb78cb26053c5e3b,
     0x49d14ae656c972164fbfc242e43d3dea,
     0x8e461a1827b912b2c1b1b83d632b616d,
     0x4e3ca9cfb52b85eae8dcbeb11fbfccb9,
     0x78a8a4ad27d5d6f450abf90636e7b0c3,
     0xddafa8007346032c0af5ff9bda3c6674,
     0xf314da9f9ed611bf2cfcd196652bd1d8,
     0xadca556a0e63eab1c1ea3c998c61fac0,
     0x7dc3db3c5770c709b3209bd556124ef7,
     0x4f3e0df6d0d01eb3d3b087f76e8f3fd0,
     0x6da8faf0609fc5b4cfb6609f70da671a,
     0xedf346a80fbfc3a636d84ab229f413ff,
     0x00ba70187a35608f1845d1f4207c0485,
     0xc70309bbb26818fe5e5b4998cdb904c8,
     0xcd45e0bfdda6c08eeaca1bb66f216dc4,
     0x6b5f69a1155377048c7db9ca72d53b40,
     0xa832cde896859b56f0adce7a60a23d57,
     0xf94445212dc65c085cfcdd54281a7714,
     0x5d1d18573e8ddbb3e5b3829ef84facb4,
     0xcc454570c8334445d09eab02528ffdd4,
     0xed9182186c50a6f787c4714a4818ebe9,
     0x258f9a523c1af9b4fa90426f8780a175,
     0xe561de7a1b8f42208cd12f7525e2a1b2,
     0x781166fd7915bdc2a7de86c9cecd52fe,
     0xc710bced30176176fb09681cb85ff686,
     0x24cfa335a7c815cfb5b1ac77621b64df,
     0xf5d8dd9a650fde9700cf60577e3f48c9,
     0x95cd078d2d24534732b5245343b4b2bc,
     0x0ae318bd354bd96b18168808a0411a43,
     0xb733204d26c91a0c9793b575e9bada64,
     0x5d2a794a2fa54793e46849a63eeed7d4,
     0xfe05b81557c9554f20d2737b26390926,
     0x0522592470efb378622e7473bbfbd1c8,
     0x801a2692f245e49c7a7323a159bdbb31,
     0xddd22dba5908ab612adcee76e879913d,
     0x86f75bec1076ea483a107e19447fcfdf,
     0x6824809bca2f86d39b0324dd0a8692a4,
     0xaf92e8a51ab23a93a4a7ed61bbd642f3,
     0x9121642dcefebe3b41d1e06a5ec27e95,
     0x7a31a0e15e7d16322639ff4e06a93c4b,
     0xe3f334626e878422af950c783a3411a8,
     0xf4908d94e8b3ac303c042245b7420a0a,
     0x913cc7478a03119cebefb88ce613e056,
     0xe45c969ee91c88c5cba587f040bff713,
     0x690ca1cb808ca4b7089097f42207b293,
     0xdeeb8021df5e455ba289cb8aec3aa4de,
     0xa4e90cdda45108bdb9e4ba440e6da517,
     0x10d6c2379f47373307b80ffd91a4c7f3,
     0x656475cb497ac680cb1914c8d02d1d3c,
     0x485613ed4ed412203e028817b4d25e94,
     0x4763e0ee7420dc659e107e0776b16f14,
     0xeac3ff0cb555455d75083133f5017ae9,
     0x062f4e723527d1035130122ed1c963d6,
     0x4e270fa97c1d9d7c6d2abd3b94aa97d4,
     0xa9a74687efc5494fa63c08a7f489e719,
     0x529148b62f925cdd788d35754953ea32,
     0x9ab9b9d6d23e3136106cabf2b3eea078,
     0xf0f7e2eda39c766af38f529b7f50b2b8,
     0x47d8fcdad4249bf22485d780b6de133c,
     0x2224a91ba07d1294502d7dfa6035c23b,
     0xbda96b19902629af957ad213c8ae9aff,
     0xa6c7ef1c5773021e3250aae8e126d5ea,
     0xae09281a7745e912e99185cbb612bdcd,
     0x6acf5262fa55beedd480757893fa6a9d,
     0xc482eb2163a4640d49d748c95a92aead]"

definition hdd_rows_5 :: "nat list" where
  "hdd_rows_5 = [
     0x4bd6d5a6eb32c84ebd941c8d67922015,
     0xcf2c22e9892815cf2ca377c062d4b500,
     0x05f9175f8803f74bea9d21d00f95e1a0,
     0x22aa20ca7421a8a2fc89ad7d26c9ae58,
     0x692f88a3801313493ab2402755fa7d59,
     0xc6c01adf2a987cbad39bbe96f125e323,
     0xc01b46c08f55e1c34250acacca729804,
     0xcc4e7f92ac7e5a4a81793c2ba5801a17,
     0x62b21e1d3a2d10970fd098b1809a716a,
     0xc5a5f1f4de87e6b3aaad9073c5814a96,
     0xe873ad4a6c5cd0360db7f30f556d5dcb,
     0x0ab1a2fb490ad13f7d1404af4f5ffa30,
     0x622fff13e454638cee46e883669f5e3b,
     0x01b297ff60cce8cfaa5e72b2c2f4dc40,
     0xf906e57d7f702f35886e22ed976ef296,
     0x9f1f8d4fbda202e9ecc2606a93a35723,
     0x716939c53ad654a615a2963ca913224c,
     0x563daf159b342b84ae603a8c6842fdef,
     0xa5d97c8e56a2d760a4312604f602f04d,
     0x9ab503280080add3cab8a17f27cb1adc,
     0x5cd58dbc5b4a6fcccb825fbde50d6add,
     0x18c6ed4b1d429b7e1d778706e6f071d5,
     0x81213c2b8faa7de50e0c04b6cfefa54f,
     0x4caaef0c00832978eee525e240f6ce5c,
     0x71c0c6d53c8e272403395ccd3df4e149,
     0xce558d52dd2f976b217c9c446e05ca34,
     0xca1ca0a52b123d69e6ebe22ded969440,
     0xbc5c88aef3bc3409664c7a20e86311e6,
     0x238a6436bf4a1c48e35c8ffc10d35360,
     0x9ebb8e50a55acfd55451f042ce351e21,
     0x83c85a3169edb12af311742d66026162,
     0x8306efee9815ab92e25773448fe8c179,
     0xbf66c79ec7e4b2c00a3cbab12890d007,
     0x666358ec173a5c7dfc43f5b8e15c1dc0,
     0x6f4950f819a4ad6eaa9cc1d6fe1bf244,
     0xec62cbc7a5ab1c234dc25f713fa109f8,
     0x1be418a4ba5d753f9cc386e031f20d32,
     0xd4f502d21725a7683149c5d756a46c0d,
     0x6e1eaea45ea3f3f0ddd1f9b89575acbc,
     0x8555d745bc0e23270747ee879121bfe9,
     0x879141fda959515bb857ba00a54acde3,
     0x195d1798203370c1f18d813a6d0d0cfb,
     0x67784a5207516f3ad5fe0b5dfa3a6d52,
     0x4d8b70ad0bb3df912bf5073c6e1e8419,
     0x747dca8446daa2ab0bbb2b313084af1c,
     0x9859c782a5294f46ba72ba83d3c80e82,
     0xd5b1c9356ee1ba2fe38f730f0ce286a2,
     0xdabc4ae56c46ddcf6241409205c5f7f8,
     0x6773eb47004c0a51578b004900107184,
     0x9eb20c0baa2f561dd0f7edf71a480358,
     0xadaeb1607bab96d30c5858a8e6a5acb0,
     0x505c1ef7181a9b59c6bef763e029d789,
     0x5d028bf6282f4c0a433d02838110e55f,
     0xba02c20b5d2d0c8d696af03aa7b14fce,
     0x3b5832b784b1296befa13ac71dfe295d,
     0xa48128e1474de68ef11320b605bbae18,
     0x8ed1f00f2f04da94b92a6c7d14b4fa22,
     0xc6331370c53b28dc400b85c343c3ff30,
     0xf68568b485a85e59b5fc06ad49e6f605,
     0x079ace27e068134ac62bbe8d54bcf644,
     0xf9a6d203e25ff94271efa43a0acded83,
     0xda3fab5038c4af4377b54386220ebc8c,
     0xd18d77a8c199e089f065087c486ba49f,
     0x7f8a9c2716c8a451c56e181b8c4d094d,
     0xb10d5f4c4201c9e906f71f959dabcc3c,
     0x154c6c598fbc88905b093d552d89b5ab,
     0x66b43f71201277ba6ed1ebf610d191a6,
     0xf216b152cb6c9d96ea8b93d8e5548e52,
     0x652b4b267aab90d044df426fda8cf607,
     0x258bbf0e7e6106b3e59c7679c764569a,
     0x583da84a835cce1263ed2e04af1b8b27,
     0xdf9d12abf6c6d3bd51d332100c307162,
     0x2366653eeb352b904045b6f24fc3d4e4,
     0xcaaed04cec4acec9bb33d111d29b70bc,
     0xea78626dfed01a75223d340f9e2e7413,
     0x6ff9317abd7639a529814ea1f61d4ad3,
     0xcc8c9a4bc25f7d5342f39b30727e2348,
     0x358c5e01e473f70fa8a5a40e00a9eb65,
     0x731739476e8b5f7375d25be92c536be9,
     0xadcd1c226ddc8783719ebf6932bfe090,
     0xc2dbf4126eec29c076a3bc6d7fe2e734,
     0xe2adecaecbeb951ea91ea2d4e6caab59,
     0xc2d51ea6d47e8e1b3129c257d23dbeb4,
     0x3f26d67fa7824b404a083c5bdec91213,
     0x54d6fe2bedf1facf52510baf4a63bfc7,
     0x757a52e7a50bc3d45ce2af4af70497ec,
     0xbfe59538e0cf69f79824df57d4c4fadc,
     0xc39bb75a579f1046fee644cccafd34a6,
     0xd61c690d03af978eb1d8f3d2e2e06ed2,
     0x818f33f176c52969a2a9a1e231308110,
     0x429d2357d14eddae5a16cbc8eb58a15f,
     0x8a8e3535947fc3de220d0937b2b3acce,
     0x8f805dca291a95822ff653ccbe0956e7,
     0xaf70b8fd03aa63ef13de70ce44c0dfaa,
     0x152356a76a79bb85655835b6037f5add,
     0x488df4d77816f97e2734490f77c037e9,
     0x612f9006f13473849ee79da2521fdb56,
     0xfe1c5e0ccf2a61e9c96316847ace2430,
     0x2b4e2b7c29efd2bb1cf35404356e7255,
     0x48a218abbd082cb622d25b1429b93d1a,
     0x2da15d3e40e08a5f39e7ab071561dd78,
     0x292cd766570ed29d381dbb1ca1c42908,
     0xc6d8460c6c6182af6da8fb30afe3b5c5,
     0xc3b88b6c36d459e2b97d3973b97d2d60,
     0x37e819daa89b0a90808fc073991ed8cd,
     0xbb2bc84fd2b7a9b41246b7663ffa1d9a,
     0x54258369392143006b6e06eba9d92cee,
     0xf0e859ce558e21c2328f6469267ebc46,
     0x21b492caa3a2c272bbce5213534fccff,
     0x25dd236dd11050f30c2ddb8ad7b73374,
     0xe4fc443f28b2943c204d641b70f3f9a9,
     0x3b529666e24592a39806c8c5e9399ddc,
     0x9be6af0904f942bbc94ff2dce4a29477,
     0x36f622f746c37d395f570db2a4f2b230,
     0xd304925ea94cafec942a2f974f340958,
     0x8abd0a056e170b2e1b9bc124360100f7,
     0xa6b7e63467ce737366e1200092a6d8ab,
     0x80abe61c84ff39979100545a45aa3c8a,
     0x3d3234e08cc83d09e7621bc9162dc9d7,
     0x192f4942ab0453c9a9173d312b39572c,
     0xea5986565aa3230d91c7786b55a59ee1,
     0x8b96e3a29363e245a6fc31e911c891ab,
     0xbd340cc98560460119f802256ed69570,
     0x73f764fa4ad223097ec04b7235200e6b,
     0x7407686b33c9d0faa6032f654db66439,
     0x212ff21cc0d8aff723805c4972fcab61,
     0x71d2970a7e6ed7664ca42afd10021ca6,
     0x194dddf83458d15a4bb7ac4b024324ee,
     0x38a66785e7e465c7faccddacb04ae2a4,
     0x7c0dd571d3317ab139f662f92352ae56,
     0xdaa203ead863137bab075914da4b4cb9,
     0xb1ba058909b728b80bb9464bb6e89a32,
     0xe8417cd3589ca3b4463b6e8d8e8fc24b,
     0x47f7e1d74cf85a616aae8826c765dd0a,
     0xbce2b8e858906e7221d37829092cb5a9,
     0x99db5540b35f3f1ec408538cee2410b1,
     0x2e107d66382dcb2496b32023b2669dac,
     0xf110dce7f39bce90bc4e72a16219ee08,
     0x244a5b35200918ef35e38d403074e388,
     0x45916c1a530f698bbd85ef76a50ce2d5,
     0x951441e1529a93c4c6185383705ed650,
     0xaae21a2855b2f997a4895ce9fd889670,
     0xf3e5f28812f102d56d525e67aa683e1b,
     0x2399db4d8d9cab047746b2128155a818,
     0x48a0b4d6a3af1e447640ee3dc80a2fca,
     0x3a8f296bae50206569a517759209c48a,
     0x3d8f627d63e1b6988559719183821904,
     0x2b3ccb30f9c57892a5252feae427c270,
     0x866d15b3495bc2057ae94691350df256,
     0x85a8fc536911dd312b84eb4fa05e9adb]"

definition hdd_rows_6 :: "nat list" where
  "hdd_rows_6 = [
     0x7de3f045048bd6170ebfa9c0c14ca06f,
     0x979372168fac88563cfaa46a16be55af,
     0x667ff20ddd9ec52b2360c6ee2abf96ee,
     0xa2e8dec71a32c61b41cd643d368db89d,
     0xa413971f2dc56dff9a37e8f6497d3394,
     0xa419b48f45a9be8d3799b91adca89075,
     0xff43dfdc7f6b05a250c93f8f13905ed2,
     0x485152b9165fe8f04be5ba8943e24b68,
     0x3df058e8f30980db214de28e9ce6f65f,
     0xf47cad0196be17087c8eef3273968ba6,
     0x0be255a63c5f1d4f8ea60348af66e300,
     0x4730bc349da21e73fac1ecb518eb2dae,
     0xaef4b3b024a41fba8135e0761da714d1,
     0x0e20d420d5ec4aad98ad0b34a5a8f21c,
     0x8656f9804a442477a48ddb7fccf3e568,
     0x22505df480cd6f1a5415e746b9331814,
     0xc5f654e4ddeddcc2ed6ff37ca5a9be85,
     0x9d0fa89ddb82a4abbc41793db8e249a8,
     0x78a0d28f5efad5154f4321b60704054c,
     0xcec16c6cc217575fcdc67adf18b5772a,
     0xa13f30a10c1085a57441c82d6ed776dc,
     0xebe93b826d5fe00cedb9366521dd1854,
     0xad49fd37ef689859cd6cf3011453bbbd,
     0x84b567d9adf62c00fb9a5e2e98873d58,
     0xb587bafe4ce86a89b353dddbdff4572a,
     0x3c78643e9e8eaba512400524e8597923,
     0x485e049a9639382abeab733a2b3b3b3b,
     0x2bdb9a3ddadd6c0c0bba1beab100bbfe,
     0xafa19303294fafde25725de217d523bd,
     0x258cd56a533632c16b3eae003f4faad4,
     0x996e73a9576d80d6aeec1a87db3178fd,
     0xe8a80e72f83e8088b2e62aebe91d336d,
     0xd03702f6616cb8f93c63c415a61266d8,
     0x27fef06a530c1e48417a9ea6c5fd2f7c,
     0xf17a38901842291c4f55a03973eb4b09,
     0x68ad57c88bfe9c89abf7182b3c2ba5fb,
     0x25fb4d69e7009830b6497ae6cec43355,
     0x95d18cc0b92eed1c670cb84e7f819bc8,
     0x2f2f2179f8da23c802585d4a8c2d9758,
     0x3af0baf6f446d0674b07500411fb1929,
     0xa77369e565d23edd8c2ead327a85e855,
     0x5c2d2fbfe9fc6d2a6563cbd78140c260,
     0x6c3bbeed02ecb75ab3f026973ddb963b,
     0x82f97e3ac37948083f992c4762c98c55,
     0xa849f8e89b1010fc786c93acde302d61,
     0x4674bda26e839301f168cc8888c375f7,
     0x041dc4c3a2339e26560dc1cb00dba51c,
     0xbdd810da6e0bbdd2fe282b58a514bff4,
     0xd2cdc354798367e843d24f06ca17902b,
     0xac77f24b77aa87508151ebef83602fc1,
     0x3b1e9516e229d46ac11f9ed7cd3692bc,
     0x6e9f9685af70360f5257b08d1fd1f1fd,
     0x24937a6e7d30fe6bd00cbf19142de541,
     0x921453b731b1ce324fca81c029b29d7b,
     0xcb6de8d27aa4474965077d838073b981,
     0x9c70418f2fc0b74f3647137337c89443,
     0xcac11b6a7299de759ad798a60a6ba4d5,
     0x7ee9999be096a4f401b659b2df9908e1,
     0x89de745cca8b2617a65b3ab9373c26b3,
     0x1e962d2f8e7bf3cf4bcdcaf49c6eee0d,
     0xb756d1365755ce6304cdc72c3fe36316,
     0xa801d4fc6ad11bb346f8a0ce3c7711ab,
     0x55f89535ffcb2f922b3b70e7b0870c06,
     0x04836d387e5316abd74c4bf0786985fa,
     0x8eab3416384f58dfd820b3c12b0084ba,
     0x4a73d3a878fcfecb1147b098a9805fd5,
     0x93b670f02740f195c910058da5d11ea9,
     0x6ce66a3ea6efd275134b27b8babc0e74,
     0x7596cbe0dca489d2531ae9452d114ee0,
     0xb167bbb44d07d1dec4ab78dd26a7d5d4,
     0x402e006363db60f244386b82802fa73b,
     0x7610a22ced311e5c4fe752e12cbe597e,
     0x0b223b9f6469357930ced341640620e0,
     0xbcaf405e06ccd2fe77d4469fb012041e,
     0x029e8473785bb5315c383139efa86469,
     0x271349b28600054fe9baced097acfd2b,
     0xa5bc0ed3998ac9345cba1c0a97a4caf6,
     0xde8f9ee8da4b3da8643e6b3277aa63c3,
     0xc2786bfd48e720f72650a66de55f0213,
     0x62396bb20c434895ada67e95b8371a0c,
     0xc7f08cbd180f047a126e81858ac597f6,
     0xc84af5f8d1bf1cdd1f905051226b92a4,
     0x957a8c265735e803e0a181837c830623,
     0x155d83547936e114d9d100427a22b607,
     0x2074f872662ce9a147c6a370e6f8015d,
     0x2ac1b887db55892f395bfcd5b702f4cd,
     0x113d2cd7e60921cb7cf62ada5a3c023e,
     0x8541977099a49d441b0a3f1a5c13cd49,
     0xf2f4491d597b529b21999bc992d0a92d,
     0x1abe32a5935a7d8d37693cabde3c12bb,
     0xe7cac259dceab02bcbc7a82f3ea6c75b,
     0xedd4714c53a61ca0d2e6a8de19bfda2e,
     0x9473fbf16d200db75fb8c97a4bc63807,
     0xe9edc2e431c15d5be149001cc3846dce,
     0x95d2e772fbfd1e452776f80152e34ca5,
     0x8789f70c432ec38babf77c41a9a95aee,
     0xa7fb24e39d43f88ae3c5ebb4563c3a17,
     0x0212670754f9263b8f83c9f3e99c4b92,
     0xe99b5a97d4cca9f94a48c2abbb7720af,
     0x049dab8f7fd0ae845f0e1d09186417de,
     0x3eb6da15cde5e06630e75a8aa74787b0,
     0xdee734bae5bdf4edef31f8fe4ebac6d1,
     0x941e16ce10a05d437ac42f7547f0a06f,
     0xd64096b5e445e5c5cf55dddb3c8604e7,
     0x366b88f5562d7763a8244c73cec5634a,
     0xe73b9b30c5d2a8f7eb22b08d957646cb,
     0x7bc7e019dd43c8e8b39a601e078388d7,
     0x2670fbdd766b894e99a4a2c7b7f639d7,
     0x4efaa2ae4ba71ec4a8343a5fc31b2e80,
     0xe0cd20829d61327dcf188c845579fd42,
     0xd00352ac9c8a758e72f0c008ac73d115,
     0x9bfdad2589ca8581e0351cc9dc60ec23,
     0x1506921ab787ad0daf4d8d27dbe73a9a,
     0x52e799c1aa00de7d1755407c59bf5bde,
     0x1a96abfc2ad83555eb651648a9daa480,
     0xa05012ae85ab746dd7d5d7d1d3b3ad78,
     0xc664cf55be0a0fbe5fde4d32c21c4daf,
     0x602b630655729057f09aa3ecda35149c,
     0x464bbb3a0d7c8d5afc0699936b2d3128,
     0x7faf0f9dc9ce01b650bcceffc41b279f,
     0x2814be24d1a6e4ab77a7bb5258ca3b0d,
     0xe59d6255ae7f1b9c4177a0224ee9e80f,
     0x52af9752e3c6a51ad43f23037680348b,
     0x1d1cbe7fde8c8b0f99aff90abd1e2e76,
     0x4c085a592006af80ec8724e52c1e31b6,
     0x3799f1a09e713499bf421bdcecc0f732,
     0xcc27e0e75a40680d8066dda72c0d51ce,
     0xb9f6e140a97a32c40e70fb2d5f81bbee,
     0xb62a9f85a9bb91fb73be62cf3996e628,
     0xdc9b9e288b1f88ebf3b0d213065e43fa,
     0x7d89a1a3ad7e9357bdc20f7ea7bd2236,
     0xdb3903df5afced3774e6d0073afc9145,
     0x43d2444f316321ffcac52cc67cc5d144,
     0x5f565427c4ed6fb16695cc527eb53f48,
     0x9cb0982e62b732ad4fe5ff157c2764c7,
     0xf08bb7375595cbb91408d89db8a75bc2,
     0x2a99507096a166fe156d49fd5025c6c4,
     0x5a1868d12487a487b21eca897b5887e9,
     0x86706fb059df7fda41f40e89f95c6d9e,
     0xe430b5726fbb3fa7ad242a9884a061fa,
     0x13ab7c04a4d700e3f03a8c2cb4aa76ea,
     0x6d3664a7d8786aa7a6281bff8b4e4311,
     0x28bc50d059f8719830b8e7d36b85c1a7,
     0x56fac4f2839dcf124fb0ae2dd45ad512,
     0x469aaf3d1bacfecf50b5f22315dbe4ce,
     0x37a03826fe8e2eecda1bca24942a7a7b,
     0x61ee3323f6029364f30924cfaaf431c1,
     0xf75f8e30209a72de7fe15ff351301e52,
     0x626858d4694db6d848de657c57ce0ac4,
     0xeff953f045f2b3acf010f19341f948f3]"

definition hdd_rows_7 :: "nat list" where
  "hdd_rows_7 = [
     0x2ba15c0a3254b1b29be1a7126f3a443d,
     0xe4bcb0c7b92e598dff2ee01fad48270f,
     0x63842e1e4d1af1ba0a0d6fa3038b5cb5,
     0xb0524e5685ff7780afafc294b1b62693,
     0x0566bfcab4d66a98a61ae634fc006daf,
     0xd1f71d5f65ce4151746b84f3808c6367,
     0xec05c9cb6b3c31ea9f3d17ffde196992,
     0xf878bdb42a3ebaf7c3fc671a73a5b5f1,
     0x5a721e5ba04edffb7bd29adff87d4853,
     0xff164def873e9dbc830bc8fc84c077bd,
     0x1fde81be00b603ba85d0fd961f579711,
     0xf8717a803becc66349801835fe1d23ee,
     0x445a6156f89efcebaf87caac82af47de,
     0x2d8729be51e570e5d2a8b246393eaa1c,
     0xa17c31aa3c46f9645479acf20bb5fc24,
     0x2d6a95576971b83d52d93eb23d4ad910,
     0x6c57cbe394a7479575caaa51e5f1cab2,
     0x51e509cabcd1f83965fa287af4cab891,
     0xe34d54ee7c370a7e92e2fb6e24fc64e5,
     0xd2a872b4727c54798af2c5a8f254e593,
     0x51e57b945f8c2ac728d2a872acb27d54,
     0x799af2c2a8f27465dda8729cf2c4a8f2,
     0x0c65e97723e673af326ff47c66d2cb99,
     0x78f586c1208cc17c1eaf50e10bc2a85d,
     0x78ef2f114fcae0939a969868649279be,
     0x6863195f5468d85cba41d858945f5e54,
     0x503837c150bac950b6b588596d59c1d8,
     0x8ad60be5c5fc3666cde6a272c786d22d,
     0xccc6a24d026329da585abecdb0b1a0cc,
     0x50b4d55920540092f98cf549f36afb03,
     0xcc9c0aa85c5f54c61703a202de3067eb,
     0x7c83b9bcbcb4dcb0beb4b0e8512803da,
     0xe7010f6fd854ca1bcaca8b2ae0998121,
     0x0d304805f6e24b4b0da51b0a99159b36,
     0x176c282e3494966157662d546f2cd8b4,
     0xcd605ef250a2013a95171755cc62524b,
     0x850d851457d1a682e736141992a17543,
     0xf1a622c6b6c292c6302930af17ca4a8b,
     0x61908ca24d45e5051b60d052be683da5,
     0xd051206ce099b4e28a170c45944aa437,
     0xadbc787311529a6f4ecdcc4fb7e533e6,
     0xf415066b72f65a9ca5a17853055fb061,
     0x430145b0de59b4fe054053bca1a81067,
     0xf1a8c126ac5f5f5451e110366cd806b0,
     0xc57c31cce2a5a2c2288677f065d05e54,
     0x0e333514571860e685c59b9e37f0ce22,
     0x83031000b4a16223a086e6b282f52f14,
     0xf11586b9c53cc201230b0dcf6de38b2a,
     0x12e6190a4bb76cda505a5068d858fcbc,
     0x9337f0052f141936946e7abea87c7e14,
     0x939ebc76e1434c3a25085869a08040f0,
     0xf3458685f39905cf9596f20b36146f04,
     0x063df85c7169c5fc8a6d15ccf7ca860a,
     0xa01788595f5a5e0e7c02a4d3d72d346e,
     0xb426af5e910a4f8f2c356e9cbe2e71e3,
     0xa306261918bfe941a182327ee308b980,
     0xd5d98653045e151716190a0c41980a95,
     0xeff3472c5b61115f548ee31b90364321,
     0x329fa163c100895b192b8848056078a1,
     0x681bcea7bc8817ca51480c732ae60759,
     0x9abaa1b4a2882e82505e04abb9b91805,
     0x093a2732361e18c99717ac2f7a348a31,
     0x18d6cd29cb8b6232816f217281dda5eb,
     0x0bf8d2f2470d6b04de50ea0836a8020d,
     0x9c2b17d6c388407af1f39b0ae813f245,
     0x40d561524a854d8586f202e03d15fba2,
     0x42a8b422af55c17afcf1c799a2c262c0,
     0x8eebc2cc5fc04431abd7a6db423a141c,
     0x5c95444afd7c66160ccca4156d2e5e5f,
     0x44f953b0195a9079c30ab1d66663a266,
     0xcd32d8d455556507411d48ce2c6cca2c,
     0x0009de562a00ad65c52008df5f61601f,
     0x4a5d39707c9e810a05fca840f30ca006,
     0x23e504f11516a32494a2ca218b4a61b5,
     0xe00751941594f3c538830a341d58a32e,
     0x239dc0e35151cc0fa44d5dd0d4b5d9ab,
     0x1e485eb5f68134f32a755db1df7c75c1,
     0x1eac08da08958dc91b80f7b44cd58db1,
     0x14ac77a2c0a8a5e0003f18673eb0fb07,
     0x7cae80a95460710bac942a3d7775a5b4,
     0xac6893cacd395b910bcf81eaa88a4855,
     0x6294f6fc7f95e839a118247c451a6829,
     0x2835bfde097a64066941bea13cce3780,
     0x126cda0cb302b2c02a6dfc87220154a6,
     0x950aa83a2a2bb62e7984b11797f30248,
     0x420505638a2b4a4d8b1727c244007c53,
     0xc1c622557f87e531d1f8d0c2450f2f7e,
     0x6489a9e0b9f585458ea01a1896cda978,
     0x604ed96351cc0adb1a15c1a652b08dc5,
     0x1b0b800cd529c03256ac2f2f2e43019e,
     0x8536fa1f2981cac56c701f7755b0e839,
     0xe179e6c974733633771318c284205048,
     0x825758372f32141416a2243c6ab86f4e,
     0xc57d0c755c1a705a7a364ca3d51b92aa,
     0xa8230307361ffee36701439794e99ecd,
     0x32e973d44f7ef0f75fe7dcadc3767c4d,
     0x7d2cc4782d9089bf0161de39f8fd16ea,
     0x56c17326e4dc6bd3f16d0096c9834f3c,
     0xd4a540caf42efc6ad2d4fa0268b7439d,
     0x033eaf427d5110fefff7f90bbe1af018,
     0xcbbc0e9ff7e0b3073e6ef8b4c2a7033e,
     0x7ef8308fb38c1e3e06f824c227093e56,
     0xf83c0b9f32f854c1e775f8bc079f3df0,
     0x71c3a7153e1df0f1e38d2518430f1f03,
     0x7c12e193041f2b7c9e854f197cd0f747,
     0xe3de1d5eda5b9dc3841bae15be7ddd15,
     0xbf72f1cebf5d8c9f62f3453ac3922076,
     0xad282bde249431d36e324c7ebe5058bc,
     0x7963696161f12246e8c30a5a58c874f6,
     0x855ab1e4efa7a5605bdf00c38036bd40,
     0x4387fc0a6a202a984bb782b5eba19a2f,
     0xca2fde5458b495112134a15e811917c6,
     0x32d41f2dcc47efc80c42d951c02f7c28,
     0xfff9223e1f2c5dd106667a78a80e41f2,
     0xd7976ee28bb6f2ccec8850356a2a736e,
     0xccc8228032cba258663d1887a2fcf51b,
     0x302e29cf5fef2c807afc5b172a2492ca,
     0xe0dfbc508bebd173302628d3398cee65,
     0xd27dafda515eba311ffc1bf30db4382a,
     0x4610ecbf5bf1bc505cc8f46399125931,
     0x1e9ed461eaf191127025f404dacefc7d,
     0x4401d95ec4ece0d89056ab33c597fb42,
     0x152a8211152af25e5a03ea0b818e6632,
     0xcbf0a542595951391303cf05cf55303f,
     0x9a8c6c2f5f5fb68d59197cdc58c65405,
     0x1f0b60f5a078472d6ec2e765d1c1e760,
     0xdb476a194c0cf3393c82ade3f3c1306c,
     0x621e98c2326058f2f9d27c1c3c0d8a85,
     0xc5cfc3b2052b764ca11d81a062e63b78,
     0x462601456060403aca0a782793750f48,
     0x6ec1a6e2f54c7c0ccb8c884799b1d300,
     0xbe8cbfcbd89f4fc369e6533392bff1b9,
     0x7266551ccbc02f8580f657e2105539ed,
     0xc144dd378c0d9b9fdba6e2d8f9836a47,
     0x85ba8c277fd0b2beb4b4bc909930fbfb,
     0xf568e6f3d558c5048d2adfb3114c7ddc,
     0xfe23ac04a164b2e7aa4f38fbe0e356e6,
     0x5642b04f7ec57080c2fce2c720bde012,
     0xf2c115e4533fc0d43d00b32bda0832a7,
     0x56e4d35883f14275d9c68df91505185f,
     0x5614e507c361e6b70b54feaa7d98f30b,
     0x70a18a87cb5f1bd5e6f2822da1aa01a3,
     0x8a0a24b088497e482d00efe9f0bf8632,
     0x28de0882eabf5f93cf6f2b2b8247700c,
     0xe00b5affcf6655baef2c8439e18ce892,
     0x6d729432ef2efa47b34485fe8f875582,
     0x36156dc957cdc7678fb01867c3026c2a,
     0xcc57d784391aaca3f6842c61a9b75135,
     0x47bf0cc4ff2150121a2a3c1d2ca9a902,
     0x13b93cc89e224829987f5f8eb463eec2]"

definition hdd_rows_8 :: "nat list" where
  "hdd_rows_8 = [
     0xd4871a8a0b79063712d9d01f73d67fef,
     0x6f3be3eb8fbf08febe192a9f0a964fa9,
     0x40bf30a8bf6f32ccff03bd6c031a205e]"

definition binary_limine_hdd_bin_data :: "u8 list" where
  "binary_limine_hdd_bin_data = concat (map row (hdd_rows_0 @ hdd_rows_1 @ hdd_rows_2 @ hdd_rows_3 @ hdd_rows_4 @ hdd_rows_5 @ hdd_rows_6 @ hdd_rows_7 @ hdd_rows_8)) @ [0x00, 0x00]"

section \<open>Its shape\<close>

lemma length_row [simp]: "length (row n) = 16"
  by (simp add: row_def)

lemma length_rows: "length (concat (map row xs)) = 16 * length xs"
  by (induction xs) simp_all

lemma slice_rows: "i < length xs \<Longrightarrow> slice_at (concat (map row xs) @ ys) (16 * i) 16 = row (xs ! i)"
proof (induction xs arbitrary: i)
  case (Cons x xs)
  then show ?case by (cases i) (simp_all add: slice_at_def)
qed simp

lemma length_hdd_rows:
  "length hdd_rows_0 = 150" "length hdd_rows_1 = 150" "length hdd_rows_2 = 150" "length hdd_rows_3 = 150"
  "length hdd_rows_4 = 150" "length hdd_rows_5 = 150" "length hdd_rows_6 = 150" "length hdd_rows_7 = 150"
  "length hdd_rows_8 = 3"
  by (simp_all add: hdd_rows_0_def hdd_rows_1_def hdd_rows_2_def hdd_rows_3_def hdd_rows_4_def hdd_rows_5_def
      hdd_rows_6_def hdd_rows_7_def hdd_rows_8_def)

lemma length_hdd: "length binary_limine_hdd_bin_data = 19250"
  by (simp add: binary_limine_hdd_bin_data_def length_rows length_hdd_rows del: map_append concat_append)

lemma hdd_image_ok: "image_ok binary_limine_hdd_bin_data"
  by (simp add: image_ok_def length_hdd)

lemma hdd_halves: "half_a binary_limine_hdd_bin_data = 9728" "half_b binary_limine_hdd_bin_data = 9216"
  by (simp_all add: half_a_def half_b_def length_hdd)

lemma hdd_signature: "slice_at binary_limine_hdd_bin_data 510 2 = [0x55, 0xaa]"
proof -
  let ?img = binary_limine_hdd_bin_data
  have "slice_at ?img (16 * 31) 16 = row (hdd_rows_0 ! 31)"
    unfolding binary_limine_hdd_bin_data_def by (subst slice_rows) (simp_all add: length_hdd_rows nth_append)
  moreover have "slice_at ?img 510 2 = slice_at (slice_at ?img 496 16) 14 2"
    by (simp add: slice_slice length_hdd)
  moreover have "hdd_rows_0 ! 31 = 0x55aa" by (simp add: hdd_rows_0_def)
  ultimately show ?thesis by (simp add: row_def le_bytes_numeral slice_at_def)
qed

section \<open>Properties\<close>

text \<open>C31: Installing the shipped image: on a disk without a GPT whose MBR passes the checks and that has at least 38
  sectors, \<open>bios_install\<close> with the image of the repository succeeds. The boot sector keeps the
  partition table and ends with the boot signature, says that 9728 bytes of stage 2 are at byte 512
  and 9216 at byte 10240, these 18738 bytes follow it, and nothing from byte 19250 on changes, so
  that no partition, which starts at sector 63 or later, is touched.\<close>

theorem shipped_image_installs:
  assumes "parse_install_args (\<lambda>n. files n \<noteq> None) (tl argv) default_opts = Inr opts"
    "io_device opts = Some name" "files name = Some disk"
    "\<not> io_force_mbr opts" "\<not> io_uninstall_mode opts" "io_uninstall_file opts \<noteq> Some name"
    "no_gpt disk" "38 * 512 \<le> length disk" "length disk < 2 ^ 63" "mbr_valid disk"
  shows "\<exists>files' r. bios_install be binary_limine_hdd_bin_data rnd [] argv files = (Ret EXIT_SUCCESS, files') \<and>
    files' name = Some r \<and> length r = length disk \<and>
    slice_at r 440 70 = slice_at (with_active disk) 440 70 \<and> slice_at r 510 2 = [0x55, 0xaa] \<and>
    slice_at r 420 20 = le_bytes 2 9728 @ le_bytes 2 9216 @ le_bytes 8 512 @ le_bytes 8 10240 \<and>
    slice_at r 512 18738 = drop 512 binary_limine_hdd_bin_data \<and> drop 19250 r = drop 19250 disk"
proof -
  let ?img = binary_limine_hdd_bin_data and ?v = "with_active disk"
  have size: "9 * 512 \<le> length disk" "length ?img \<le> whole disk"
    using assms(8) whole_sectors [OF assms(8)] by (simp_all add: length_hdd)
  obtain files' where run: "bios_install be ?img rnd [] argv files = (Ret EXIT_SUCCESS, files')"
    "files' name = Some (mbr_installed be ?img ?v)"
    using mbr_install_run [OF assms(1-6) hdd_image_ok assms(7) size(1) assms(9) size(2), of be rnd] assms(10) by auto
  have v: "length ?v = length disk" "drop 19250 ?v = drop 19250 disk"
    using assms(8) by (simp_all add: with_active_def drop_splice)
  have "length ?img \<le> length ?v" using assms(8) by (simp add: v(1) length_hdd)
  note layout = mbr_layout [OF hdd_image_ok this, of be, unfolded Let_def length_hdd hdd_halves]
  show ?thesis
    using run layout v hdd_signature by (intro exI [of _ files'] exI [of _ "mbr_installed be ?img ?v"]) simp
qed

theorem shipped_image_installs_witness:
  "\<exists>files'. bios_install False binary_limine_hdd_bin_data (\<lambda>_. 0) [] [''bios-install'', ''sda''] [''sda'' \<mapsto> replicate 32768 0] =
    (Ret EXIT_SUCCESS, files')"
proof -
  have disk: "no_gpt (replicate 32768 0)" "mbr_valid (replicate 32768 0)"
    by (simp_all add: no_gpt_def mbr_valid_def mbr_entries_def entry_status_ok_def entry_too_low_def no_signatures_def
        slice_replicate replicate_neq_Cons ECH_FS_def NTFS_def FAT_def FAT32_def GPT_SIGNATURE_def)
  show ?thesis
    using shipped_image_installs [of "[''sda'' \<mapsto> replicate 32768 0]" "[''bios-install'', ''sda'']"
        "default_opts\<lparr>io_device := Some ''sda''\<rparr>" "''sda''" "replicate 32768 0" False "\<lambda>_. 0"] disk
    by (auto simp: default_opts_def UNINSTALL_FILE_OPT_def)
qed

end
