(* ===== verification/Limine_Usage.thy ===== *)
theory Limine_Usage
  imports Limine_Enroll
begin

text \<open>
  What the host tool prints on its standard output (\<open>limine.c\<close>): the usage screens, the version and the data
  directory, as lists of lines. Diagnostics go to \<open>stderr\<close> and are not modelled.
\<close>

section \<open>Usage screens\<close>

definition bios_install_usage :: "string \<Rightarrow> string list" where
  "bios_install_usage program_name =
     [''usage: '' @ program_name @ '' bios-install <device> [GPT partition index]'',
      '''',
      ''    --force-mbr     Force MBR detection to work even if the'',
      ''                    safety checks fail (DANGEROUS!)'',
      '''',
      ''    --uninstall     Reverse the entire install procedure'',
      '''',
      ''    --uninstall-data-file=<filename>'',
      ''                    Set the input (for --uninstall) or output file'',
      ''                    name of the file which contains uninstall data'',
      '''',
      ''    --no-gpt-to-mbr-isohybrid-conversion'',
      ''                    Do not automatically convert a GUID partition table (GPT)'',
      ''                    found on an ISOHYBRID image into an MBR partition table'',
      ''                    (which is done for better hardware compatibility)'',
      '''',
      ''    --quiet         Do not print verbose diagnostic messages'',
      '''',
      ''    --help | -h     Display this help message'',
      '''']"

definition enroll_config_usage :: "string \<Rightarrow> string list" where
  "enroll_config_usage program_name =
     [''usage: '' @ program_name @ '' enroll-config <Limine executable> <BLAKE2B of config file>'',
      '''',
      ''    --reset      Remove enrolled BLAKE2B, will not check config integrity'',
      '''',
      ''    --quiet      Do not print verbose diagnostic messages'',
      '''',
      ''    --help | -h  Display this help message'',
      '''']"

definition general_usage :: "string \<Rightarrow> string list" where
  "general_usage program_name =
     [''usage: '' @ program_name @ '' <command> <args...>'',
      '''',
      ''    --print-datadir   Print the directory containing the bootloader files'',
      '''',
      ''    --version         Print the Limine version (like the `version` command)'',
      '''',
      ''    --help | -h       Display this help message'',
      '''',
      ''Commands: `help`, `version`, `bios-install`, `enroll-config`'',
      ''Use `--help` after specifying the command for command-specific help.'']"

section \<open>The output of each command\<close>

text \<open>The only option that ends the parsing with success is \<open>--help\<close>; its other failures print on \<open>stderr\<close>.\<close>

definition bios_install_output :: "string \<Rightarrow> (string \<Rightarrow> bool) \<Rightarrow> string list \<Rightarrow> string list" where
  "bios_install_output program_name opens argv =
     (if length argv < 2 then bios_install_usage program_name
      else case parse_install_args opens (tl argv) default_opts of
        Inl status \<Rightarrow> if status = EXIT_SUCCESS then bios_install_usage program_name else []
      | Inr opts \<Rightarrow> if io_device opts = None then bios_install_usage program_name else [])"

definition enroll_config_output :: "string \<Rightarrow> string list \<Rightarrow> string list" where
  "enroll_config_output program_name argv =
     (case enroll_args 1 argv False False of
        None \<Rightarrow> enroll_config_usage program_name
      | Some (argv, quiet, reset) \<Rightarrow>
          if length argv \<le> (if reset then 1 else 2) then enroll_config_usage program_name else [])"

definition main_output :: "tool_env \<Rightarrow> string list \<Rightarrow> (string \<rightharpoonup> u8 list) \<Rightarrow> string list" where
  "main_output env argv files =
     (let program_name = argv ! 0 in
      if length argv \<le> 1 then general_usage program_name
      else if argv ! 1 = ''help'' \<or> argv ! 1 = ''--help'' \<or> argv ! 1 = ''-h'' then general_usage program_name
      else if argv ! 1 = ''bios-install'' then bios_install_output program_name (\<lambda>n. files n \<noteq> None) (tl argv)
      else if argv ! 1 = ''enroll-config'' then enroll_config_output program_name (tl argv)
      else if argv ! 1 = ''--print-datadir'' then (case te_datadir env of Some dir \<Rightarrow> [dir] | None \<Rightarrow> [])
      else if argv ! 1 = ''version'' \<or> argv ! 1 = ''--version'' then snd (version program_name (tl argv))
      else general_usage program_name)"

section \<open>Printing and writing exclude each other\<close>

lemma bios_install_output_files:
  "bios_install_output p (\<lambda>n. files n \<noteq> None) argv \<noteq> [] \<Longrightarrow> snd (bios_install be img rnd faults argv files) = files"
  by (auto simp: bios_install_output_def bios_install_def split: sum.splits if_splits option.splits)

lemma enroll_config_output_files:
  "enroll_config_output p argv \<noteq> [] \<Longrightarrow> snd (enroll_config short faults argv files) = files"
  by (auto simp: enroll_config_output_def enroll_config_def split: option.splits if_splits)

text \<open>An invocation that prints something on standard output leaves every file as it is.\<close>

lemma output_changes_nothing:
  assumes "main_output env argv files \<noteq> []"
  shows "snd (limine_main env argv files) = files"
proof -
  let ?is = "\<lambda>s. argv ! 1 = s"
  consider "length argv \<le> 1 \<or> ?is ''help'' \<or> ?is ''--help'' \<or> ?is ''-h''"
    | "\<not> length argv \<le> 1" "?is ''bios-install''" | "\<not> length argv \<le> 1" "?is ''enroll-config''"
    | "\<not> length argv \<le> 1" "\<not> (?is ''help'' \<or> ?is ''--help'' \<or> ?is ''-h'')" "\<not> ?is ''bios-install''" "\<not> ?is ''enroll-config''"
    by blast
  then show ?thesis
  proof cases
    case 1
    then show ?thesis by (auto simp: limine_main_def)
  next
    case 2
    with assms bios_install_output_files show ?thesis by (simp add: main_output_def limine_main_def)
  next
    case 3
    with assms enroll_config_output_files show ?thesis by (simp add: main_output_def limine_main_def)
  next
    case 4
    then show ?thesis by (simp add: limine_main_def)
  qed
qed

text \<open>Asking for help, in any way, prints a usage screen and succeeds.\<close>

lemma help_succeeds:
  "cmd \<in> {''help'', ''--help'', ''-h''} \<Longrightarrow>
    limine_main env (p # cmd # args) files = (Ret EXIT_SUCCESS, files) \<and>
    main_output env (p # cmd # args) files = general_usage p"
  "opt \<in> {''--help'', ''-h''} \<Longrightarrow>
    limine_main env (p # ''bios-install'' # opt # args) files = (Ret EXIT_SUCCESS, files) \<and>
    main_output env (p # ''bios-install'' # opt # args) files = bios_install_usage p"
  "opt \<in> {''--help'', ''-h''} \<Longrightarrow>
    limine_main env (p # ''enroll-config'' # opt # args) files = (Ret EXIT_SUCCESS, files) \<and>
    main_output env (p # ''enroll-config'' # opt # args) files = enroll_config_usage p"
  by (auto simp: limine_main_def main_output_def bios_install_def bios_install_output_def
      enroll_config_def enroll_config_output_def enroll_args.simps)

text \<open>The screen of \<open>version\<close> promises \<open>-h\<close>, which it does not know.\<close>

lemma version_short_help:
  "''    --help | -h     Display this help message'' \<in> set (version_usage p)"
  "version p [''version'', ''-h''] = version p [''version'']"
  by (simp_all add: version_usage_def version_def)

end
