(* ===== verification/C_Layout.thy ===== *)
theory C_Layout
  imports Cell_Prelude
begin

text \<open>
  How C lays out the types that \<open>limine.h\<close> declares: sizes and alignments of the ABIs of the
  architectures it supports, offsets of fields, and the bytes of a value in memory. The host of every
  ABI here is little-endian. \<open>scalars\<close> flattens a type into the places of its scalars; that they are in order and
  disjoint is proved once for all types, and with it that storing and loading are inverse.
\<close>

named_theorems layout_simps \<open>rewrite rules for sizes, alignments and offsets\<close>

section \<open>Types\<close>

datatype arch = X86_64 | I386 | AARCH64 | RISCV64 | LOONGARCH64

text \<open>A pointer carries the text of its type, a structure its tag.\<close>

datatype ctype =
  U8 | U16 | U32 | U64 | I64
| Pointer string
| Array ctype nat
| Struct string "(string \<times> ctype) list"

definition pointer_size :: "arch \<Rightarrow> nat" where
  "pointer_size a = (if a = I386 then 4 else 8)"

text \<open>The System V ABI of i386 aligns a member of type \<open>uint64_t\<close> to four bytes only.\<close>

definition u64_align :: "arch \<Rightarrow> nat" where
  "u64_align a = (if a = I386 then 4 else 8)"

definition pad_to :: "nat \<Rightarrow> nat \<Rightarrow> nat" where
  "pad_to al n = (if n mod al = 0 then n else n + (al - n mod al))"

text \<open>A layout is a size and an alignment. The offsets of members, and where the last one ends.\<close>

fun member_offsets :: "nat \<Rightarrow> (nat \<times> nat) list \<Rightarrow> nat list" where
  "member_offsets n [] = []"
| "member_offsets n ((sz, al) # ls) = pad_to al n # member_offsets (pad_to al n + sz) ls"

fun members_end :: "nat \<Rightarrow> (nat \<times> nat) list \<Rightarrow> nat" where
  "members_end n [] = n"
| "members_end n ((sz, al) # ls) = members_end (pad_to al n + sz) ls"

definition struct_align :: "(nat \<times> nat) list \<Rightarrow> nat" where
  "struct_align ls = foldr (\<lambda>l m. max (snd l) m) ls 1"

primrec type_layout :: "arch \<Rightarrow> ctype \<Rightarrow> nat \<times> nat" where
  "type_layout a U8 = (1, 1)"
| "type_layout a U16 = (2, 2)"
| "type_layout a U32 = (4, 4)"
| "type_layout a U64 = (8, u64_align a)"
| "type_layout a I64 = (8, u64_align a)"
| "type_layout a (Pointer t) = (pointer_size a, pointer_size a)"
| "type_layout a (Array t n) = (n * fst (type_layout a t), snd (type_layout a t))"
| "type_layout a (Struct tag members) =
     (let ls = map snd (map (map_prod id (type_layout a)) members)
      in (pad_to (struct_align ls) (members_end 0 ls), struct_align ls))"

definition sizeof :: "arch \<Rightarrow> ctype \<Rightarrow> nat" where
  "sizeof a t = fst (type_layout a t)"

fun offset_in :: "string \<Rightarrow> string list \<Rightarrow> nat list \<Rightarrow> nat option" where
  "offset_in m (x # xs) (k # ks) = (if m = x then Some k else offset_in m xs ks)"
| "offset_in m _ _ = None"

fun offset_of :: "arch \<Rightarrow> ctype \<Rightarrow> string \<Rightarrow> nat option" where
  "offset_of a (Struct tag members) m =
     offset_in m (map fst members) (member_offsets 0 (map (type_layout a \<circ> snd) members))"
| "offset_of a _ m = None"

section \<open>The scalars of a type\<close>

definition shift :: "nat \<Rightarrow> (nat \<times> nat) list \<Rightarrow> (nat \<times> nat) list" where
  "shift k ps = map (\<lambda>(offset, width). (k + offset, width)) ps"

text \<open>Offset and width of every scalar, in the order of the declaration.\<close>

primrec scalars :: "arch \<Rightarrow> ctype \<Rightarrow> (nat \<times> nat) list" where
  "scalars a U8 = [(0, 1)]"
| "scalars a U16 = [(0, 2)]"
| "scalars a U32 = [(0, 4)]"
| "scalars a U64 = [(0, 8)]"
| "scalars a I64 = [(0, 8)]"
| "scalars a (Pointer t) = [(0, pointer_size a)]"
| "scalars a (Array t n) = concat (map (\<lambda>i. shift (i * sizeof a t) (scalars a t)) [0..<n])"
| "scalars a (Struct tag members) =
     concat (map2 shift (member_offsets 0 (map (type_layout a \<circ> snd) members))
                        (map snd (map (map_prod id (scalars a)) members)))"

text \<open>\<open>placed lo ps hi\<close>: the places \<open>ps\<close> follow each other between \<open>lo\<close> and \<open>hi\<close>.\<close>

fun placed :: "nat \<Rightarrow> (nat \<times> nat) list \<Rightarrow> nat \<Rightarrow> bool" where
  "placed lo [] hi = (lo \<le> hi)"
| "placed lo ((offset, width) # ps) hi = (lo \<le> offset \<and> placed (offset + width) ps hi)"

lemma placed_le: "placed lo ps hi \<Longrightarrow> lo \<le> hi"
  by (induction lo ps hi rule: placed.induct) auto

lemma placed_mono: "placed lo ps hi \<Longrightarrow> lo' \<le> lo \<Longrightarrow> hi \<le> hi' \<Longrightarrow> placed lo' ps hi'"
  by (induction lo ps hi arbitrary: lo' rule: placed.induct) auto

lemma placed_append: "placed lo ps mid \<Longrightarrow> placed mid qs hi \<Longrightarrow> placed lo (ps @ qs) hi"
proof (induction lo ps mid rule: placed.induct)
  case (1 lo mid)
  then show ?case by (auto intro: placed_mono)
qed auto

lemma placed_shift: "placed lo ps hi \<Longrightarrow> placed (k + lo) (shift k ps) (k + hi)"
  by (induction lo ps hi rule: placed.induct) (auto simp: shift_def add.assoc)

lemma pad_to_ge: "n \<le> pad_to al n"
  by (simp add: pad_to_def)

lemma placed_array:
  "placed 0 ps sz \<Longrightarrow> placed 0 (concat (map (\<lambda>i. shift (i * sz) ps) [0..<n])) (n * sz)"
proof (induction n)
  case 0
  then show ?case by simp
next
  case (Suc n)
  then have "placed (n * sz + 0) (shift (n * sz) ps) (n * sz + sz)" by (intro placed_shift)
  with Suc have "placed 0 (concat (map (\<lambda>i. shift (i * sz) ps) [0..<n]) @ shift (n * sz) ps) (n * sz + sz)"
    by (intro placed_append [of 0 _ "n * sz"]) auto
  then show ?case by (simp add: add.commute)
qed

lemma placed_members:
  assumes "list_all2 (\<lambda>(sz, al) ps. placed 0 ps sz) ls pss"
  shows "placed n (concat (map2 shift (member_offsets n ls) pss)) (members_end n ls)"
  using assms
proof (induction n ls arbitrary: pss rule: member_offsets.induct)
  case (1 n)
  then show ?case by simp
next
  case (2 n sz al ls)
  then obtain ps pss' where pss: "pss = ps # pss'" "placed 0 ps sz"
      "list_all2 (\<lambda>(sz, al) ps. placed 0 ps sz) ls pss'"
    by (auto simp: list_all2_Cons1)
  let ?k = "pad_to al n"
  have "placed (?k + 0) (shift ?k ps) (?k + sz)" using pss(2) by (rule placed_shift)
  then have "placed n (shift ?k ps) (?k + sz)"
    by (rule placed_mono) (simp_all add: pad_to_ge)
  from placed_append [OF this "2.IH" [OF pss(3)]] show ?case
    by (simp add: pss(1))
qed

lemma placed_scalars: "placed 0 (scalars a t) (sizeof a t)"
proof (induction t)
  case (Array t n)
  then show ?case using placed_array [of "scalars a t" "sizeof a t" n] by (simp add: sizeof_def)
next
  case (Struct tag members)
  have "list_all2 (\<lambda>(sz, al) ps. placed 0 ps sz)
      (map (type_layout a \<circ> snd) members) (map (scalars a \<circ> snd) members)"
    unfolding list.rel_map
  proof (rule list.rel_refl_strong)
    fix m assume "m \<in> set members"
    then have "placed 0 (scalars a (snd m)) (sizeof a (snd m))" by (rule Struct) (cases m, simp)
    then show "(case (type_layout a \<circ> snd) m of (sz, al) \<Rightarrow> \<lambda>ps. placed 0 ps sz) ((scalars a \<circ> snd) m)"
      by (simp add: sizeof_def split_beta)
  qed
  from placed_members [OF this, of 0] have "placed 0 (scalars a (Struct tag members)) (members_end 0 (map (type_layout a \<circ> snd) members))"
    by (simp add: comp_def)
  then show ?case by (rule placed_mono) (simp_all add: sizeof_def Let_def pad_to_ge comp_def)
qed (simp_all add: sizeof_def)

section \<open>Values in memory\<close>

text \<open>A value is the list of its scalars, as naturals; \<open>base\<close> is its address in \<open>mem\<close>.\<close>

definition load_value :: "arch \<Rightarrow> ctype \<Rightarrow> u8 list \<Rightarrow> nat \<Rightarrow> nat list" where
  "load_value a t mem base = map (\<lambda>(offset, width). le_nat (slice_at mem (base + offset) width)) (scalars a t)"

definition store_value :: "arch \<Rightarrow> ctype \<Rightarrow> nat list \<Rightarrow> u8 list \<Rightarrow> nat \<Rightarrow> u8 list" where
  "store_value a t vs mem base =
     foldl (\<lambda>mem ((offset, width), v). splice_at mem (base + offset) (le_bytes width v)) mem (zip (scalars a t) vs)"

text \<open>One number for each scalar, and within its range.\<close>

definition fits :: "arch \<Rightarrow> ctype \<Rightarrow> nat list \<Rightarrow> bool" where
  "fits a t vs = list_all2 (\<lambda>(offset, width) v. v < 256 ^ width) (scalars a t) vs"

lemma store_places:
  assumes "placed lo ps hi" "base + hi \<le> length mem" "length vs = length ps"
    and "mem' = foldl (\<lambda>mem ((offset, width), v). splice_at mem (base + offset) (le_bytes width v)) mem (zip ps vs)"
  shows "length mem' = length mem \<and> (\<forall>j. j + n \<le> length mem \<and> (j + n \<le> base + lo \<or> base + hi \<le> j) \<longrightarrow>
      slice_at mem' j n = slice_at mem j n)"
  using assms
proof (induction lo ps hi arbitrary: mem vs rule: placed.induct)
  case (1 lo hi)
  then show ?case by simp
next
  case (2 lo offset width ps hi)
  then obtain v vs' where vs: "vs = v # vs'" by (cases vs) auto
  let ?m = "splice_at mem (base + offset) (le_bytes width v)"
  have le: "lo \<le> offset" "placed (offset + width) ps hi" "offset + width \<le> hi" using 2 placed_le by auto
  then have len: "length ?m = length mem" using 2 by simp
  have IH: "length mem' = length ?m \<and> (\<forall>j. j + n \<le> length ?m \<and> (j + n \<le> base + (offset + width) \<or> base + hi \<le> j) \<longrightarrow>
      slice_at mem' j n = slice_at ?m j n)"
    using 2 le by (intro "2.IH") (simp_all add: vs)
  show ?case
  proof (intro conjI allI impI)
    show "length mem' = length mem" using IH len by simp
    fix j assume j: "j + n \<le> length mem \<and> (j + n \<le> base + lo \<or> base + hi \<le> j)"
    then have "slice_at mem' j n = slice_at ?m j n" using IH le len by auto
    also have "\<dots> = slice_at mem j n"
      using j le 2(3) by (intro slice_splice_other) auto
    finally show "slice_at mem' j n = slice_at mem j n" .
  qed
qed

lemma load_places:
  assumes "placed lo ps hi" "base + hi \<le> length mem" "list_all2 (\<lambda>(offset, width) v. v < 256 ^ width) ps vs"
  shows "map (\<lambda>(offset, width). le_nat (slice_at
      (foldl (\<lambda>mem ((offset, width), v). splice_at mem (base + offset) (le_bytes width v)) mem (zip ps vs))
      (base + offset) width)) ps = vs"
  using assms
proof (induction lo ps hi arbitrary: mem vs rule: placed.induct)
  case (1 lo hi)
  then show ?case by simp
next
  case (2 lo offset width ps hi)
  then obtain v vs' where vs: "vs = v # vs'" "v < 256 ^ width"
      "list_all2 (\<lambda>(offset, width) v. v < 256 ^ width) ps vs'"
    by (auto simp: list_all2_Cons1)
  let ?m = "splice_at mem (base + offset) (le_bytes width v)"
  let ?m' = "foldl (\<lambda>mem ((offset, width), v). splice_at mem (base + offset) (le_bytes width v)) ?m (zip ps vs')"
  have le: "placed (offset + width) ps hi" "offset + width \<le> hi" using 2 placed_le by auto
  have len: "length ?m = length mem" using le 2 by simp
  have "slice_at ?m' (base + offset) width = slice_at ?m (base + offset) width"
    using store_places [OF le(1), of base ?m vs' ?m' width] le 2(3) list_all2_lengthD [OF vs(3)] len by auto
  then have "le_nat (slice_at ?m' (base + offset) width) = v"
    using le 2(3) vs(2) by (simp add: le_nat_le_bytes)
  moreover have "map (\<lambda>(offset, width). le_nat (slice_at ?m' (base + offset) width)) ps = vs'"
    using 2 le len vs(3) by (intro "2.IH") simp_all
  ultimately show ?case by (simp add: vs(1))
qed

lemma load_store_value:
  "fits a t vs \<Longrightarrow> base + sizeof a t \<le> length mem \<Longrightarrow> load_value a t (store_value a t vs mem base) base = vs"
  unfolding load_value_def store_value_def fits_def by (rule load_places [OF placed_scalars])

lemma store_value_frame:
  assumes "fits a t vs" "base + sizeof a t \<le> length mem"
  shows "length (store_value a t vs mem base) = length mem"
    and "j + n \<le> base \<or> base + sizeof a t \<le> j \<Longrightarrow> j + n \<le> length mem \<Longrightarrow>
      slice_at (store_value a t vs mem base) j n = slice_at mem j n"
  using store_places [OF placed_scalars assms(2), of vs _ n] assms(1)
  by (auto simp: store_value_def fits_def dest: list_all2_lengthD)

end
