(* ===== verification/Limine_Requests.thy ===== *)
theory Limine_Requests
  imports C_Layout Limine_Proto
begin

text \<open>
  The declarations of the boot protocol (\<open>limine.h\<close> of the vendored boot loader): every structure as a
  C type that depends on how the header is compiled, and the identifier of every request. The boot loader and
  the kernel are compiled apart, for different architectures and with different settings, and exchange
  these structures in memory: that they see the same places is what the header has to ensure.
\<close>

section \<open>How the header is compiled\<close>

text \<open>The architecture, \<open>LIMINE_API_REVISION\<close>, and whether \<open>LIMINE_NO_POINTERS\<close> is defined.\<close>

record c_config =
  cc_arch :: arch
  cc_api_revision :: nat
  cc_no_pointers :: bool

definition LIMINE_PTR :: "c_config \<Rightarrow> string \<Rightarrow> ctype" where
  "LIMINE_PTR c t = (if cc_no_pointers c then U64 else Pointer t)"

text \<open>The header stops with \<open>#error\<close> on an API revision it does not know.\<close>

definition api_revision_supported :: "c_config \<Rightarrow> bool" where
  "api_revision_supported c = (\<not> cc_api_revision c > 3)"

definition LIMINE_REQUESTS_START_MARKER :: "u64 list" where
  "LIMINE_REQUESTS_START_MARKER =
     [0xf6b8f4b39de7d1ae, 0xfab91a6940fcb9cf, 0x785c6ed015d3e316, 0x181e920a7852b9d9]"

definition LIMINE_REQUESTS_END_MARKER :: "u64 list" where
  "LIMINE_REQUESTS_END_MARKER = [0xadc0e0531bb10d03, 0x9572709f31764c62]"

text \<open>The array \<open>limine_base_revision\<close> of a kernel and the macros that read it.\<close>

definition LIMINE_BASE_REVISION :: "u64 \<Rightarrow> u64 list" where
  "LIMINE_BASE_REVISION n = [0xf9562b2d5c95a6c8, 0x6a7b384944536bdc, n]"

definition LIMINE_BASE_REVISION_SUPPORTED :: "u64 list \<Rightarrow> bool" where
  "LIMINE_BASE_REVISION_SUPPORTED limine_base_revision = (limine_base_revision ! 2 = 0)"

definition LIMINE_LOADED_BASE_REV_VALID :: "u64 list \<Rightarrow> bool" where
  "LIMINE_LOADED_BASE_REV_VALID limine_base_revision = (limine_base_revision ! 1 \<noteq> 0x6a7b384944536bdc)"

definition LIMINE_LOADED_BASE_REVISION :: "u64 list \<Rightarrow> u64" where
  "LIMINE_LOADED_BASE_REVISION limine_base_revision = limine_base_revision ! 1"

definition LIMINE_COMMON_MAGIC :: "u64 list" where
  "LIMINE_COMMON_MAGIC = [0xc7b1dd30df4c8b88, 0x0a82e883a194f07b]"

section \<open>Files\<close>

definition struct_limine_uuid :: "c_config \<Rightarrow> ctype" where
  "struct_limine_uuid c =
     Struct ''limine_uuid''
       [(''a'', U32),
        (''b'', U16),
        (''c'', U16),
        (''d'', Array U8 8)]"

definition struct_limine_file :: "c_config \<Rightarrow> ctype" where
  "struct_limine_file c =
     Struct ''limine_file''
       [(''revision'', U64),
        (''address'', LIMINE_PTR c ''void *''),
        (''size'', U64),
        (''path'', LIMINE_PTR c ''char *''),
        (if 3 \<le> cc_api_revision c then ''string'' else ''cmdline'', LIMINE_PTR c ''char *''),
        (''media_type'', U32),
        (''unused'', U32),
        (''tftp_ip'', U32),
        (''tftp_port'', U32),
        (''partition_index'', U32),
        (''mbr_disk_id'', U32),
        (''gpt_disk_uuid'', struct_limine_uuid c),
        (''gpt_part_uuid'', struct_limine_uuid c),
        (''part_uuid'', struct_limine_uuid c)]"

section \<open>Boot loader, command line, firmware and stack\<close>

definition LIMINE_BOOTLOADER_INFO_REQUEST :: "u64 list" where
  "LIMINE_BOOTLOADER_INFO_REQUEST = LIMINE_COMMON_MAGIC @ [0xf55038d8e2a1202f, 0x279426fcf5f59740]"

definition struct_limine_bootloader_info_response :: "c_config \<Rightarrow> ctype" where
  "struct_limine_bootloader_info_response c =
     Struct ''limine_bootloader_info_response''
       [(''revision'', U64),
        (''name'', LIMINE_PTR c ''char *''),
        (''version'', LIMINE_PTR c ''char *'')]"

definition struct_limine_bootloader_info_request :: "c_config \<Rightarrow> ctype" where
  "struct_limine_bootloader_info_request c =
     Struct ''limine_bootloader_info_request''
       [(''id'', Array U64 4),
        (''revision'', U64),
        (''response'', LIMINE_PTR c ''struct limine_bootloader_info_response *'')]"

definition LIMINE_EXECUTABLE_CMDLINE_REQUEST :: "u64 list" where
  "LIMINE_EXECUTABLE_CMDLINE_REQUEST = LIMINE_COMMON_MAGIC @ [0x4b161536e598651e, 0xb390ad4a2f1f303a]"

definition struct_limine_executable_cmdline_response :: "c_config \<Rightarrow> ctype" where
  "struct_limine_executable_cmdline_response c =
     Struct ''limine_executable_cmdline_response''
       [(''revision'', U64),
        (''cmdline'', LIMINE_PTR c ''char *'')]"

definition struct_limine_executable_cmdline_request :: "c_config \<Rightarrow> ctype" where
  "struct_limine_executable_cmdline_request c =
     Struct ''limine_executable_cmdline_request''
       [(''id'', Array U64 4),
        (''revision'', U64),
        (''response'', LIMINE_PTR c ''struct limine_executable_cmdline_response *'')]"

definition LIMINE_FIRMWARE_TYPE_REQUEST :: "u64 list" where
  "LIMINE_FIRMWARE_TYPE_REQUEST = LIMINE_COMMON_MAGIC @ [0x8c2f75d90bef28a8, 0x7045a4688eac00c3]"

definition struct_limine_firmware_type_response :: "c_config \<Rightarrow> ctype" where
  "struct_limine_firmware_type_response c =
     Struct ''limine_firmware_type_response''
       [(''revision'', U64),
        (''firmware_type'', U64)]"

definition struct_limine_firmware_type_request :: "c_config \<Rightarrow> ctype" where
  "struct_limine_firmware_type_request c =
     Struct ''limine_firmware_type_request''
       [(''id'', Array U64 4),
        (''revision'', U64),
        (''response'', LIMINE_PTR c ''struct limine_firmware_type_response *'')]"

definition LIMINE_STACK_SIZE_REQUEST :: "u64 list" where
  "LIMINE_STACK_SIZE_REQUEST = LIMINE_COMMON_MAGIC @ [0x224ef0460a8e8926, 0xe1cb0fc25f46ea3d]"

definition struct_limine_stack_size_response :: "c_config \<Rightarrow> ctype" where
  "struct_limine_stack_size_response c =
     Struct ''limine_stack_size_response''
       [(''revision'', U64)]"

definition struct_limine_stack_size_request :: "c_config \<Rightarrow> ctype" where
  "struct_limine_stack_size_request c =
     Struct ''limine_stack_size_request''
       [(''id'', Array U64 4),
        (''revision'', U64),
        (''response'', LIMINE_PTR c ''struct limine_stack_size_response *''),
        (''stack_size'', U64)]"

section \<open>Direct map and framebuffer\<close>

definition LIMINE_HHDM_REQUEST :: "u64 list" where
  "LIMINE_HHDM_REQUEST = LIMINE_COMMON_MAGIC @ [0x48dcf1cb8ad2b852, 0x63984e959a98244b]"

definition struct_limine_hhdm_response :: "c_config \<Rightarrow> ctype" where
  "struct_limine_hhdm_response c =
     Struct ''limine_hhdm_response''
       [(''revision'', U64),
        (''offset'', U64)]"

definition struct_limine_hhdm_request :: "c_config \<Rightarrow> ctype" where
  "struct_limine_hhdm_request c =
     Struct ''limine_hhdm_request''
       [(''id'', Array U64 4),
        (''revision'', U64),
        (''response'', LIMINE_PTR c ''struct limine_hhdm_response *'')]"

definition LIMINE_FRAMEBUFFER_REQUEST :: "u64 list" where
  "LIMINE_FRAMEBUFFER_REQUEST = LIMINE_COMMON_MAGIC @ [0x9d5827dcd881dd75, 0xa3148604f6fab11b]"

definition struct_limine_video_mode :: "c_config \<Rightarrow> ctype" where
  "struct_limine_video_mode c =
     Struct ''limine_video_mode''
       [(''pitch'', U64),
        (''width'', U64),
        (''height'', U64),
        (''bpp'', U16),
        (''memory_model'', U8),
        (''red_mask_size'', U8),
        (''red_mask_shift'', U8),
        (''green_mask_size'', U8),
        (''green_mask_shift'', U8),
        (''blue_mask_size'', U8),
        (''blue_mask_shift'', U8)]"

definition struct_limine_framebuffer :: "c_config \<Rightarrow> ctype" where
  "struct_limine_framebuffer c =
     Struct ''limine_framebuffer''
       [(''address'', LIMINE_PTR c ''void *''),
        (''width'', U64),
        (''height'', U64),
        (''pitch'', U64),
        (''bpp'', U16),
        (''memory_model'', U8),
        (''red_mask_size'', U8),
        (''red_mask_shift'', U8),
        (''green_mask_size'', U8),
        (''green_mask_shift'', U8),
        (''blue_mask_size'', U8),
        (''blue_mask_shift'', U8),
        (''unused'', Array U8 7),
        (''edid_size'', U64),
        (''edid'', LIMINE_PTR c ''void *''),
        (''mode_count'', U64),
        (''modes'', LIMINE_PTR c ''struct limine_video_mode **'')]"

definition struct_limine_framebuffer_response :: "c_config \<Rightarrow> ctype" where
  "struct_limine_framebuffer_response c =
     Struct ''limine_framebuffer_response''
       [(''revision'', U64),
        (''framebuffer_count'', U64),
        (''framebuffers'', LIMINE_PTR c ''struct limine_framebuffer **'')]"

definition struct_limine_framebuffer_request :: "c_config \<Rightarrow> ctype" where
  "struct_limine_framebuffer_request c =
     Struct ''limine_framebuffer_request''
       [(''id'', Array U64 4),
        (''revision'', U64),
        (''response'', LIMINE_PTR c ''struct limine_framebuffer_response *'')]"

section \<open>Terminal\<close>

definition LIMINE_TERMINAL_REQUEST :: "u64 list" where
  "LIMINE_TERMINAL_REQUEST = LIMINE_COMMON_MAGIC @ [0xc8ac59310c2b0844, 0xa68d0c7265d38878]"

definition struct_limine_terminal :: "c_config \<Rightarrow> ctype" where
  "struct_limine_terminal c =
     Struct ''limine_terminal''
       [(''columns'', U64),
        (''rows'', U64),
        (''framebuffer'', LIMINE_PTR c ''struct limine_framebuffer *'')]"

definition struct_limine_terminal_response :: "c_config \<Rightarrow> ctype" where
  "struct_limine_terminal_response c =
     Struct ''limine_terminal_response''
       [(''revision'', U64),
        (''terminal_count'', U64),
        (''terminals'', LIMINE_PTR c ''struct limine_terminal **''),
        (''write'', LIMINE_PTR c ''limine_terminal_write'')]"

definition struct_limine_terminal_request :: "c_config \<Rightarrow> ctype" where
  "struct_limine_terminal_request c =
     Struct ''limine_terminal_request''
       [(''id'', Array U64 4),
        (''revision'', U64),
        (''response'', LIMINE_PTR c ''struct limine_terminal_response *''),
        (''callback'', LIMINE_PTR c ''limine_terminal_callback'')]"

section \<open>Paging\<close>

definition LIMINE_PAGING_MODE_REQUEST :: "u64 list" where
  "LIMINE_PAGING_MODE_REQUEST = LIMINE_COMMON_MAGIC @ [0x95c1a0edab0944cb, 0xa4e5cb3842f7488a]"

definition struct_limine_paging_mode_response :: "c_config \<Rightarrow> ctype" where
  "struct_limine_paging_mode_response c =
     Struct ''limine_paging_mode_response''
       [(''revision'', U64),
        (''mode'', U64)]"

definition struct_limine_paging_mode_request :: "c_config \<Rightarrow> ctype" where
  "struct_limine_paging_mode_request c =
     Struct ''limine_paging_mode_request''
       [(''id'', Array U64 4),
        (''revision'', U64),
        (''response'', LIMINE_PTR c ''struct limine_paging_mode_response *''),
        (''mode'', U64),
        (''max_mode'', U64),
        (''min_mode'', U64)]"

definition LIMINE_5_LEVEL_PAGING_REQUEST :: "u64 list" where
  "LIMINE_5_LEVEL_PAGING_REQUEST = LIMINE_COMMON_MAGIC @ [0x94469551da9b3192, 0xebe5e86db7382888]"

definition struct_limine_5_level_paging_response :: "c_config \<Rightarrow> ctype" where
  "struct_limine_5_level_paging_response c =
     Struct ''limine_5_level_paging_response''
       [(''revision'', U64)]"

definition struct_limine_5_level_paging_request :: "c_config \<Rightarrow> ctype" where
  "struct_limine_5_level_paging_request c =
     Struct ''limine_5_level_paging_request''
       [(''id'', Array U64 4),
        (''revision'', U64),
        (''response'', LIMINE_PTR c ''struct limine_5_level_paging_response *'')]"

section \<open>Processors\<close>

text \<open>Revision 1 of the API renames \<open>smp\<close> to \<open>mp\<close>; the identifier of the request stays.\<close>

definition LIMINE_MP_REQUEST :: "u64 list" where
  "LIMINE_MP_REQUEST = LIMINE_COMMON_MAGIC @ [0x95a67b819a1b857e, 0xa0b61b723b6a73e0]"

definition LIMINE_MP :: "c_config \<Rightarrow> string \<Rightarrow> string" where
  "LIMINE_MP c t = (if 1 \<le> cc_api_revision c then ''limine_mp_'' else ''limine_smp_'') @ t"

definition struct_limine_mp_info_x86 :: "c_config \<Rightarrow> ctype" where
  "struct_limine_mp_info_x86 c =
     Struct (LIMINE_MP c ''info'')
       [(''processor_id'', U32),
        (''lapic_id'', U32),
        (''reserved'', U64),
        (''goto_address'', LIMINE_PTR c ''limine_goto_address''),
        (''extra_argument'', U64)]"

definition struct_limine_mp_response_x86 :: "c_config \<Rightarrow> ctype" where
  "struct_limine_mp_response_x86 c =
     Struct (LIMINE_MP c ''response'')
       [(''revision'', U64),
        (''flags'', U32),
        (''bsp_lapic_id'', U32),
        (''cpu_count'', U64),
        (''cpus'', LIMINE_PTR c (''struct '' @ LIMINE_MP c ''info'' @ '' **''))]"

definition struct_limine_mp_info_aarch64 :: "c_config \<Rightarrow> ctype" where
  "struct_limine_mp_info_aarch64 c =
     Struct (LIMINE_MP c ''info'')
       [(''processor_id'', U32),
        (''reserved1'', U32),
        (''mpidr'', U64),
        (''reserved'', U64),
        (''goto_address'', LIMINE_PTR c ''limine_goto_address''),
        (''extra_argument'', U64)]"

definition struct_limine_mp_response_aarch64 :: "c_config \<Rightarrow> ctype" where
  "struct_limine_mp_response_aarch64 c =
     Struct (LIMINE_MP c ''response'')
       [(''revision'', U64),
        (''flags'', U64),
        (''bsp_mpidr'', U64),
        (''cpu_count'', U64),
        (''cpus'', LIMINE_PTR c (''struct '' @ LIMINE_MP c ''info'' @ '' **''))]"

definition struct_limine_mp_info_riscv64 :: "c_config \<Rightarrow> ctype" where
  "struct_limine_mp_info_riscv64 c =
     Struct (LIMINE_MP c ''info'')
       [(''processor_id'', U64),
        (''hartid'', U64),
        (''reserved'', U64),
        (''goto_address'', LIMINE_PTR c ''limine_goto_address''),
        (''extra_argument'', U64)]"

definition struct_limine_mp_response_riscv64 :: "c_config \<Rightarrow> ctype" where
  "struct_limine_mp_response_riscv64 c =
     Struct (LIMINE_MP c ''response'')
       [(''revision'', U64),
        (''flags'', U64),
        (''bsp_hartid'', U64),
        (''cpu_count'', U64),
        (''cpus'', LIMINE_PTR c (''struct '' @ LIMINE_MP c ''info'' @ '' **''))]"

definition struct_limine_mp_info_loongarch64 :: "c_config \<Rightarrow> ctype" where
  "struct_limine_mp_info_loongarch64 c =
     Struct (LIMINE_MP c ''info'')
       [(''reserved'', U64)]"

definition struct_limine_mp_response_loongarch64 :: "c_config \<Rightarrow> ctype" where
  "struct_limine_mp_response_loongarch64 c =
     Struct (LIMINE_MP c ''response'')
       [(''cpu_count'', U64),
        (''cpus'', LIMINE_PTR c (''struct '' @ LIMINE_MP c ''info'' @ '' **''))]"

definition struct_limine_mp_info :: "c_config \<Rightarrow> ctype" where
  "struct_limine_mp_info c =
     (case cc_arch c of
        X86_64 \<Rightarrow> struct_limine_mp_info_x86 c
      | I386 \<Rightarrow> struct_limine_mp_info_x86 c
      | AARCH64 \<Rightarrow> struct_limine_mp_info_aarch64 c
      | RISCV64 \<Rightarrow> struct_limine_mp_info_riscv64 c
      | LOONGARCH64 \<Rightarrow> struct_limine_mp_info_loongarch64 c)"

definition struct_limine_mp_response :: "c_config \<Rightarrow> ctype" where
  "struct_limine_mp_response c =
     (case cc_arch c of
        X86_64 \<Rightarrow> struct_limine_mp_response_x86 c
      | I386 \<Rightarrow> struct_limine_mp_response_x86 c
      | AARCH64 \<Rightarrow> struct_limine_mp_response_aarch64 c
      | RISCV64 \<Rightarrow> struct_limine_mp_response_riscv64 c
      | LOONGARCH64 \<Rightarrow> struct_limine_mp_response_loongarch64 c)"

definition struct_limine_mp_request :: "c_config \<Rightarrow> ctype" where
  "struct_limine_mp_request c =
     Struct (LIMINE_MP c ''request'')
       [(''id'', Array U64 4),
        (''revision'', U64),
        (''response'', LIMINE_PTR c (''struct '' @ LIMINE_MP c ''response'' @ '' *'')),
        (''flags'', U64)]"

section \<open>Memory map and entry point\<close>

definition LIMINE_MEMMAP_REQUEST :: "u64 list" where
  "LIMINE_MEMMAP_REQUEST = LIMINE_COMMON_MAGIC @ [0x67cf3d9d378a806f, 0xe304acdfc50c3c62]"

definition struct_limine_memmap_entry :: "c_config \<Rightarrow> ctype" where
  "struct_limine_memmap_entry c =
     Struct ''limine_memmap_entry''
       [(''base'', U64),
        (''length'', U64),
        (''type'', U64)]"

definition struct_limine_memmap_response :: "c_config \<Rightarrow> ctype" where
  "struct_limine_memmap_response c =
     Struct ''limine_memmap_response''
       [(''revision'', U64),
        (''entry_count'', U64),
        (''entries'', LIMINE_PTR c ''struct limine_memmap_entry **'')]"

definition struct_limine_memmap_request :: "c_config \<Rightarrow> ctype" where
  "struct_limine_memmap_request c =
     Struct ''limine_memmap_request''
       [(''id'', Array U64 4),
        (''revision'', U64),
        (''response'', LIMINE_PTR c ''struct limine_memmap_response *'')]"

definition LIMINE_ENTRY_POINT_REQUEST :: "u64 list" where
  "LIMINE_ENTRY_POINT_REQUEST = LIMINE_COMMON_MAGIC @ [0x13d86c035a1cd3e1, 0x2b0caa89d8f3026a]"

definition struct_limine_entry_point_response :: "c_config \<Rightarrow> ctype" where
  "struct_limine_entry_point_response c =
     Struct ''limine_entry_point_response''
       [(''revision'', U64)]"

definition struct_limine_entry_point_request :: "c_config \<Rightarrow> ctype" where
  "struct_limine_entry_point_request c =
     Struct ''limine_entry_point_request''
       [(''id'', Array U64 4),
        (''revision'', U64),
        (''response'', LIMINE_PTR c ''struct limine_entry_point_response *''),
        (''entry'', LIMINE_PTR c ''limine_entry_point'')]"

section \<open>Executable file and modules\<close>

definition LIMINE_EXECUTABLE_FILE_REQUEST :: "u64 list" where
  "LIMINE_EXECUTABLE_FILE_REQUEST = LIMINE_COMMON_MAGIC @ [0xad97e90e83f1ed67, 0x31eb5d1c5ff23b69]"

definition struct_limine_executable_file_response :: "c_config \<Rightarrow> ctype" where
  "struct_limine_executable_file_response c =
     Struct (if 2 \<le> cc_api_revision c then ''limine_executable_file_response'' else ''limine_kernel_file_response'')
       [(''revision'', U64),
        (if 2 \<le> cc_api_revision c then ''executable_file'' else ''kernel_file'', LIMINE_PTR c ''struct limine_file *'')]"

definition struct_limine_executable_file_request :: "c_config \<Rightarrow> ctype" where
  "struct_limine_executable_file_request c =
     Struct (if 2 \<le> cc_api_revision c then ''limine_executable_file_request'' else ''limine_kernel_file_request'')
       [(''id'', Array U64 4),
        (''revision'', U64),
        (''response'',
          if 2 \<le> cc_api_revision c then LIMINE_PTR c ''struct limine_executable_file_response *''
          else LIMINE_PTR c ''struct limine_kernel_file_response *'')]"

definition LIMINE_MODULE_REQUEST :: "u64 list" where
  "LIMINE_MODULE_REQUEST = LIMINE_COMMON_MAGIC @ [0x3e7e279702be32af, 0xca1c4f3bd1280cee]"

definition struct_limine_internal_module :: "c_config \<Rightarrow> ctype" where
  "struct_limine_internal_module c =
     Struct ''limine_internal_module''
       [(''path'', LIMINE_PTR c ''const char *''),
        (if 3 \<le> cc_api_revision c then ''string'' else ''cmdline'', LIMINE_PTR c ''const char *''),
        (''flags'', U64)]"

definition struct_limine_module_response :: "c_config \<Rightarrow> ctype" where
  "struct_limine_module_response c =
     Struct ''limine_module_response''
       [(''revision'', U64),
        (''module_count'', U64),
        (''modules'', LIMINE_PTR c ''struct limine_file **'')]"

definition struct_limine_module_request :: "c_config \<Rightarrow> ctype" where
  "struct_limine_module_request c =
     Struct ''limine_module_request''
       [(''id'', Array U64 4),
        (''revision'', U64),
        (''response'', LIMINE_PTR c ''struct limine_module_response *''),
        (''internal_module_count'', U64),
        (''internal_modules'', LIMINE_PTR c ''struct limine_internal_module **'')]"

section \<open>Firmware tables\<close>

definition LIMINE_RSDP_REQUEST :: "u64 list" where
  "LIMINE_RSDP_REQUEST = LIMINE_COMMON_MAGIC @ [0xc5e77b6b397e7b43, 0x27637845accdcf3c]"

definition struct_limine_rsdp_response :: "c_config \<Rightarrow> ctype" where
  "struct_limine_rsdp_response c =
     Struct ''limine_rsdp_response''
       [(''revision'', U64),
        (''address'',
          if 1 \<le> cc_api_revision c then U64
          else LIMINE_PTR c ''void *'')]"

definition struct_limine_rsdp_request :: "c_config \<Rightarrow> ctype" where
  "struct_limine_rsdp_request c =
     Struct ''limine_rsdp_request''
       [(''id'', Array U64 4),
        (''revision'', U64),
        (''response'', LIMINE_PTR c ''struct limine_rsdp_response *'')]"

definition LIMINE_SMBIOS_REQUEST :: "u64 list" where
  "LIMINE_SMBIOS_REQUEST = LIMINE_COMMON_MAGIC @ [0x9e9046f11e095391, 0xaa4a520fefbde5ee]"

definition struct_limine_smbios_response :: "c_config \<Rightarrow> ctype" where
  "struct_limine_smbios_response c =
     Struct ''limine_smbios_response''
       [(''revision'', U64),
        (''entry_32'',
          if 1 \<le> cc_api_revision c then U64
          else LIMINE_PTR c ''void *''),
        (''entry_64'',
          if 1 \<le> cc_api_revision c then U64
          else LIMINE_PTR c ''void *'')]"

definition struct_limine_smbios_request :: "c_config \<Rightarrow> ctype" where
  "struct_limine_smbios_request c =
     Struct ''limine_smbios_request''
       [(''id'', Array U64 4),
        (''revision'', U64),
        (''response'', LIMINE_PTR c ''struct limine_smbios_response *'')]"

definition LIMINE_EFI_SYSTEM_TABLE_REQUEST :: "u64 list" where
  "LIMINE_EFI_SYSTEM_TABLE_REQUEST = LIMINE_COMMON_MAGIC @ [0x5ceba5163eaaf6d6, 0x0a6981610cf65fcc]"

definition struct_limine_efi_system_table_response :: "c_config \<Rightarrow> ctype" where
  "struct_limine_efi_system_table_response c =
     Struct ''limine_efi_system_table_response''
       [(''revision'', U64),
        (''address'',
          if 1 \<le> cc_api_revision c then U64
          else LIMINE_PTR c ''void *'')]"

definition struct_limine_efi_system_table_request :: "c_config \<Rightarrow> ctype" where
  "struct_limine_efi_system_table_request c =
     Struct ''limine_efi_system_table_request''
       [(''id'', Array U64 4),
        (''revision'', U64),
        (''response'', LIMINE_PTR c ''struct limine_efi_system_table_response *'')]"

definition LIMINE_EFI_MEMMAP_REQUEST :: "u64 list" where
  "LIMINE_EFI_MEMMAP_REQUEST = LIMINE_COMMON_MAGIC @ [0x7df62a431d6872d5, 0xa4fcdfb3e57306c8]"

definition struct_limine_efi_memmap_response :: "c_config \<Rightarrow> ctype" where
  "struct_limine_efi_memmap_response c =
     Struct ''limine_efi_memmap_response''
       [(''revision'', U64),
        (''memmap'', LIMINE_PTR c ''void *''),
        (''memmap_size'', U64),
        (''desc_size'', U64),
        (''desc_version'', U64)]"

definition struct_limine_efi_memmap_request :: "c_config \<Rightarrow> ctype" where
  "struct_limine_efi_memmap_request c =
     Struct ''limine_efi_memmap_request''
       [(''id'', Array U64 4),
        (''revision'', U64),
        (''response'', LIMINE_PTR c ''struct limine_efi_memmap_response *'')]"

section \<open>Date, address, device tree, hart and performance\<close>

definition LIMINE_DATE_AT_BOOT_REQUEST :: "u64 list" where
  "LIMINE_DATE_AT_BOOT_REQUEST = LIMINE_COMMON_MAGIC @ [0x502746e184c088aa, 0xfbc5ec83e6327893]"

definition struct_limine_date_at_boot_response :: "c_config \<Rightarrow> ctype" where
  "struct_limine_date_at_boot_response c =
     Struct (if 3 \<le> cc_api_revision c then ''limine_date_at_boot_response'' else ''limine_boot_time_response'')
       [(''revision'', U64),
        (if 3 \<le> cc_api_revision c then ''timestamp'' else ''boot_time'', I64)]"

definition struct_limine_date_at_boot_request :: "c_config \<Rightarrow> ctype" where
  "struct_limine_date_at_boot_request c =
     Struct (if 3 \<le> cc_api_revision c then ''limine_date_at_boot_request'' else ''limine_boot_time_request'')
       [(''id'', Array U64 4),
        (''revision'', U64),
        (''response'',
          if 3 \<le> cc_api_revision c then LIMINE_PTR c ''struct limine_date_at_boot_response *''
          else LIMINE_PTR c ''struct limine_boot_time_response *'')]"

definition LIMINE_EXECUTABLE_ADDRESS_REQUEST :: "u64 list" where
  "LIMINE_EXECUTABLE_ADDRESS_REQUEST = LIMINE_COMMON_MAGIC @ [0x71ba76863cc55f63, 0xb2644a48c516a487]"

definition struct_limine_executable_address_response :: "c_config \<Rightarrow> ctype" where
  "struct_limine_executable_address_response c =
     Struct (if 2 \<le> cc_api_revision c then ''limine_executable_address_response'' else ''limine_kernel_address_response'')
       [(''revision'', U64),
        (''physical_base'', U64),
        (''virtual_base'', U64)]"

definition struct_limine_executable_address_request :: "c_config \<Rightarrow> ctype" where
  "struct_limine_executable_address_request c =
     Struct (if 2 \<le> cc_api_revision c then ''limine_executable_address_request'' else ''limine_kernel_address_request'')
       [(''id'', Array U64 4),
        (''revision'', U64),
        (''response'',
          if 2 \<le> cc_api_revision c then LIMINE_PTR c ''struct limine_executable_address_response *''
          else LIMINE_PTR c ''struct limine_kernel_address_response *'')]"

definition LIMINE_DTB_REQUEST :: "u64 list" where
  "LIMINE_DTB_REQUEST = LIMINE_COMMON_MAGIC @ [0xb40ddb48fb54bac7, 0x545081493f81ffb7]"

definition struct_limine_dtb_response :: "c_config \<Rightarrow> ctype" where
  "struct_limine_dtb_response c =
     Struct ''limine_dtb_response''
       [(''revision'', U64),
        (''dtb_ptr'', LIMINE_PTR c ''void *'')]"

definition struct_limine_dtb_request :: "c_config \<Rightarrow> ctype" where
  "struct_limine_dtb_request c =
     Struct ''limine_dtb_request''
       [(''id'', Array U64 4),
        (''revision'', U64),
        (''response'', LIMINE_PTR c ''struct limine_dtb_response *'')]"

definition LIMINE_RISCV_BSP_HARTID_REQUEST :: "u64 list" where
  "LIMINE_RISCV_BSP_HARTID_REQUEST = LIMINE_COMMON_MAGIC @ [0x1369359f025525f9, 0x2ff2a56178391bb6]"

definition struct_limine_riscv_bsp_hartid_response :: "c_config \<Rightarrow> ctype" where
  "struct_limine_riscv_bsp_hartid_response c =
     Struct ''limine_riscv_bsp_hartid_response''
       [(''revision'', U64),
        (''bsp_hartid'', U64)]"

definition struct_limine_riscv_bsp_hartid_request :: "c_config \<Rightarrow> ctype" where
  "struct_limine_riscv_bsp_hartid_request c =
     Struct ''limine_riscv_bsp_hartid_request''
       [(''id'', Array U64 4),
        (''revision'', U64),
        (''response'', LIMINE_PTR c ''struct limine_riscv_bsp_hartid_response *'')]"

definition LIMINE_BOOTLOADER_PERFORMANCE_REQUEST :: "u64 list" where
  "LIMINE_BOOTLOADER_PERFORMANCE_REQUEST = LIMINE_COMMON_MAGIC @ [0x6b50ad9bf36d13ad, 0xdc4c7e88fc759e17]"

definition struct_limine_bootloader_performance_response :: "c_config \<Rightarrow> ctype" where
  "struct_limine_bootloader_performance_response c =
     Struct ''limine_bootloader_performance_response''
       [(''revision'', U64),
        (''reset_usec'', U64),
        (''init_usec'', U64),
        (''exec_usec'', U64)]"

definition struct_limine_bootloader_performance_request :: "c_config \<Rightarrow> ctype" where
  "struct_limine_bootloader_performance_request c =
     Struct ''limine_bootloader_performance_request''
       [(''id'', Array U64 4),
        (''revision'', U64),
        (''response'', LIMINE_PTR c ''struct limine_bootloader_performance_response *'')]"

section \<open>The whole protocol\<close>

text \<open>All structures but those of a processor, whose members depend on the architecture.\<close>

definition common_structs :: "(c_config \<Rightarrow> ctype) list" where
  "common_structs =
     [struct_limine_uuid, struct_limine_file, struct_limine_bootloader_info_response,
      struct_limine_bootloader_info_request, struct_limine_executable_cmdline_response,
      struct_limine_executable_cmdline_request, struct_limine_firmware_type_response,
      struct_limine_firmware_type_request, struct_limine_stack_size_response,
      struct_limine_stack_size_request, struct_limine_hhdm_response, struct_limine_hhdm_request,
      struct_limine_video_mode, struct_limine_framebuffer, struct_limine_framebuffer_response,
      struct_limine_framebuffer_request, struct_limine_terminal, struct_limine_terminal_response,
      struct_limine_terminal_request, struct_limine_paging_mode_response,
      struct_limine_paging_mode_request, struct_limine_5_level_paging_response,
      struct_limine_5_level_paging_request, struct_limine_mp_request, struct_limine_memmap_entry,
      struct_limine_memmap_response, struct_limine_memmap_request,
      struct_limine_entry_point_response, struct_limine_entry_point_request,
      struct_limine_executable_file_response, struct_limine_executable_file_request,
      struct_limine_internal_module, struct_limine_module_response, struct_limine_module_request,
      struct_limine_rsdp_response, struct_limine_rsdp_request, struct_limine_smbios_response,
      struct_limine_smbios_request, struct_limine_efi_system_table_response,
      struct_limine_efi_system_table_request, struct_limine_efi_memmap_response,
      struct_limine_efi_memmap_request, struct_limine_date_at_boot_response,
      struct_limine_date_at_boot_request, struct_limine_executable_address_response,
      struct_limine_executable_address_request, struct_limine_dtb_response,
      struct_limine_dtb_request, struct_limine_riscv_bsp_hartid_response,
      struct_limine_riscv_bsp_hartid_request, struct_limine_bootloader_performance_response,
      struct_limine_bootloader_performance_request]"

text \<open>Every request: its identifier and its structure.\<close>

definition requests :: "(u64 list \<times> (c_config \<Rightarrow> ctype)) list" where
  "requests =
     [(LIMINE_BOOTLOADER_INFO_REQUEST, struct_limine_bootloader_info_request),
      (LIMINE_EXECUTABLE_CMDLINE_REQUEST, struct_limine_executable_cmdline_request),
      (LIMINE_FIRMWARE_TYPE_REQUEST, struct_limine_firmware_type_request),
      (LIMINE_STACK_SIZE_REQUEST, struct_limine_stack_size_request),
      (LIMINE_HHDM_REQUEST, struct_limine_hhdm_request),
      (LIMINE_FRAMEBUFFER_REQUEST, struct_limine_framebuffer_request),
      (LIMINE_TERMINAL_REQUEST, struct_limine_terminal_request),
      (LIMINE_PAGING_MODE_REQUEST, struct_limine_paging_mode_request),
      (LIMINE_5_LEVEL_PAGING_REQUEST, struct_limine_5_level_paging_request),
      (LIMINE_MP_REQUEST, struct_limine_mp_request),
      (LIMINE_MEMMAP_REQUEST, struct_limine_memmap_request),
      (LIMINE_ENTRY_POINT_REQUEST, struct_limine_entry_point_request),
      (LIMINE_EXECUTABLE_FILE_REQUEST, struct_limine_executable_file_request),
      (LIMINE_MODULE_REQUEST, struct_limine_module_request),
      (LIMINE_RSDP_REQUEST, struct_limine_rsdp_request),
      (LIMINE_SMBIOS_REQUEST, struct_limine_smbios_request),
      (LIMINE_EFI_SYSTEM_TABLE_REQUEST, struct_limine_efi_system_table_request),
      (LIMINE_EFI_MEMMAP_REQUEST, struct_limine_efi_memmap_request),
      (LIMINE_DATE_AT_BOOT_REQUEST, struct_limine_date_at_boot_request),
      (LIMINE_EXECUTABLE_ADDRESS_REQUEST, struct_limine_executable_address_request),
      (LIMINE_DTB_REQUEST, struct_limine_dtb_request),
      (LIMINE_RISCV_BSP_HARTID_REQUEST, struct_limine_riscv_bsp_hartid_request),
      (LIMINE_BOOTLOADER_PERFORMANCE_REQUEST, struct_limine_bootloader_performance_request)]"

lemmas struct_defs =
  struct_limine_uuid_def struct_limine_file_def struct_limine_bootloader_info_response_def
  struct_limine_bootloader_info_request_def struct_limine_executable_cmdline_response_def
  struct_limine_executable_cmdline_request_def struct_limine_firmware_type_response_def
  struct_limine_firmware_type_request_def struct_limine_stack_size_response_def
  struct_limine_stack_size_request_def struct_limine_hhdm_response_def
  struct_limine_hhdm_request_def struct_limine_video_mode_def struct_limine_framebuffer_def
  struct_limine_framebuffer_response_def struct_limine_framebuffer_request_def
  struct_limine_terminal_def struct_limine_terminal_response_def
  struct_limine_terminal_request_def struct_limine_paging_mode_response_def
  struct_limine_paging_mode_request_def struct_limine_5_level_paging_response_def
  struct_limine_5_level_paging_request_def struct_limine_mp_info_x86_def
  struct_limine_mp_response_x86_def struct_limine_mp_info_aarch64_def
  struct_limine_mp_response_aarch64_def struct_limine_mp_info_riscv64_def
  struct_limine_mp_response_riscv64_def struct_limine_mp_info_loongarch64_def
  struct_limine_mp_response_loongarch64_def struct_limine_mp_request_def
  struct_limine_memmap_entry_def struct_limine_memmap_response_def
  struct_limine_memmap_request_def struct_limine_entry_point_response_def
  struct_limine_entry_point_request_def struct_limine_executable_file_response_def
  struct_limine_executable_file_request_def struct_limine_internal_module_def
  struct_limine_module_response_def struct_limine_module_request_def
  struct_limine_rsdp_response_def struct_limine_rsdp_request_def
  struct_limine_smbios_response_def struct_limine_smbios_request_def
  struct_limine_efi_system_table_response_def struct_limine_efi_system_table_request_def
  struct_limine_efi_memmap_response_def struct_limine_efi_memmap_request_def
  struct_limine_date_at_boot_response_def struct_limine_date_at_boot_request_def
  struct_limine_executable_address_response_def struct_limine_executable_address_request_def
  struct_limine_dtb_response_def struct_limine_dtb_request_def
  struct_limine_riscv_bsp_hartid_response_def struct_limine_riscv_bsp_hartid_request_def
  struct_limine_bootloader_performance_response_def
  struct_limine_bootloader_performance_request_def struct_limine_mp_info_def
  struct_limine_mp_response_def

lemmas request_ids =
  LIMINE_BOOTLOADER_INFO_REQUEST_def LIMINE_EXECUTABLE_CMDLINE_REQUEST_def
  LIMINE_FIRMWARE_TYPE_REQUEST_def LIMINE_STACK_SIZE_REQUEST_def LIMINE_HHDM_REQUEST_def
  LIMINE_FRAMEBUFFER_REQUEST_def LIMINE_TERMINAL_REQUEST_def LIMINE_PAGING_MODE_REQUEST_def
  LIMINE_5_LEVEL_PAGING_REQUEST_def LIMINE_MP_REQUEST_def LIMINE_MEMMAP_REQUEST_def
  LIMINE_ENTRY_POINT_REQUEST_def LIMINE_EXECUTABLE_FILE_REQUEST_def LIMINE_MODULE_REQUEST_def
  LIMINE_RSDP_REQUEST_def LIMINE_SMBIOS_REQUEST_def LIMINE_EFI_SYSTEM_TABLE_REQUEST_def
  LIMINE_EFI_MEMMAP_REQUEST_def LIMINE_DATE_AT_BOOT_REQUEST_def
  LIMINE_EXECUTABLE_ADDRESS_REQUEST_def LIMINE_DTB_REQUEST_def
  LIMINE_RISCV_BSP_HARTID_REQUEST_def LIMINE_BOOTLOADER_PERFORMANCE_REQUEST_def

section \<open>Codes\<close>

definition media_types :: "u32 list" where
  "media_types = [0, 1, 2]"

definition firmware_types :: "u64 list" where
  "firmware_types = [0, 1, 2, 3]"

definition terminal_callbacks :: "u64 list" where
  "terminal_callbacks = [10, 20, 30, 40, 50, 60, 70, 80]"

text \<open>The lengths with which \<open>limine_terminal_write\<close> is asked for something else than to write.\<close>

definition terminal_commands :: "u64 list" where
  "terminal_commands = [- 1, - 2, - 3, - 4, - 10, - 11]"

definition terminal_oob_flags :: "u64 list" where
  "terminal_oob_flags = map (\<lambda>i. push_bit i 1) [0, 1, 2, 3, 4, 5, 6, 7]"

text \<open>Number of paging modes, and which is the default; the least is 0 everywhere.\<close>

fun paging_modes :: "arch \<Rightarrow> nat \<times> nat" where
  "paging_modes X86_64 = (2, 0)"
| "paging_modes I386 = (2, 0)"
| "paging_modes AARCH64 = (2, 0)"
| "paging_modes RISCV64 = (3, 1)"
| "paging_modes LOONGARCH64 = (1, 0)"

definition internal_module_flags :: "u64 list" where
  "internal_module_flags = map (\<lambda>i. push_bit i 1) [0, 1]"

lemma codes_distinct: "distinct media_types" "distinct firmware_types" "distinct terminal_callbacks"
    "distinct terminal_commands" "distinct terminal_oob_flags" "distinct internal_module_flags"
  by (simp_all add: media_types_def firmware_types_def terminal_callbacks_def terminal_commands_def
      terminal_oob_flags_def internal_module_flags_def)

lemma paging_default: "snd (paging_modes a) < fst (paging_modes a)"
  by (cases a) simp_all

section \<open>The layout\<close>

text \<open>Configurations in which a pointer of the protocol takes eight bytes.\<close>

definition wide :: "c_config \<Rightarrow> bool" where
  "wide c \<longleftrightarrow> cc_no_pointers c \<or> cc_arch c \<noteq> I386"

text \<open>The kernel's side: x86-64 with pointers, and the names of revision 0 as in \<open>Limine_Proto\<close>.\<close>

definition kernel_config :: c_config where
  "kernel_config = \<lparr>cc_arch = X86_64, cc_api_revision = 0, cc_no_pointers = False\<rparr>"

lemma wide_ptr [layout_simps]:
  "wide c \<Longrightarrow> type_layout (cc_arch c) (LIMINE_PTR c t) = (8, u64_align (cc_arch c))"
  "wide c \<Longrightarrow> scalars (cc_arch c) (LIMINE_PTR c t) = [(0, 8)]"
  by (auto simp: wide_def LIMINE_PTR_def pointer_size_def u64_align_def)

lemma kernel_ptr [layout_simps]:
  "type_layout X86_64 (LIMINE_PTR kernel_config t) = (8, 8)"
  "scalars X86_64 (LIMINE_PTR kernel_config t) = [(0, 8)]"
  "u64_align X86_64 = 8"
  by (simp_all add: LIMINE_PTR_def pointer_size_def u64_align_def kernel_config_def)

lemma u64_align_cases:
  obtains "u64_align a = 4" | "u64_align a = 8"
  by (cases "a = I386") (auto simp: u64_align_def)

lemma if_snd [layout_simps]: "snd (if b then x else y) = (if b then snd x else snd y)"
  by simp

lemma upt_array [layout_simps]: "[0..<4] = [0, 1, 2, 3]" "[0..<7] = [0, 1, 2, 3, 4, 5, 6]"
    "[0..<8] = [0, 1, 2, 3, 4, 5, 6, 7]"
  by (simp_all add: upt_rec)

lemmas eval_layout = layout_simps shift_def struct_align_def pad_to_def Let_def sizeof_def

lemma common_layout:
  assumes "wide c"
  shows "list_all (\<lambda>s. scalars (cc_arch c) (s c) = scalars X86_64 (s kernel_config)) common_structs"
  using u64_align_cases [of "cc_arch c"]
proof cases
  case 1
  with assms show ?thesis by (simp add: common_structs_def struct_defs eval_layout)
next
  case 2
  with assms show ?thesis by (simp add: common_structs_def struct_defs eval_layout)
qed

text \<open>The architectures that share the structures of a processor.\<close>

definition mp_arch :: "arch \<Rightarrow> arch" where
  "mp_arch a = (if a = I386 then X86_64 else a)"

definition mp_structs :: "(c_config \<Rightarrow> ctype) list" where
  "mp_structs = [struct_limine_mp_info, struct_limine_mp_response]"

lemma mp_info_places:
  "wide c \<Longrightarrow> scalars (cc_arch c) (struct_limine_mp_info c) =
     (case mp_arch (cc_arch c) of
        X86_64 \<Rightarrow> [(0, 4), (4, 4), (8, 8), (16, 8), (24, 8)]
      | AARCH64 \<Rightarrow> [(0, 4), (4, 4), (8, 8), (16, 8), (24, 8), (32, 8)]
      | RISCV64 \<Rightarrow> [(0, 8), (8, 8), (16, 8), (24, 8), (32, 8)]
      | LOONGARCH64 \<Rightarrow> [(0, 8)])"
  using wide_ptr [of c] by (cases "cc_arch c")
    (simp_all add: mp_arch_def struct_defs shift_def pad_to_def u64_align_def)

lemma mp_response_places:
  "wide c \<Longrightarrow> scalars (cc_arch c) (struct_limine_mp_response c) =
     (case mp_arch (cc_arch c) of
        X86_64 \<Rightarrow> [(0, 8), (8, 4), (12, 4), (16, 8), (24, 8)]
      | AARCH64 \<Rightarrow> [(0, 8), (8, 8), (16, 8), (24, 8), (32, 8)]
      | RISCV64 \<Rightarrow> [(0, 8), (8, 8), (16, 8), (24, 8), (32, 8)]
      | LOONGARCH64 \<Rightarrow> [(0, 8), (8, 8)])"
  using wide_ptr [of c] by (cases "cc_arch c")
    (simp_all add: mp_arch_def struct_defs shift_def pad_to_def u64_align_def)

lemma mp_layout:
  assumes "wide c" "wide c'" "mp_arch (cc_arch c) = mp_arch (cc_arch c')" "s \<in> set mp_structs"
  shows "scalars (cc_arch c) (s c) = scalars (cc_arch c') (s c')"
  using assms by (auto simp: mp_structs_def mp_info_places mp_response_places)

text \<open>The structures that programs compiled as \<open>c\<close> and as \<open>c'\<close> can exchange.\<close>

definition exchangeable :: "c_config \<Rightarrow> c_config \<Rightarrow> (c_config \<Rightarrow> ctype) \<Rightarrow> bool" where
  "exchangeable c c' s \<longleftrightarrow> wide c \<and> wide c' \<and>
     (s \<in> set common_structs \<or> s \<in> set mp_structs \<and> mp_arch (cc_arch c) = mp_arch (cc_arch c'))"

lemma exchangeable_layout: "exchangeable c c' s \<Longrightarrow> scalars (cc_arch c) (s c) = scalars (cc_arch c') (s c')"
  using common_layout [of c] common_layout [of c'] mp_layout [of c c' s]
  by (auto simp: exchangeable_def list_all_iff)

lemma load_value_cong: "scalars a t = scalars a' t' \<Longrightarrow> load_value a t mem k = load_value a' t' mem k"
  by (simp add: load_value_def)

text \<open>With pointers of four bytes the places differ: the stack size of a request is one example.\<close>

lemma narrow_layout_differs:
  defines "c \<equiv> \<lparr>cc_arch = I386, cc_api_revision = 0, cc_no_pointers = False\<rparr>"
  shows "offset_of (cc_arch c) (struct_limine_stack_size_request c) ''stack_size'' = Some 44 \<and>
    offset_of X86_64 (struct_limine_stack_size_request kernel_config) ''stack_size'' = Some 48"
  by (simp add: c_def kernel_config_def struct_limine_stack_size_request_def eval_layout LIMINE_PTR_def u64_align_def pointer_size_def)

section \<open>Requests\<close>

lemma requests_ids:
  "distinct (map fst requests)"
  "list_all (\<lambda>r. length (fst r) = 4 \<and> take 2 (fst r) = LIMINE_COMMON_MAGIC) requests"
  by (simp_all add: requests_def request_ids LIMINE_COMMON_MAGIC_def)

text \<open>What the boot loader relies on before it knows the request.\<close>

definition request_header :: "arch \<Rightarrow> ctype \<Rightarrow> bool" where
  "request_header a t \<longleftrightarrow> offset_of a t ''id'' = Some 0 \<and> offset_of a t ''revision'' = Some 32 \<and>
     offset_of a t ''response'' = Some 40 \<and> take 6 (scalars a t) = [(0, 8), (8, 8), (16, 8), (24, 8), (32, 8), (40, 8)] \<and> 48 \<le> sizeof a t"

lemma requests_headers:
  assumes "wide c"
  shows "list_all (\<lambda>r. request_header (cc_arch c) (snd r c)) requests"
  using u64_align_cases [of "cc_arch c"]
proof cases
  case 1
  with assms show ?thesis by (simp add: requests_def request_header_def struct_defs eval_layout)
next
  case 2
  with assms show ?thesis by (simp add: requests_def request_header_def struct_defs eval_layout)
qed

section \<open>Properties\<close>

text \<open>The record of the kernel for an entry of the memory map, and its scalars.\<close>

definition memmap_entry_values :: "limine_memmap_entry \<Rightarrow> nat list" where
  "memmap_entry_values e = [unat (me_base e), unat (me_length e), unat (me_type e)]"

definition memmap_entry_of :: "nat list \<Rightarrow> limine_memmap_entry" where
  "memmap_entry_of vs = \<lparr>me_base = of_nat (vs ! 0), me_length = of_nat (vs ! 1), me_type = of_nat (vs ! 2)\<rparr>"

lemma memmap_entry_roundtrip: "memmap_entry_of (memmap_entry_values e) = e"
  by (simp add: memmap_entry_of_def memmap_entry_values_def)

lemma memmap_entry_fits: "fits a (struct_limine_memmap_entry c) (memmap_entry_values e)"
  using unsigned_less [of "me_base e", where 'a = nat] unsigned_less [of "me_length e", where 'a = nat]
    unsigned_less [of "me_type e", where 'a = nat]
  by (simp add: fits_def struct_limine_memmap_entry_def memmap_entry_values_def shift_def)

text \<open>The memory map that the boot loader stores is the one the kernel's allocator is built from.\<close>

lemma memmap_entry_exchange:
  assumes "wide c" "base + sizeof (cc_arch c) (struct_limine_memmap_entry c) \<le> length mem"
  shows "memmap_entry_of (load_value X86_64 (struct_limine_memmap_entry kernel_config)
    (store_value (cc_arch c) (struct_limine_memmap_entry c) (memmap_entry_values e) mem base) base) = e"
proof -
  have "scalars (cc_arch c) (struct_limine_memmap_entry c) = scalars X86_64 (struct_limine_memmap_entry kernel_config)"
    using common_layout [OF assms(1)] by (simp add: list_all_iff common_structs_def)
  from load_value_cong [OF this] load_store_value [OF memmap_entry_fits assms(2)] memmap_entry_roundtrip
  show ?thesis by simp
qed

text \<open>
  A whole memory map in memory, as a program compiled as \<open>c\<close> reads it: the response, the array of pointers
  behind it, and the entry at each pointer.
\<close>

definition load_memmap :: "c_config \<Rightarrow> u8 list \<Rightarrow> nat \<Rightarrow> limine_memmap_response" where
  "load_memmap c mem address =
     (let response = load_value (cc_arch c) (struct_limine_memmap_response c) mem address;
          entry_count = response ! 1; entries = response ! 2;
          load_entry = (\<lambda>i.
            let p = load_value (cc_arch c) (LIMINE_PTR c ''struct limine_memmap_entry *'') mem
                      (entries + i * sizeof (cc_arch c) (LIMINE_PTR c ''struct limine_memmap_entry *'')) ! 0
            in memmap_entry_of (load_value (cc_arch c) (struct_limine_memmap_entry c) mem p))
      in \<lparr>mr_revision = of_nat (response ! 0), mr_entries = map load_entry [0..<entry_count]\<rparr>)"

lemma load_memmap_same:
  assumes "wide c"
  shows "load_memmap c mem address = load_memmap kernel_config mem address"
proof -
  have k: "cc_arch kernel_config = X86_64" by (simp add: kernel_config_def)
  have "load_value (cc_arch c) (s c) m a = load_value X86_64 (s kernel_config) m a" if "s \<in> set common_structs" for s m a
    using common_layout [OF assms] that by (intro load_value_cong) (simp add: list_all_iff)
  moreover have "load_value (cc_arch c) (LIMINE_PTR c t) m a = load_value X86_64 (LIMINE_PTR kernel_config t) m a" for t m a
    by (intro load_value_cong) (simp add: wide_ptr [OF assms] kernel_ptr)
  moreover have "sizeof (cc_arch c) (LIMINE_PTR c t) = sizeof X86_64 (LIMINE_PTR kernel_config t)" for t
    by (simp add: sizeof_def wide_ptr [OF assms] kernel_ptr)
  ultimately show ?thesis
    by (simp add: load_memmap_def k common_structs_def)
qed



text \<open>C38: The boot loader can tell every request before it knows which one it is: each has an identifier of
  four words that starts with the common magic, no two have the same, and every structure of a request has the identifier,
  the revision and the response at offsets 0, 32 and 40.\<close>

theorem requests_recognised:
  assumes "(i, s) \<in> set requests" "(i', s') \<in> set requests" "wide c"
  shows "length i = 4 \<and> take 2 i = LIMINE_COMMON_MAGIC \<and> request_header (cc_arch c) (s c) \<and> (i = i' \<longrightarrow> s = s')"
  using assms(1,2) requests_ids requests_headers [OF assms(3)] eq_key_imp_eq_value [of requests i s s']
  by (auto simp: list_all_iff)

theorem requests_recognised_witness:
  "length LIMINE_MEMMAP_REQUEST = 4 \<and> request_header X86_64 (struct_limine_memmap_request kernel_config)"
  using requests_recognised [of LIMINE_MEMMAP_REQUEST struct_limine_memmap_request
      LIMINE_MEMMAP_REQUEST struct_limine_memmap_request kernel_config]
  by (simp add: requests_def wide_def kernel_config_def)

end
