(* ===== verification/Cell_Harness.thy ===== *)
theory Cell_Harness
  imports Spsc_Concurrent Cell_Supervisor
begin

text \<open>
  The simulation harness (\<open>tests/simulation_harness/tests\<close>): its pipeline of two queues, a worker and a
  supervisor, its queue test and its stress test of two threads, as programs over the models of the crates.
  A failed \<open>assert!\<close> or \<open>expect\<close> is a panic. The pipeline is shown to do its job for any packets that
  fit its queues; that the tests of the repository pass is an instance.
\<close>

section \<open>The worker\<close>

definition INGRESS :: u16 where "INGRESS = 1"
definition WORKER :: u16 where "WORKER = 3"

record worker =
  wk_processed :: usize
  wk_reset_count :: usize

definition increment :: "'a::len word \<Rightarrow> 'a word res" where
  "increment n = (case checked_add n 1 of None \<Rightarrow> Inl ArithmeticOverflow | Some m \<Rightarrow> Inr m)"

definition worker_process :: "worker \<Rightarrow> validated_payload \<Rightarrow> (worker \<times> (work_result + work_result)) res" where
  "worker_process w item =
     res_bind (validated_payload_as_bytes item) (\<lambda>bytes.
       if bytes \<noteq> [] \<and> hd bytes = 0xff then Inr (w, Inl (Failed (vp_context item) WORKER ''fault-injected payload''))
       else res_bind (increment (wk_processed w)) (\<lambda>n.
         Inr (w\<lparr>wk_processed := n\<rparr>, Inr (Completed (vp_context item)))))"

definition worker_reset_state :: "worker \<Rightarrow> worker res" where
  "worker_reset_state w = res_bind (increment (wk_reset_count w)) (\<lambda>n. Inr (w\<lparr>wk_reset_count := n\<rparr>))"

definition worker_module :: "(worker, validated_payload, work_result) kernel_module" where
  "worker_module = \<lparr>km_process = worker_process, km_reset_state = worker_reset_state\<rparr>"

section \<open>The pipeline\<close>

text \<open>\<open>expect\<close> on the result of a push, and \<open>assert!\<close>.\<close>

definition expect_pushed :: "((queue_full + unit) \<times> 'q) res \<Rightarrow> 'q res" where
  "expect_pushed r = res_bind r (\<lambda>(r, q). case r of Inl QueueFull \<Rightarrow> Inl AssertFailed | Inr _ \<Rightarrow> Inr q)"

definition check :: "bool \<Rightarrow> unit res" where
  "check b = (if b then Inr () else Inl AssertFailed)"

text \<open>The packets: \<open>fault\<close> is the trace whose only byte is replaced by \<open>0xff\<close>.\<close>

definition packet_byte :: "u64 \<Rightarrow> u64 \<Rightarrow> u8" where
  "packet_byte fault tid = (if tid = fault then 0xff else ucast tid)"

fun ingress_loop :: "usize \<Rightarrow> u64 \<Rightarrow> raw_payload spsc_queue \<Rightarrow> u64 list \<Rightarrow> raw_payload spsc_queue res" where
  "ingress_loop CAP fault q [] = Inr q"
| "ingress_loop CAP fault q (tid # ids) =
     (case checked_add 1000 tid of
        None \<Rightarrow> Inl ArithmeticOverflow
      | Some ts \<Rightarrow>
          (case raw_payload_new (trace_context_new tid ts INGRESS) [packet_byte fault tid] of
             Inl _ \<Rightarrow> Inl AssertFailed
           | Inr raw \<Rightarrow> res_bind (expect_pushed (push_inner CAP q raw)) (\<lambda>q. ingress_loop CAP fault q ids)))"

function validator_loop ::
    "usize \<Rightarrow> validator_capability \<Rightarrow> raw_payload spsc_queue \<Rightarrow> validated_payload spsc_queue \<Rightarrow>
     validated_payload spsc_queue res" where
  "validator_loop CAP verifier q q2 =
     (case pop_inner CAP q of
        Inl e \<Rightarrow> Inl e
      | Inr (None, q) \<Rightarrow> Inr q2
      | Inr (Some raw, q) \<Rightarrow>
          res_bind (check (origin_node (rp_context raw) = INGRESS)) (\<lambda>_.
          res_bind (expect_pushed (push_inner CAP q2 (raw_payload_validate raw verifier))) (\<lambda>q2.
            validator_loop CAP verifier q q2)))"
  by pat_completeness auto
termination
  by (relation "measure (\<lambda>(CAP, v, q, q2). unat (sq_head q - sq_tail q))") (auto dest: pop_inner_decreases)

declare validator_loop.simps [simp del]

text \<open>\<open>failures\<close> is an \<open>i32\<close>, Rust's type for an integer without one.\<close>

record test_state =
  ts_failures :: int
  ts_worker :: worker
  ts_supervisor :: supervisor

definition handle_failure :: "usize \<Rightarrow> test_state \<Rightarrow> work_result \<Rightarrow> test_state res" where
  "handle_failure CAP t failure =
     (if ts_failures t + 1 \<ge> 2 ^ 31 then Inl ArithmeticOverflow
      else res_bind (observe CAP (ts_supervisor t) failure) (\<lambda>(record, sup).
           res_bind (check (record \<noteq> None)) (\<lambda>_.
           res_bind (reset_failed_node worker_module (ts_worker t) failure) (\<lambda>(reset, w).
           res_bind (check reset) (\<lambda>_.
             Inr \<lparr>ts_failures = ts_failures t + 1, ts_worker = w, ts_supervisor = sup\<rparr>)))))"

function worker_loop :: "usize \<Rightarrow> validated_payload spsc_queue \<Rightarrow> test_state \<Rightarrow> test_state res" where
  "worker_loop CAP q t =
     (case pop_inner CAP q of
        Inl e \<Rightarrow> Inl e
      | Inr (None, q) \<Rightarrow> Inr t
      | Inr (Some validated, q) \<Rightarrow>
          res_bind (km_process worker_module (ts_worker t) validated) (\<lambda>(w, r).
            case r of
              Inr (Completed _) \<Rightarrow> worker_loop CAP q (t\<lparr>ts_worker := w\<rparr>)
            | Inr (Failed _ _ _) \<Rightarrow> Inl AssertFailed
            | Inl failure \<Rightarrow>
                res_bind (handle_failure CAP (t\<lparr>ts_worker := w\<rparr>) failure) (\<lambda>t. worker_loop CAP q t)))"
  by pat_completeness auto
termination
  by (relation "measure (\<lambda>(CAP, q, t). unat (sq_head q - sq_tail q))") (auto dest: pop_inner_decreases)

declare worker_loop.simps [simp del]

definition run_pipeline :: "usize \<Rightarrow> u64 \<Rightarrow> u64 list \<Rightarrow> test_state res" where
  "run_pipeline CAP fault ids =
     res_bind (ingress_loop CAP fault (spsc_new CAP) ids) (\<lambda>q.
     res_bind (validator_loop CAP (validator_capability_new 0xCE112021) q (spsc_new CAP)) (\<lambda>q2.
       worker_loop CAP q2 \<lparr>ts_failures = 0, ts_worker = \<lparr>wk_processed = 0, wk_reset_count = 0\<rparr>,
         ts_supervisor = supervisor_new CAP\<rparr>))"

definition pipeline_survives_one_fault_in_ten_packets :: "unit res" where
  "pipeline_survives_one_fault_in_ten_packets =
     res_bind (run_pipeline 10 4 (map of_nat [0..<10])) (\<lambda>t.
     res_bind (check (ts_failures t = 1)) (\<lambda>_.
     res_bind (check (wk_processed (ts_worker t) = 9)) (\<lambda>_.
     res_bind (check (wk_reset_count (ts_worker t) = 1)) (\<lambda>_.
     res_bind (find_trace (ts_supervisor t) 4) (\<lambda>found.
       case found of
         None \<Rightarrow> Inl AssertFailed
       | Some record \<Rightarrow>
           res_bind (check (fr_node_id record = WORKER)) (\<lambda>_.
           res_bind (check (origin_node (fr_context record) = INGRESS)) (\<lambda>_.
             check (fr_reason record = ''fault-injected payload''))))))))"

definition queue_is_bounded_and_non_blocking :: "unit res" where
  "queue_is_bounded_and_non_blocking =
     res_bind (q_run (push_inner 2) (pop_inner 2) (spsc_new 2)
       [Push 10, Push 20, Push 30, Pop, Push 30, Pop, Pop, Pop :: u32 q_op]) (\<lambda>(outs, _).
         check (outs = [Pushed, Pushed, Full, Popped 10, Pushed, Popped 20, Popped 30, Empty]))"

section \<open>What the loops do\<close>

definition packet :: "u64 \<Rightarrow> u64 \<Rightarrow> raw_payload" where
  "packet fault tid = \<lparr>rp_context = trace_context_new tid (1000 + tid) INGRESS,
     rp_data = packet_byte fault tid # replicate 511 0, rp_len = 1\<rparr>"

definition faulty :: "u64 \<Rightarrow> u64 \<Rightarrow> bool" where
  "faulty fault tid \<longleftrightarrow> packet_byte fault tid = 0xff"

definition failure_of :: "u64 \<Rightarrow> failure_record" where
  "failure_of tid = \<lparr>fr_context = trace_context_new tid (1000 + tid) INGRESS, fr_node_id = WORKER,
     fr_reason = ''fault-injected payload''\<rparr>"

lemma expect_pushed_room:
  assumes "unwrapped CAP q" "length (spsc_contents CAP q) < unat CAP" "unat (sq_head q) + 1 < 2 ^ 64"
  obtains q' where "expect_pushed (push_inner CAP q x) = Inr q'" "unwrapped CAP q'"
    "spsc_contents CAP q' = spsc_contents CAP q @ [x]" "unat (sq_head q') = Suc (unat (sq_head q))"
  using unwrapped_push [OF assms, of x] by (auto simp: expect_pushed_def)

lemma raw_payload_new_packet:
  "raw_payload_new (trace_context_new tid (1000 + tid) INGRESS) [packet_byte fault tid] = Inr (packet fault tid)"
  by (simp add: raw_payload_new_Inr packet_def)

lemma packet_validates:
  "validated_payload_as_bytes (raw_payload_validate (packet fault tid) v) = Inr [packet_byte fault tid]"
  by (simp add: packet_def raw_payload_validate_def validated_payload_as_bytes_def)

lemma ingress_loop_spec:
  "unwrapped CAP q \<Longrightarrow> length (spsc_contents CAP q) + length ids \<le> unat CAP \<Longrightarrow>
   unat (sq_head q) + length ids < 2 ^ 64 \<Longrightarrow> \<forall>tid \<in> set ids. 1000 + unat tid < 2 ^ 64 \<Longrightarrow>
   \<exists>q'. ingress_loop CAP fault q ids = Inr q' \<and> unwrapped CAP q' \<and>
     spsc_contents CAP q' = spsc_contents CAP q @ map (packet fault) ids"
proof (induction ids arbitrary: q)
  case Nil
  then show ?case by simp
next
  case (Cons tid ids)
  have room: "length (spsc_contents CAP q) < unat CAP" "unat (sq_head q) + 1 < 2 ^ 64"
    using Cons.prems by simp_all
  obtain q1 where q1: "expect_pushed (push_inner CAP q (packet fault tid)) = Inr q1" "unwrapped CAP q1"
      "spsc_contents CAP q1 = spsc_contents CAP q @ [packet fault tid]" "unat (sq_head q1) = Suc (unat (sq_head q))"
    using expect_pushed_room [OF Cons.prems(1) room] .
  have len: "length (spsc_contents CAP q1) = Suc (length (spsc_contents CAP q))"
    by (simp only: q1(3) length_append_singleton)
  have "\<exists>q'. ingress_loop CAP fault q1 ids = Inr q' \<and> unwrapped CAP q' \<and>
      spsc_contents CAP q' = spsc_contents CAP q1 @ map (packet fault) ids"
    using Cons.prems(2-4) by (intro Cons.IH [OF q1(2)]) (simp_all add: len q1(4) del: length_spsc_contents)
  moreover have "checked_add 1000 tid = Some (1000 + tid)"
    using Cons.prems(4) by (simp add: checked_add_def)
  ultimately show ?case
    using q1(1,3) by (auto simp: raw_payload_new_packet)
qed

lemma validator_loop_spec:
  "unwrapped CAP q \<Longrightarrow> unwrapped CAP q2 \<Longrightarrow> spsc_contents CAP q = map (packet fault) ids \<Longrightarrow>
   length (spsc_contents CAP q2) + length ids \<le> unat CAP \<Longrightarrow> unat (sq_head q2) + length ids < 2 ^ 64 \<Longrightarrow>
   \<exists>q'. validator_loop CAP v q q2 = Inr q' \<and> unwrapped CAP q' \<and>
     spsc_contents CAP q' = spsc_contents CAP q2 @ map (\<lambda>tid. raw_payload_validate (packet fault tid) v) ids"
proof (induction ids arbitrary: q q2)
  case Nil
  then show ?case
    by (subst validator_loop.simps) (simp add: pop_inner_nil unwrapped_def)
next
  case (Cons tid ids)
  let ?x = "raw_payload_validate (packet fault tid) v"
  have cons: "spsc_contents CAP q = packet fault tid # map (packet fault) ids" using Cons.prems(3) by simp
  obtain q1 where q1: "pop_inner CAP q = Inr (Some (packet fault tid), q1)" "unwrapped CAP q1"
      "spsc_contents CAP q1 = map (packet fault) ids"
    using unwrapped_pop [OF Cons.prems(1) cons] by blast
  have room: "length (spsc_contents CAP q2) < unat CAP" "unat (sq_head q2) + 1 < 2 ^ 64"
    using Cons.prems(4,5) by simp_all
  obtain q3 where q3: "expect_pushed (push_inner CAP q2 ?x) = Inr q3" "unwrapped CAP q3"
      "spsc_contents CAP q3 = spsc_contents CAP q2 @ [?x]" "unat (sq_head q3) = Suc (unat (sq_head q2))"
    using expect_pushed_room [OF Cons.prems(2) room] .
  have len: "length (spsc_contents CAP q3) = Suc (length (spsc_contents CAP q2))"
    by (simp only: q3(3) length_append_singleton)
  have "\<exists>q'. validator_loop CAP v q1 q3 = Inr q' \<and> unwrapped CAP q' \<and>
      spsc_contents CAP q' = spsc_contents CAP q3 @ map (\<lambda>tid. raw_payload_validate (packet fault tid) v) ids"
    using Cons.prems(4,5) by (intro Cons.IH [OF q1(2) q3(2) q1(3)]) (simp_all add: len q3(4) del: length_spsc_contents)
  moreover have "origin_node (rp_context (packet fault tid)) = INGRESS"
    by (simp add: packet_def trace_context_new_def)
  ultimately show ?case
    using q1(1) q3(1,3) by (subst validator_loop.simps) (auto simp: check_def)
qed

lemma increment_Inr: "unat (n :: 'a::len word) + 1 < 2 ^ LENGTH('a) \<Longrightarrow> increment n = Inr (n + 1)"
  by (cases "LENGTH('a) = 1") (auto simp: increment_def checked_add_def)

text \<open>The state of the test after the packets \<open>ids\<close>.\<close>

definition test_state_ok :: "usize \<Rightarrow> u64 \<Rightarrow> u64 list \<Rightarrow> test_state \<Rightarrow> bool" where
  "test_state_ok CAP fault ids t \<longleftrightarrow>
     ts_failures t = int (length (filter (faulty fault) ids)) \<and>
     unat (wk_reset_count (ts_worker t)) = length (filter (faulty fault) ids) \<and>
     unat (wk_processed (ts_worker t)) = length (filter (\<lambda>tid. \<not> faulty fault tid) ids) \<and>
     supervisor_ok CAP (ts_supervisor t) \<and>
     supervisor_log (ts_supervisor t) = take (unat CAP) (map failure_of (filter (faulty fault) ids))"

lemma worker_step:
  assumes ok: "test_state_ok CAP fault seen t" and few: "length seen + 1 < 2 ^ 31"
    and x: "x = raw_payload_validate (packet fault tid) v"
  obtains w r t' where "km_process worker_module (ts_worker t) x = Inr (w, r)" "test_state_ok CAP fault (seen @ [tid]) t'"
    "case r of Inl failure \<Rightarrow> handle_failure CAP (t\<lparr>ts_worker := w\<rparr>) failure = Inr t'
     | Inr (Completed _) \<Rightarrow> t' = t\<lparr>ts_worker := w\<rparr> | Inr (Failed _ _ _) \<Rightarrow> False"
proof -
  let ?f = "length (filter (faulty fault) seen)" and ?n = "length (filter (\<lambda>tid. \<not> faulty fault tid) seen)"
  note d = ok [unfolded test_state_ok_def]
  have small: "?f + 1 < 2 ^ 31" "?n + 1 < 2 ^ 31"
    using few length_filter_le [of "faulty fault" seen] length_filter_le [of "\<lambda>tid. \<not> faulty fault tid" seen] by linarith+
  have bytes: "validated_payload_as_bytes x = Inr [packet_byte fault tid]" and ctx: "vp_context x = fr_context (failure_of tid)"
    by (simp_all only: x packet_validates) (simp add: raw_payload_validate_def packet_def failure_of_def)
  show thesis
  proof (cases "faulty fault tid")
    case True
    let ?r = "Failed (fr_context (failure_of tid)) WORKER ''fault-injected payload''"
    have p: "km_process worker_module (ts_worker t) x = Inr (ts_worker t, Inl ?r)"
      using True by (simp add: worker_module_def worker_process_def bytes ctx faulty_def)
    have rec: "record_of ?r = Some (failure_of tid)" by (simp add: failure_of_def)
    obtain sup where sup: "observe CAP (ts_supervisor t) ?r = Inr (Some (failure_of tid), sup)" "supervisor_ok CAP sup"
        "supervisor_log sup = take (unat CAP) (supervisor_log (ts_supervisor t) @ [failure_of tid])"
      using sv_log.obs_log [of CAP "ts_supervisor t" ?r] d unfolding rec option.case by blast
    have log: "supervisor_log sup = take (unat CAP) (map failure_of (filter (faulty fault) (seen @ [tid])))"
      using sup(3) d True by (simp only: take_take_append) (simp del: take_append)
    have inc: "unat (wk_reset_count (ts_worker t)) + 1 < 2 ^ 64" using d small by simp
    let ?t = "\<lparr>ts_failures = ts_failures t + 1,
      ts_worker = (ts_worker t)\<lparr>wk_reset_count := wk_reset_count (ts_worker t) + 1\<rparr>, ts_supervisor = sup\<rparr>"
    have "t\<lparr>ts_worker := ts_worker t\<rparr> = t" by simp
    then have h: "handle_failure CAP (t\<lparr>ts_worker := ts_worker t\<rparr>) ?r = Inr ?t"
      using d small inc by (simp add: handle_failure_def sup(1) check_def worker_module_def worker_reset_state_def increment_Inr del: observe.simps)
    have "test_state_ok CAP fault (seen @ [tid]) ?t"
      using d True sup(2) log inc by (simp add: test_state_ok_def unat_add_no_wrap del: take_append)
    from that [OF p this] h show thesis by (simp only: sum.case)
  next
    case False
    have inc: "unat (wk_processed (ts_worker t)) + 1 < 2 ^ 64" using d small by simp
    let ?w = "(ts_worker t)\<lparr>wk_processed := wk_processed (ts_worker t) + 1\<rparr>"
    have p: "km_process worker_module (ts_worker t) x = Inr (?w, Inr (Completed (vp_context x)))"
      using False inc by (simp add: worker_module_def worker_process_def bytes faulty_def increment_Inr)
    have "test_state_ok CAP fault (seen @ [tid]) (t\<lparr>ts_worker := ?w\<rparr>)"
      using d False inc by (simp add: test_state_ok_def unat_add_no_wrap)
    from that [OF p this] show thesis by (simp only: sum.case work_result.case)
  qed
qed

lemma worker_loop_spec:
  "unwrapped CAP q \<Longrightarrow> spsc_contents CAP q = map (\<lambda>tid. raw_payload_validate (packet fault tid) v) ids \<Longrightarrow>
   test_state_ok CAP fault seen t \<Longrightarrow> length seen + length ids < 2 ^ 31 \<Longrightarrow>
   \<exists>t'. worker_loop CAP q t = Inr t' \<and> test_state_ok CAP fault (seen @ ids) t'"
proof (induction ids arbitrary: q t seen)
  case Nil
  then show ?case
    by (subst worker_loop.simps) (simp add: pop_inner_nil unwrapped_def)
next
  case (Cons tid ids)
  let ?x = "raw_payload_validate (packet fault tid) v"
  have cons: "spsc_contents CAP q = ?x # map (\<lambda>tid. raw_payload_validate (packet fault tid) v) ids"
    using Cons.prems(2) by simp
  obtain q1 where q1: "pop_inner CAP q = Inr (Some ?x, q1)" "unwrapped CAP q1"
      "spsc_contents CAP q1 = map (\<lambda>tid. raw_payload_validate (packet fault tid) v) ids"
    using unwrapped_pop [OF Cons.prems(1) cons] by blast
  have "length seen + 1 < 2 ^ 31" using Cons.prems(4) by simp
  then obtain w r t1 where step: "km_process worker_module (ts_worker t) ?x = Inr (w, r)" "test_state_ok CAP fault (seen @ [tid]) t1"
    "case r of Inl failure \<Rightarrow> handle_failure CAP (t\<lparr>ts_worker := w\<rparr>) failure = Inr t1
     | Inr (Completed _) \<Rightarrow> t1 = t\<lparr>ts_worker := w\<rparr> | Inr (Failed _ _ _) \<Rightarrow> False"
    using worker_step [OF Cons.prems(3) _ refl] by metis
  have "\<exists>t'. worker_loop CAP q1 t1 = Inr t' \<and> test_state_ok CAP fault ((seen @ [tid]) @ ids) t'"
    using Cons.prems(4) by (intro Cons.IH [OF q1(2,3) step(2)]) simp
  moreover have "worker_loop CAP q t = worker_loop CAP q1 t1"
    using step(1,3) by (subst worker_loop.simps) (auto simp: q1(1) split: sum.splits work_result.splits)
  ultimately show ?case by simp
qed

section \<open>The stress test\<close>

text \<open>
  The producer's thread pushes the values below \<open>n\<close> in turn and tries again when the queue is full; the
  consumer's thread pops until it has received \<open>n\<close>. Both run the accesses of \<open>Spsc_Concurrent\<close>.
\<close>

inductive stress_step :: "usize \<Rightarrow> nat \<Rightarrow> u64 concurrent \<Rightarrow> u64 concurrent \<Rightarrow> bool" for CAP n where
  start_push: "cc_producer s = PIdle \<Longrightarrow> n_pushed s < n \<Longrightarrow>
    stress_step CAP n s (s\<lparr>cc_producer := PTail (of_nat (n_pushed s)) (last (cc_heads s))\<rparr>)"
| in_push: "cc_producer s \<noteq> PIdle \<Longrightarrow> producer_step CAP s s' \<Longrightarrow> stress_step CAP n s s'"
| start_pop: "cc_consumer s = CIdle \<Longrightarrow> n_popped s < n \<Longrightarrow> consumer_step CAP s s' \<Longrightarrow> stress_step CAP n s s'"
| in_pop: "cc_consumer s \<noteq> CIdle \<Longrightarrow> consumer_step CAP s s' \<Longrightarrow> stress_step CAP n s s'"

lemma stress_concurrent: "stress_step CAP n s s' \<Longrightarrow> concurrent_step CAP s s'"
  by (induction rule: stress_step.induct)
     (auto simp: concurrent_step_def intro: producer_step.load_head)

fun pending :: "'a producer_loc \<Rightarrow> 'a option" where
  "pending PIdle = None"
| "pending (PTail x h) = Some x"
| "pending (PWrite x h) = Some x"
| "pending (PStore x h) = Some x"

definition stress_inv :: "nat \<Rightarrow> u64 concurrent \<Rightarrow> bool" where
  "stress_inv n s \<longleftrightarrow> cc_pushed s = map of_nat [0..<n_pushed s] \<and> n_pushed s \<le> n \<and>
     (cc_producer s \<noteq> PIdle \<longrightarrow> n_pushed s < n \<and> pending (cc_producer s) = Some (of_nat (n_pushed s)))"

lemma read_slot_frame: "read_slot i s = (v, s') \<Longrightarrow> cc_pushed s' = cc_pushed s \<and> cc_producer s' = cc_producer s"
  by (auto simp: read_slot_def split: if_splits)

lemma consumer_step_frame: "consumer_step CAP s s' \<Longrightarrow> cc_pushed s' = cc_pushed s \<and> cc_producer s' = cc_producer s"
  by (induction rule: consumer_step.induct) (auto dest: read_slot_frame)

lemma write_slot_frame: "cc_pushed (write_slot i x s) = cc_pushed s"
  by (simp add: write_slot_def)

lemma stress_step_inv: "stress_step CAP n s s' \<Longrightarrow> stress_inv n s \<Longrightarrow> stress_inv n s'"
proof (induction rule: stress_step.induct)
  case (in_push s s')
  from in_push(2,1,3) show ?case
    by (cases rule: producer_step.cases) (auto simp: stress_inv_def write_slot_frame)
qed (auto simp: stress_inv_def dest: consumer_step_frame)

lemma stress_reachable:
  assumes "(stress_step CAP n)\<^sup>*\<^sup>* (concurrent_new CAP) s" "0 < CAP" "unat CAP dvd 2 ^ 64"
  shows "conc_inv CAP s \<and> stress_inv n s"
  using assms(1)
proof (induction rule: rtranclp_induct)
  case base
  show ?case using conc_inv_new [of CAP] assms(2) by (simp add: stress_inv_def concurrent_new_def)
next
  case (step s s')
  then show ?case
    using concurrent_reachable_inv [of CAP s s'] stress_concurrent [OF step(2)] stress_step_inv [OF step(2)] assms(2,3)
    by blast
qed

lemma consumer_not_stuck:
  assumes "counters_ok CAP s"
  obtains s' where "consumer_step CAP s s'"
proof (cases "cc_consumer s")
  case (CHead t)
  have "cc_head_seen s < length (cc_heads s)" using assms by (simp add: counters_ok_def)
  then show thesis
    using that consumer_step.empty [OF CHead order.refl] consumer_step.some [OF CHead order.refl] by metis
next
  case (CRead t)
  then show thesis using that consumer_step.take consumer_step.race
    by (metis not_None_eq surj_pair)
qed (auto intro: that consumer_step.intros)

section \<open>Properties\<close>

text \<open>C21: The pipeline of the harness does its job for any packets that fit its queues: no assertion fails and
  nothing panics; every packet whose byte is \<open>0xff\<close> is one failure, one reset of the worker and, in order,
  one record of the supervisor; every other packet is processed. The test of the repository, with ten
  packets and one fault, passes.\<close>

theorem harness_pipeline:
  assumes "0 < CAP" "length ids \<le> unat CAP" "length ids < 2 ^ 31" "\<forall>tid \<in> set ids. 1000 + unat tid < 2 ^ 64"
  shows "\<exists>t. run_pipeline CAP fault ids = Inr t \<and> ts_failures t = int (length (filter (faulty fault) ids)) \<and>
    unat (wk_reset_count (ts_worker t)) = length (filter (faulty fault) ids) \<and>
    unat (wk_processed (ts_worker t)) = length (filter (\<lambda>tid. \<not> faulty fault tid) ids) \<and>
    supervisor_log (ts_supervisor t) = map failure_of (filter (faulty fault) ids) \<and>
    (\<forall>tid. find_trace (ts_supervisor t) tid =
       Inr (find (\<lambda>r. trace_id (fr_context r) = tid) (map failure_of (filter (faulty fault) ids))))"
proof -
  let ?v = "validator_capability_new 0xCE112021"
  let ?t = "\<lparr>ts_failures = 0, ts_worker = \<lparr>wk_processed = 0, wk_reset_count = 0\<rparr>, ts_supervisor = supervisor_new CAP\<rparr>"
  obtain q where q: "ingress_loop CAP fault (spsc_new CAP) ids = Inr q" "unwrapped CAP q"
      "spsc_contents CAP q = map (packet fault) ids"
    using ingress_loop_spec [OF unwrapped_new [OF assms(1)], of ids fault] assms
    by (auto simp: spsc_new_wf spsc_new_counters)
  obtain q2 where q2: "validator_loop CAP ?v q (spsc_new CAP) = Inr q2" "unwrapped CAP q2"
      "spsc_contents CAP q2 = map (\<lambda>tid. raw_payload_validate (packet fault tid) ?v) ids"
    using validator_loop_spec [OF q(2) unwrapped_new [OF assms(1)] q(3), of ?v] assms
    by (auto simp: spsc_new_wf spsc_new_counters)
  have "test_state_ok CAP fault [] ?t" by (simp add: test_state_ok_def supervisor_new_ok)
  from worker_loop_spec [OF q2(2,3) this] assms(3)
  obtain t where t: "worker_loop CAP q2 ?t = Inr t" "test_state_ok CAP fault ids t" by auto
  have run: "run_pipeline CAP fault ids = Inr t"
    by (simp add: run_pipeline_def q(1) q2(1) t(1))
  have log: "supervisor_log (ts_supervisor t) = map failure_of (filter (faulty fault) ids)"
    using t(2) assms(2) length_filter_le [of "faulty fault" ids] by (simp add: test_state_ok_def)
  show ?thesis
    using run log t(2) find_trace_log [of CAP "ts_supervisor t"] by (simp add: test_state_ok_def)
qed

theorem harness_pipeline_witness: "pipeline_survives_one_fault_in_ten_packets = Inr ()"
proof -
  let ?ids = "map of_nat [0..<10] :: u64 list"
  have ids: "?ids = [0, 1, 2, 3, 4, 5, 6, 7, 8, 9]" by (simp add: upt_rec)
  have "filter (faulty 4) ?ids = [4]" "filter (\<lambda>tid. \<not> faulty 4 tid) ?ids = [0, 1, 2, 3, 5, 6, 7, 8, 9]"
    unfolding ids by (simp_all add: faulty_def packet_byte_def)
  moreover have "unat (10 :: usize) = 10" by simp
  ultimately obtain t where t: "run_pipeline 10 4 ?ids = Inr t" "ts_failures t = 1" "unat (wk_reset_count (ts_worker t)) = 1"
      "unat (wk_processed (ts_worker t)) = 9" "find_trace (ts_supervisor t) 4 = Inr (Some (failure_of 4))"
    using harness_pipeline [of 10 ?ids 4] unfolding ids
    by (auto simp: failure_of_def trace_context_new_def)
  moreover have "wk_reset_count (ts_worker t) = 1" "wk_processed (ts_worker t) = 9"
    using t(3,4) by (simp_all add: word_unat_eq_iff)
  ultimately show ?thesis
    by (simp add: pipeline_survives_one_fault_in_ten_packets_def check_def failure_of_def trace_context_new_def)
qed

lemma harness_queue_test: "queue_is_bounded_and_non_blocking = Inr ()"
proof -
  have cap: "unat (2 :: usize) = 2" by simp
  show ?thesis
    using unwrapped_run [OF unwrapped_new, of 2 "[Push 10, Push 20, Push 30, Pop, Push 30, Pop, Pop, Pop :: u32 q_op]"]
    by (auto simp: queue_is_bounded_and_non_blocking_def check_def spsc_new_wf spsc_new_counters Let_def)
qed

text \<open>C22: The stress test never fails, whatever the interleaving of its two threads and however stale
  their loads: every value received is the number of those received before, nothing races, and
  the threads are never stuck before both are done.\<close>

theorem stress_test_fifo:
  assumes "0 < CAP" "unat CAP dvd 2 ^ 64" "(stress_step CAP n)\<^sup>*\<^sup>* (concurrent_new CAP) s"
  shows "cc_popped s = map of_nat [0..<length (cc_popped s)] \<and> length (cc_popped s) \<le> n \<and> \<not> cc_race s \<and>
    ((\<exists>s'. stress_step CAP n s s') \<or>
      cc_popped s = map of_nat [0..<n] \<and> cc_pushed s = cc_popped s \<and> cc_producer s = PIdle \<and> cc_consumer s = CIdle)"
proof -
  have c: "conc_inv CAP s" and i: "stress_inv n s" using stress_reachable [OF assms(3,1,2)] by blast+
  then have k: "counters_ok CAP s" "cc_popped s = take (n_popped s) (cc_pushed s)" "n_popped s \<le> n_pushed s"
      "n_pushed s \<le> n" "cc_pushed s = map of_nat [0..<n_pushed s]" "\<not> cc_race s"
    by (auto simp: conc_inv_def counters_ok_def stress_inv_def)
  have popped: "cc_popped s = map of_nat [0..<n_popped s]"
    using k(2,3,5) by (metis take_map take_upt add_0)
  obtain s' where s': "consumer_step CAP s s'" using consumer_not_stuck [OF k(1)] .
  have "\<exists>s'. stress_step CAP n s s'" if "\<not> (cc_consumer s = CIdle \<and> n_popped s = n)"
  proof (cases "cc_consumer s = CIdle")
    case True
    then have "n_popped s < n" using that k(3,4) by simp
    with True s' show ?thesis by (auto intro: stress_step.start_pop)
  qed (use s' in \<open>auto intro: stress_step.in_pop\<close>)
  moreover have "cc_producer s = PIdle \<and> cc_pushed s = cc_popped s" if "n_popped s = n"
    using that i k by (auto simp: stress_inv_def)
  ultimately show ?thesis using popped k(3,4,6) by fastforce
qed

theorem stress_test_fifo_witness:
  "\<exists>s. (stress_step 1024 1000000)\<^sup>*\<^sup>* (concurrent_new 1024) s \<and> cc_producer s = PTail 0 0 \<and> cc_popped s = [] \<and>
    (\<exists>s'. stress_step 1024 1000000 s s')"
proof -
  let ?s = "(concurrent_new 1024)\<lparr>cc_producer := PTail 0 0\<rparr> :: u64 concurrent"
  have "stress_step 1024 1000000 (concurrent_new 1024) ?s"
    using stress_step.start_push [of "concurrent_new 1024" 1000000 1024] by (simp add: concurrent_new_def)
  then have run: "(stress_step 1024 1000000)\<^sup>*\<^sup>* (concurrent_new 1024) ?s" ..
  have "unat (1024 :: usize) dvd 2 ^ 64" by simp
  from stress_test_fifo [OF _ this run] run show ?thesis
    by (intro exI [of _ ?s]) (auto simp: concurrent_new_def)
qed

end
